(* ===== verification/Prelude.thy ===== *)
theory Prelude
  imports Main "HOL-Library.While_Combinator" "HOL-Library.Word"
begin

unbundle bit_operations_syntax

text \<open>
  Shared vocabulary of the development.

  A C function that works on global variables is modelled as a \<^emph>\<open>statement\<close>: a function
  from the state to an outcome. The outcome is \<open>Done s\<close> when the function returns in state
  \<open>s\<close>, \<open>Crash s\<close> when the power is lost (the flash emulator leaves the running
  thread) and \<open>Fault e\<close> when the code does something the C standard or the source forbids:
  an array access out of range, a failed assertion, a panic, or a loop that never ends. The
  combinators below are the statements of C the sources use; \<open>wp\<close> is the total-correctness
  weakest precondition with one postcondition for a normal return and one for a crash, and its
  rules (collection \<open>wp_simps\<close>) reduce a statement to its effect on the state.

  Unsigned machine integers are natural numbers with the wrap-around written out (\<open>u16\<close>,
  \<open>u32\<close>, \<open>u64\<close>). Arrays are functions from the index; every access is checked
  against the declared size.
\<close>

section \<open>Outcomes and statements\<close>

datatype fault = OutOfBounds | DivByZero | Diverges | Panic string | AssertFailed

datatype 's outcome = Done 's | Crash 's | Fault fault

type_synonym 's stmt = "'s \<Rightarrow> 's outcome"

definition skip :: "'s stmt" where
  "skip s = Done s"

definition assign :: "('s \<Rightarrow> 's) \<Rightarrow> 's stmt" where
  "assign f s = Done (f s)"

definition seq :: "'s stmt \<Rightarrow> 's stmt \<Rightarrow> 's stmt" where
  "seq c d s = (case c s of Done t \<Rightarrow> d t | Crash t \<Rightarrow> Crash t | Fault e \<Rightarrow> Fault e)"

primrec block :: "'s stmt list \<Rightarrow> 's stmt" where
  "block [] = skip"
| "block (c # cs) = seq c (block cs)"

definition cond :: "('s \<Rightarrow> bool) \<Rightarrow> 's stmt \<Rightarrow> 's stmt \<Rightarrow> 's stmt" where
  "cond b c d s = (if b s then c s else d s)"

definition only_if :: "('s \<Rightarrow> bool) \<Rightarrow> 's stmt \<Rightarrow> 's stmt" where
  "only_if b c = cond b c skip"

text \<open>A local variable initialised with an expression over the state.\<close>

definition local_var :: "('s \<Rightarrow> 'v) \<Rightarrow> ('v \<Rightarrow> 's stmt) \<Rightarrow> 's stmt" where
  "local_var f k s = k (f s) s"

definition panic :: "string \<Rightarrow> 's stmt" where
  "panic m s = Fault (Panic m)"

text \<open>Reading and writing an array of a declared size.\<close>

definition rd :: "nat \<Rightarrow> ('s \<Rightarrow> nat \<Rightarrow> 'v) \<Rightarrow> ('s \<Rightarrow> nat) \<Rightarrow> ('v \<Rightarrow> 's stmt) \<Rightarrow> 's stmt" where
  "rd n arr i k s = (if i s < n then k (arr s (i s)) s else Fault OutOfBounds)"

definition wr :: "nat \<Rightarrow> (((nat \<Rightarrow> 'v) \<Rightarrow> nat \<Rightarrow> 'v) \<Rightarrow> 's \<Rightarrow> 's) \<Rightarrow> ('s \<Rightarrow> nat) \<Rightarrow> ('s \<Rightarrow> 'v) \<Rightarrow> 's stmt" where
  "wr n upd i v s = (if i s < n then Done (upd (\<lambda>a. a(i s := v s)) s) else Fault OutOfBounds)"

text \<open>
  A while loop. \<open>while_option\<close> gives \<open>None\<close> for a loop that never ends, which is the
  fault \<open>Diverges\<close>.
\<close>

definition while_c :: "('s \<Rightarrow> bool) \<Rightarrow> 's stmt \<Rightarrow> 's stmt" where
  "while_c b c s =
     (case while_option (\<lambda>r. case r of Done t \<Rightarrow> b t | _ \<Rightarrow> False)
                        (\<lambda>r. case r of Done t \<Rightarrow> c t | r' \<Rightarrow> r') (Done s) of
        Some r \<Rightarrow> r | None \<Rightarrow> Fault Diverges)"

text \<open>A loop with a constant number of rounds.\<close>

primrec repeat_c :: "nat \<Rightarrow> 's stmt \<Rightarrow> 's stmt" where
  "repeat_c 0 c = skip"
| "repeat_c (Suc n) c = seq c (repeat_c n c)"

section \<open>Weakest preconditions\<close>

definition wp :: "'s stmt \<Rightarrow> ('s \<Rightarrow> bool) \<Rightarrow> ('s \<Rightarrow> bool) \<Rightarrow> 's \<Rightarrow> bool" where
  "wp c Q C s = (case c s of Done t \<Rightarrow> Q t | Crash t \<Rightarrow> C t | Fault e \<Rightarrow> False)"

named_theorems wp_simps "rules that compute the weakest precondition of a statement"

lemma wp_skip [wp_simps]: "wp skip Q C = Q"
  by (simp add: wp_def skip_def fun_eq_iff)

lemma wp_assign [wp_simps]: "wp (assign f) Q C = (\<lambda>s. Q (f s))"
  by (simp add: wp_def assign_def fun_eq_iff)

lemma wp_seq [wp_simps]: "wp (seq c d) Q C = wp c (wp d Q C) C"
  by (simp add: wp_def seq_def fun_eq_iff split: outcome.split)

lemma wp_block [wp_simps]: "wp (block []) Q C = Q" "wp (block (c # cs)) Q C = wp c (wp (block cs) Q C) C"
  by (simp_all add: wp_simps)

declare block.simps [simp del]

lemma wp_cond [wp_simps]:
  "wp (cond b c d) Q C = (\<lambda>s. if b s then wp c Q C s else wp d Q C s)"
  by (simp add: wp_def cond_def fun_eq_iff)

lemma wp_only_if [wp_simps]:
  "wp (only_if b c) Q C = (\<lambda>s. if b s then wp c Q C s else Q s)"
  by (simp add: only_if_def wp_simps)

lemma wp_local_var [wp_simps]: "wp (local_var f k) Q C = (\<lambda>s. wp (k (f s)) Q C s)"
  by (simp add: wp_def local_var_def fun_eq_iff)

lemma wp_panic [wp_simps]: "wp (panic m) Q C = (\<lambda>s. False)"
  by (simp add: wp_def panic_def fun_eq_iff)

lemma wp_rd [wp_simps]:
  "wp (rd n arr i k) Q C = (\<lambda>s. i s < n \<and> wp (k (arr s (i s))) Q C s)"
  by (simp add: wp_def rd_def fun_eq_iff)

lemma wp_wr [wp_simps]:
  "wp (wr n upd i v) Q C = (\<lambda>s. i s < n \<and> Q (upd (\<lambda>a. a(i s := v s)) s))"
  by (simp add: wp_def wr_def fun_eq_iff)

text \<open>
  Symbolic execution from the first statement on: the rules of \<open>wp_simps\<close> applied to a
  state, and a congruence rule that keeps the simplifier out of the statements that are still to be
  executed, so that the state is in normal form when they are.
\<close>

lemma wp_cong: "c = c' \<Longrightarrow> s = s' \<Longrightarrow> wp c Q C s = wp c' Q C s'"
  by simp

named_theorems vcg "the rules for a statement in a given state"

lemma vcg_rules [vcg]:
  "wp skip Q C s = Q s"
  "wp (assign f) Q C s = Q (f s)"
  "wp (seq c d) Q C s = wp c (wp d Q C) C s"
  "wp (block []) Q C s = Q s"
  "wp (block [c]) Q C s = wp c Q C s"
  "wp (block (c # d # cs)) Q C s = wp c (wp (block (d # cs)) Q C) C s"
  "wp (cond b c d) Q C s = (if b s then wp c Q C s else wp d Q C s)"
  "wp (only_if b c) Q C s = (if b s then wp c Q C s else Q s)"
  "wp (local_var g k) Q C s = wp (k (g s)) Q C s"
  "wp (panic m) Q C s = False"
  "wp (rd n arr i k') Q C s = (i s < n \<and> wp (k' (arr s (i s))) Q C s)"
  "wp (wr n upd i v) Q C s = (i s < n \<and> Q (upd (\<lambda>a. a(i s := v s)) s))"
  by (simp_all add: wp_simps)

lemma wp_mono:
  assumes "wp c Q C s" and "\<And>t. Q t \<Longrightarrow> Q' t" and "\<And>t. C t \<Longrightarrow> C' t"
  shows "wp c Q' C' s"
  using assms by (auto simp: wp_def split: outcome.splits)

lemma wp_conj:
  assumes "wp c Q C s" and "wp c Q' C' s"
  shows "wp c (\<lambda>t. Q t \<and> Q' t) (\<lambda>t. C t \<and> C' t) s"
  using assms by (auto simp: wp_def split: outcome.splits)

lemma wp_Done: "wp c Q C s \<Longrightarrow> c s = Done t \<Longrightarrow> Q t"
  by (simp add: wp_def)

lemma wp_Crash: "wp c Q C s \<Longrightarrow> c s = Crash t \<Longrightarrow> C t"
  by (simp add: wp_def)

lemma wp_no_Fault: "wp c Q C s \<Longrightarrow> c s \<noteq> Fault e"
  by (auto simp: wp_def)

lemma wp_Done_eq: "c s = Done t \<Longrightarrow> wp c Q C s = Q t"
  by (simp add: wp_def)

lemma wp_cases:
  assumes "wp c Q C s"
  obtains (Done) t where "c s = Done t" "Q t" | (Crash) t where "c s = Crash t" "C t"
  using assms by (auto simp: wp_def split: outcome.splits)

text \<open>A statement whose effect is the pure function \<open>f\<close> (it neither crashes nor faults).\<close>

lemma wp_pureI: "c s = Done t \<Longrightarrow> Q t \<Longrightarrow> wp c Q C s"
  by (simp add: wp_def)

lemma wp_exact:
  assumes "\<And>s. wp c (\<lambda>t. t = f s) (\<lambda>_. False) s"
  shows "wp c Q C = (\<lambda>s. Q (f s))"
proof
  fix s
  have "c s = Done (f s)" using assms [of s] by (auto simp: wp_def split: outcome.splits)
  then show "wp c Q C s = Q (f s)" by (simp add: wp_def)
qed

subsection \<open>Loops\<close>

lemma while_c_unfold:
  "while_c b c s = (if b s then seq c (while_c b c) s else Done s)"
proof (cases "b s")
  case False
  then show ?thesis
    by (simp add: while_c_def while_option_unfold)
next
  case True
  let ?B = "\<lambda>r. case r of Done t \<Rightarrow> b t | _ \<Rightarrow> False"
  let ?C = "\<lambda>r. case r of Done t \<Rightarrow> c t | r' \<Rightarrow> r'"
  have step: "while_option ?B ?C (Done s) = while_option ?B ?C (c s)"
    using True by (subst while_option_unfold) simp
  show ?thesis
  proof (cases "c s")
    case (Done t)
    then show ?thesis using True step by (simp add: while_c_def seq_def)
  next
    case (Crash t)
    have "while_option ?B ?C (Crash t) = Some (Crash t)"
      by (subst while_option_unfold) simp
    then show ?thesis using True step Crash by (simp add: while_c_def seq_def)
  next
    case (Fault e)
    have "while_option ?B ?C (Fault e) = Some (Fault e)"
      by (subst while_option_unfold) simp
    then show ?thesis using True step Fault by (simp add: while_c_def seq_def)
  qed
qed

lemma wp_while_unfold:
  "wp (while_c b c) Q C s = (if b s then wp c (wp (while_c b c) Q C) C s else Q s)"
  by (simp add: wp_def while_c_unfold [of b c s] seq_def split: outcome.split)

text \<open>Total correctness of a loop with a variant.\<close>

lemma wp_while:
  fixes m :: "'s \<Rightarrow> nat"
  assumes "I s"
    and step: "\<And>t. I t \<Longrightarrow> b t \<Longrightarrow> wp c (\<lambda>u. I u \<and> m u < m t) C t"
    and exit: "\<And>t. I t \<Longrightarrow> \<not> b t \<Longrightarrow> Q t"
  shows "wp (while_c b c) Q C s"
  using \<open>I s\<close>
proof (induction "m s" arbitrary: s rule: less_induct)
  case less
  show ?case
  proof (cases "b s")
    case True
    have "wp c (wp (while_c b c) Q C) C s"
      by (rule wp_mono [OF step [OF less.prems True]]) (auto intro: less.hyps)
    then show ?thesis using True by (simp add: wp_while_unfold [of b c])
  next
    case False
    then show ?thesis using exit less.prems by (simp add: wp_while_unfold [of b c])
  qed
qed

text \<open>
  Total correctness of a counted loop: \<open>I n\<close> holds after \<open>n\<close> rounds, and the loop
  ends after exactly \<open>N\<close> of them.
\<close>

lemma wp_while_count:
  assumes "I 0 s"
    and step: "\<And>n t. n < N \<Longrightarrow> I n t \<Longrightarrow> b t \<and> wp c (I (Suc n)) C t"
    and exit: "\<And>t. I N t \<Longrightarrow> \<not> b t \<and> Q t"
  shows "wp (while_c b c) Q C s"
proof -
  have "wp (while_c b c) Q C t" if "I n t" "n \<le> N" for n t
    using that
  proof (induction "N - n" arbitrary: n t)
    case 0
    then show ?case using exit [of t] by (simp add: wp_while_unfold [of b c])
  next
    case (Suc d)
    then have "n < N" by simp
    with Suc.prems step have b: "b t" and c: "wp c (I (Suc n)) C t" by blast+
    have "d = N - Suc n" and "Suc n \<le> N" using Suc.hyps(2) by simp_all
    then have "wp c (wp (while_c b c) Q C) C t"
      by (intro wp_mono [OF c] Suc.hyps(1) [of "Suc n"]) auto
    then show ?case using b by (simp add: wp_while_unfold [of b c])
  qed
  then show ?thesis using assms(1) by blast
qed

text \<open>A counted loop that runs through the states \<open>F 0\<close>, \<open>F 1\<close>, ...\<close>

lemma wp_while_iterate:
  assumes "\<And>n. n < N \<Longrightarrow> b (F n) \<and> wp c (\<lambda>t. t = F (Suc n)) C (F n)" and "\<not> b (F N)" and "Q (F N)"
  shows "wp (while_c b c) Q C (F 0)"
  by (rule wp_while_count [where I = "\<lambda>n t. t = F n" and N = N]) (use assms in auto)

lemma wp_repeat:
  assumes "I s" and "\<And>t. I t \<Longrightarrow> wp c I C t"
  shows "wp (repeat_c n c) I C s"
  using assms(1)
proof (induction n arbitrary: s)
  case 0
  then show ?case by (simp add: wp_simps)
next
  case (Suc n)
  have "wp c (wp (repeat_c n c) I C) C s"
    by (rule wp_mono [OF assms(2) [OF Suc.prems]]) (auto intro: Suc.IH)
  then show ?case by (simp add: wp_simps)
qed

section \<open>Unsigned integers\<close>

definition u8 :: "nat \<Rightarrow> nat" where
  "u8 x = x mod 256"

definition u16 :: "nat \<Rightarrow> nat" where
  "u16 x = x mod 65536"

definition u32 :: "nat \<Rightarrow> nat" where
  "u32 x = x mod 4294967296"

definition u64 :: "nat \<Rightarrow> nat" where
  "u64 x = x mod 18446744073709551616"

lemma u8_id [simp]: "x < 256 \<Longrightarrow> u8 x = x"
  by (simp add: u8_def)

lemma u16_id [simp]: "x < 65536 \<Longrightarrow> u16 x = x"
  by (simp add: u16_def)

lemma u32_id [simp]: "x < 4294967296 \<Longrightarrow> u32 x = x"
  by (simp add: u32_def)

lemma u64_id [simp]: "x < 18446744073709551616 \<Longrightarrow> u64 x = x"
  by (simp add: u64_def)

text \<open>Unsigned subtraction and decrement, with borrow.\<close>

definition sub32 :: "nat \<Rightarrow> nat \<Rightarrow> nat" where
  "sub32 a b = u32 (a + (4294967296 - u32 b))"

definition dec16 :: "nat \<Rightarrow> nat" where
  "dec16 a = u16 (a + 65535)"

lemma sub32_id [simp]: "b \<le> a \<Longrightarrow> a < 4294967296 \<Longrightarrow> sub32 a b = a - b"
  by (simp add: sub32_def u32_def mod_if)

lemma dec16_id [simp]: "0 < a \<Longrightarrow> a < 65536 \<Longrightarrow> dec16 a = a - 1"
  by (simp add: dec16_def u16_def mod_if)

lemma and_mask_nat: "(n :: nat) AND (2 ^ k - 1) = n mod 2 ^ k"
  by (metis mask_eq_exp_minus_1 take_bit_eq_mask take_bit_eq_mod)

section \<open>Arrays as functions\<close>

text \<open>The loop \<open>for (i = 0; i < n; i++) dst[d + i] = src[s + i]\<close>.\<close>

definition copy_words :: "nat \<Rightarrow> (nat \<Rightarrow> nat) \<Rightarrow> nat \<Rightarrow> nat \<Rightarrow> (nat \<Rightarrow> nat) \<Rightarrow> nat \<Rightarrow> nat" where
  "copy_words d src s n dst = fold (\<lambda>i a. a(d + i := src (s + i))) [0..<n] dst"

text \<open>The loop \<open>for (i = 0; i < n; i++) p[i] = v\<close>.\<close>

definition fill_words :: "'v \<Rightarrow> nat \<Rightarrow> (nat \<Rightarrow> 'v) \<Rightarrow> nat \<Rightarrow> 'v" where
  "fill_words v n p = fold (\<lambda>i a. a(i := v)) [0..<n] p"

lemma fold_upd_apply:
  "fold (\<lambda>i a. a(d + i := g i)) [0..<n] f j = (if d \<le> j \<and> j < d + n then g (j - d) else f j)"
  by (induction n) (auto simp: less_Suc_eq)

lemma fold_upd0_apply:
  "fold (\<lambda>i a. a(i := g i)) [0..<n] f j = (if j < n then g j else f j)"
  using fold_upd_apply [of 0 g n f j] by simp

lemma copy_words_apply:
  "copy_words d src s n dst j = (if d \<le> j \<and> j < d + n then src (s + (j - d)) else dst j)"
  by (simp add: copy_words_def fold_upd_apply)

lemma fill_words_apply: "fill_words v n p j = (if j < n then v else p j)"
  by (simp add: fill_words_def fold_upd0_apply)

lemma fold_range_apply:
  "b0 \<le> b1 \<Longrightarrow> fold (\<lambda>i a. a(i := g i (a i))) [b0..<b1] f j = (if b0 \<le> j \<and> j < b1 then g j (f j) else f j)"
proof (induction b1)
  case 0
  then show ?case by simp
next
  case (Suc n)
  then show ?case by (cases "b0 \<le> n") (auto simp: less_Suc_eq le_Suc_eq)
qed

end
