(* ===== verification/FlashEmu.thy ===== *)
theory FlashEmu
  imports Prelude
begin

text \<open>
  The flash emulator \<^verbatim>\<open>src/flashemu.c\<close>, the implementation of the flash interface
  \<^verbatim>\<open>src/flash.h\<close> that the crash tests link with the flash translation layer.

  The state is the array \<open>flash[b][p]\<close> of page pointers (\<open>None\<close> is the null pointer: an
  erased page) and the array \<open>synced[b][p]\<close> that says whether the page survives a power
  loss. A crash may happen at every synchronous command: \<open>rand()\<close> decides, and
  \<open>flash_crash\<close> then replaces every page that is not synchronised by fresh memory. Both the
  values of \<open>rand()\<close> (\<open>rands\<close>) and the contents of fresh memory (\<open>malloc_mem\<close>)
  are arbitrary, so a statement about all states is a statement about every crash point and every
  content of a page that was not synchronised.

  The field \<open>disciplined\<close> is not in the source: it records whether every page programmed so far was
  erased and every earlier page of its block was programmed, the discipline of NAND flash that the
  emulator does not check.

  The lemmas give the effect of every command on a page, and which commands keep a page.
\<close>

section \<open>State\<close>

type_synonym page = "nat \<Rightarrow> nat"

definition NUM_PHYSICAL_BLOCKS :: nat where
  "NUM_PHYSICAL_BLOCKS = 2048"

definition PAGES_PER_BLOCK :: nat where
  "PAGES_PER_BLOCK = 512"

definition PAGE_SIZE :: nat where
  "PAGE_SIZE = 8192"

definition SECTOR_SIZE :: nat where
  "SECTOR_SIZE = 4096"

named_theorems macros "the values of the sources' macros"

lemma NUM_PHYSICAL_BLOCKS_val [macros]: "NUM_PHYSICAL_BLOCKS = 2048"
  by (simp add: NUM_PHYSICAL_BLOCKS_def)

lemma PAGES_PER_BLOCK_val [macros]: "PAGES_PER_BLOCK = 512"
  by (simp add: PAGES_PER_BLOCK_def)

lemma PAGE_SIZE_val [macros]: "PAGE_SIZE = 8192"
  by (simp add: PAGE_SIZE_def)

lemma SECTOR_SIZE_val [macros]: "SECTOR_SIZE = 4096"
  by (simp add: SECTOR_SIZE_def)

record flashemu =
  flash :: "nat \<Rightarrow> nat \<Rightarrow> page option"
  synced :: "nat \<Rightarrow> nat \<Rightarrow> bool"
  crash_sim :: bool
  crash_ratio :: nat
  pthd_ret :: nat
  rands :: "nat \<Rightarrow> nat"
  nrand :: nat
  malloc_mem :: "nat \<Rightarrow> nat \<Rightarrow> nat \<Rightarrow> page"
  disciplined :: bool

text \<open>
  The double loop over the pages of the blocks \<open>b0\<close> to \<open>b1 - 1\<close>, whose body changes
  the cell \<open>(b, p)\<close> of a two-dimensional array.
\<close>

definition for_pages :: "nat \<Rightarrow> nat \<Rightarrow> (nat \<Rightarrow> nat \<Rightarrow> 'v \<Rightarrow> 'v) \<Rightarrow> (nat \<Rightarrow> nat \<Rightarrow> 'v) \<Rightarrow> nat \<Rightarrow> nat \<Rightarrow> 'v" where
  "for_pages b0 b1 g a =
     fold (\<lambda>b a. a(b := fold (\<lambda>p r. r(p := g b p (r p))) [0..<PAGES_PER_BLOCK] (a b))) [b0..<b1] a"

lemma for_pages_apply:
  "for_pages b0 b1 g a b p =
     (if b0 \<le> b \<and> b < b1 \<and> p < PAGES_PER_BLOCK then g b p (a b p) else a b p)"
proof (cases "b0 \<le> b1")
  case True
  have row: "fold (\<lambda>p r. r(p := g b p (r p))) [0..<PAGES_PER_BLOCK] (a b) p
      = (if p < PAGES_PER_BLOCK then g b p (a b p) else a b p)"
    using fold_range_apply [of 0 PAGES_PER_BLOCK "\<lambda>p. g b p" "a b" p] by simp
  show ?thesis
    unfolding for_pages_def
    using fold_range_apply [OF True, of "\<lambda>b r. fold (\<lambda>p r. r(p := g b p (r p))) [0..<PAGES_PER_BLOCK] r" a b] row
    by simp
next
  case False
  then show ?thesis by (auto simp: for_pages_def)
qed

section \<open>Power loss\<close>

definition flash_crash :: "flashemu \<Rightarrow> flashemu" where
  "flash_crash f = f\<lparr>flash := for_pages 0 NUM_PHYSICAL_BLOCKS
     (\<lambda>b p page. if \<not> synced f b p then Some (malloc_mem f (nrand f) b p) else page) (flash f)\<rparr>"

text \<open>
  The guard of every synchronous command:
  \<^verbatim>\<open>if (crash_sim && (rand() % crash_ratio) == 0) { flash_crash(); pthd_ret = 1; pthread_exit(&pthd_ret); }\<close>
\<close>

definition crash_check :: "flashemu stmt" where
  "crash_check f =
     (if \<not> crash_sim f then Done f
      else if crash_ratio f = 0 then Fault DivByZero
      else let r = rands f (nrand f); g = f\<lparr>nrand := Suc (nrand f)\<rparr>
           in if r mod crash_ratio f = 0 then Crash ((flash_crash g)\<lparr>pthd_ret := 1\<rparr>) else Done g)"

section \<open>Commands\<close>

text \<open>The contents of a page as a command reads them: an erased page reads as ones.\<close>

definition page_data :: "page option \<Rightarrow> page" where
  "page_data page = (case page of None \<Rightarrow> (\<lambda>_. 0xffffffff) | Some d \<Rightarrow> d)"

definition flash_read :: "nat \<Rightarrow> nat \<Rightarrow> flashemu \<Rightarrow> page outcome" where
  "flash_read blkid pgid f =
     (if blkid < NUM_PHYSICAL_BLOCKS \<and> pgid < PAGES_PER_BLOCK
      then Done (page_data (flash f blkid pgid)) else Fault OutOfBounds)"

definition flash_read_bulk :: "nat \<Rightarrow> nat \<Rightarrow> flashemu \<Rightarrow> (nat \<Rightarrow> nat) \<Rightarrow> (nat \<Rightarrow> nat) outcome" where
  "flash_read_bulk blkid nblks f data =
     (let e = u32 (blkid + nblks) in
      if e \<le> NUM_PHYSICAL_BLOCKS \<or> e \<le> blkid then
        Done (fold (\<lambda>b. fold (\<lambda>p. copy_words (((b - blkid) * PAGES_PER_BLOCK + p) * (PAGE_SIZE div 4))
                 (page_data (flash f b p)) 0 (PAGE_SIZE div 4)) [0..<PAGES_PER_BLOCK]) [blkid..<e] data)
      else Fault OutOfBounds)"

definition put_page :: "nat \<Rightarrow> nat \<Rightarrow> page \<Rightarrow> nat \<Rightarrow> flashemu stmt" where
  "put_page blkid pgid data sync f =
     (if blkid < NUM_PHYSICAL_BLOCKS \<and> pgid < PAGES_PER_BLOCK then
        Done (f\<lparr>flash := (flash f)(blkid := (flash f blkid)(pgid := Some data)),
               synced := (synced f)(blkid := (synced f blkid)(pgid := (u8 sync \<noteq> 0))),
               disciplined := (disciplined f \<and> flash f blkid pgid = None
                 \<and> (\<forall>q \<in> set [0..<pgid]. flash f blkid q \<noteq> None))\<rparr>)
      else Fault OutOfBounds)"

definition flash_program :: "nat \<Rightarrow> nat \<Rightarrow> page \<Rightarrow> nat \<Rightarrow> flashemu stmt" where
  "flash_program blkid pgid data sync =
     block [only_if (\<lambda>_. sync \<noteq> 0) crash_check, put_page blkid pgid data sync]"

definition flash_program_bulk :: "nat \<Rightarrow> nat \<Rightarrow> (nat \<Rightarrow> nat) \<Rightarrow> flashemu stmt" where
  "flash_program_bulk blkid nblks data f =
     (let e = u32 (blkid + nblks) in
      if e \<le> NUM_PHYSICAL_BLOCKS \<or> e \<le> blkid then
        Done (f\<lparr>flash := for_pages blkid e (\<lambda>b p _. Some (\<lambda>i.
                 data (((b - blkid) * PAGES_PER_BLOCK + p) * (PAGE_SIZE div 4) + i))) (flash f),
               synced := for_pages blkid e (\<lambda>b p _. False) (synced f),
               disciplined := (disciplined f
                 \<and> (\<forall>b \<in> set [blkid..<e]. \<forall>p \<in> set [0..<PAGES_PER_BLOCK]. flash f b p = None))\<rparr>)
      else Fault OutOfBounds)"

definition erase_block :: "nat \<Rightarrow> nat \<Rightarrow> flashemu stmt" where
  "erase_block blkid sync f =
     (if blkid < NUM_PHYSICAL_BLOCKS then
        Done (f\<lparr>flash := for_pages blkid (blkid + 1) (\<lambda>b p _. None) (flash f),
               synced := for_pages blkid (blkid + 1) (\<lambda>b p _. u8 sync \<noteq> 0) (synced f)\<rparr>)
      else Fault OutOfBounds)"

definition flash_erase :: "nat \<Rightarrow> nat \<Rightarrow> flashemu stmt" where
  "flash_erase blkid sync =
     block [only_if (\<lambda>_. sync \<noteq> 0) crash_check, erase_block blkid sync]"

definition flash_erase_bulk :: "nat \<Rightarrow> nat \<Rightarrow> flashemu stmt" where
  "flash_erase_bulk blkid nblks f =
     (let e = u32 (blkid + nblks) in
      if e \<le> NUM_PHYSICAL_BLOCKS \<or> e \<le> blkid then
        Done (f\<lparr>flash := for_pages blkid e (\<lambda>b p _. None) (flash f),
               synced := for_pages blkid e (\<lambda>b p _. False) (synced f)\<rparr>)
      else Fault OutOfBounds)"

definition flash_sync :: "flashemu stmt" where
  "flash_sync = block [crash_check,
     assign (\<lambda>f. f\<lparr>synced := for_pages 0 NUM_PHYSICAL_BLOCKS (\<lambda>b p _. True) (synced f)\<rparr>)]"

section \<open>Effects of the commands\<close>

text \<open>
  \<open>crashed f g\<close>: the flash \<open>g\<close> is what a power loss may leave of \<open>f\<close>. Synchronised
  pages keep their contents; nothing is known of the others.
\<close>

definition crashed :: "flashemu \<Rightarrow> flashemu \<Rightarrow> bool" where
  "crashed f g \<longleftrightarrow> synced g = synced f \<and> (\<forall>b p. synced f b p \<longrightarrow> flash g b p = flash f b p)
     \<and> disciplined g = disciplined f \<and> crash_sim g = crash_sim f \<and> crash_ratio g = crash_ratio f"

lemma flash_crash_crashed: "crashed f ((flash_crash (f\<lparr>nrand := n\<rparr>))\<lparr>pthd_ret := r\<rparr>)"
  by (simp add: crashed_def flash_crash_def for_pages_apply)

lemma wp_crash_check:
  assumes "crash_sim f \<longrightarrow> crash_ratio f \<noteq> 0"
    and "\<And>n. Q (f\<lparr>nrand := n\<rparr>)" and "\<And>g. crash_sim f \<Longrightarrow> crashed f g \<Longrightarrow> C g"
  shows "wp crash_check Q C f"
proof -
  have "Q f" using assms(2) [of "nrand f"] by simp
  then show ?thesis
    using assms by (auto simp: wp_def crash_check_def Let_def flash_crash_crashed)
qed

definition prog_page :: "nat \<Rightarrow> nat \<Rightarrow> page \<Rightarrow> bool \<Rightarrow> flashemu \<Rightarrow> flashemu" where
  "prog_page b p d sy f = f\<lparr>
     flash := (flash f)(b := (flash f b)(p := Some d)),
     synced := (synced f)(b := (synced f b)(p := sy)),
     disciplined := (disciplined f \<and> flash f b p = None \<and> (\<forall>q<p. flash f b q \<noteq> None))\<rparr>"

definition erase_blocks :: "nat \<Rightarrow> nat \<Rightarrow> bool \<Rightarrow> flashemu \<Rightarrow> flashemu" where
  "erase_blocks b0 b1 sy f = f\<lparr>
     flash := for_pages b0 b1 (\<lambda>b p _. None) (flash f),
     synced := for_pages b0 b1 (\<lambda>b p _. sy) (synced f)\<rparr>"

definition sync_all :: "flashemu \<Rightarrow> flashemu" where
  "sync_all f = f\<lparr>synced := for_pages 0 NUM_PHYSICAL_BLOCKS (\<lambda>b p _. True) (synced f)\<rparr>"

lemma wp_put_page [wp_simps]:
  "wp (put_page b p d sync) Q C = (\<lambda>f.
     b < NUM_PHYSICAL_BLOCKS \<and> p < PAGES_PER_BLOCK \<and> Q (prog_page b p d (u8 sync \<noteq> 0) f))"
  by (auto simp: wp_def put_page_def prog_page_def Ball_def fun_eq_iff)

lemma wp_erase_block [wp_simps]:
  "wp (erase_block b sync) Q C = (\<lambda>f.
     b < NUM_PHYSICAL_BLOCKS \<and> Q (erase_blocks b (b + 1) (u8 sync \<noteq> 0) f))"
  by (auto simp: wp_def erase_block_def erase_blocks_def fun_eq_iff)

lemma wp_flash_program_async [wp_simps]:
  "wp (flash_program b p d 0) Q C = (\<lambda>f.
     b < NUM_PHYSICAL_BLOCKS \<and> p < PAGES_PER_BLOCK \<and> Q (prog_page b p d False f))"
  by (simp add: flash_program_def wp_simps)

lemma wp_flash_program_sync:
  assumes "crash_sim f \<longrightarrow> crash_ratio f \<noteq> 0" "b < NUM_PHYSICAL_BLOCKS" "p < PAGES_PER_BLOCK"
    and "sync = 1" "\<And>n. Q (prog_page b p d True (f\<lparr>nrand := n\<rparr>))" and "\<And>g. crash_sim f \<Longrightarrow> crashed f g \<Longrightarrow> C g"
  shows "wp (flash_program b p d sync) Q C f"
  using assms by (simp add: flash_program_def wp_simps wp_crash_check)

lemma wp_flash_erase_async [wp_simps]:
  "wp (flash_erase b 0) Q C = (\<lambda>f. b < NUM_PHYSICAL_BLOCKS \<and> Q (erase_blocks b (b + 1) False f))"
  by (simp add: flash_erase_def wp_simps)

lemma wp_flash_erase_sync:
  assumes "crash_sim f \<longrightarrow> crash_ratio f \<noteq> 0" "b < NUM_PHYSICAL_BLOCKS"
    and "sync = 1" "\<And>n. Q (erase_blocks b (b + 1) True (f\<lparr>nrand := n\<rparr>))" and "\<And>g. crash_sim f \<Longrightarrow> crashed f g \<Longrightarrow> C g"
  shows "wp (flash_erase b sync) Q C f"
  using assms by (simp add: flash_erase_def wp_simps wp_crash_check)

lemma wp_flash_erase_bulk:
  assumes "b + n \<le> NUM_PHYSICAL_BLOCKS"
  shows "wp (flash_erase_bulk b n) Q C f \<longleftrightarrow> Q (erase_blocks b (b + n) False f)"
  using assms by (simp add: wp_def flash_erase_bulk_def erase_blocks_def Let_def macros)

lemma wp_flash_sync:
  assumes "crash_sim f \<longrightarrow> crash_ratio f \<noteq> 0"
    and "\<And>n. Q (sync_all (f\<lparr>nrand := n\<rparr>))" and "\<And>g. crash_sim f \<Longrightarrow> crashed f g \<Longrightarrow> C g"
  shows "wp flash_sync Q C f"
  using assms by (simp add: flash_sync_def wp_simps wp_crash_check sync_all_def)

text \<open>Programming a whole block from an array.\<close>

definition prog_block :: "nat \<Rightarrow> (nat \<Rightarrow> nat) \<Rightarrow> flashemu \<Rightarrow> flashemu" where
  "prog_block b data f = f\<lparr>
     flash := for_pages b (b + 1) (\<lambda>_ p _. Some (\<lambda>i. data (p * 2048 + i))) (flash f),
     synced := for_pages b (b + 1) (\<lambda>b p _. False) (synced f),
     disciplined := (disciplined f \<and> (\<forall>p<PAGES_PER_BLOCK. flash f b p = None))\<rparr>"

lemma wp_flash_program_bulk1:
  assumes "b < NUM_PHYSICAL_BLOCKS"
  shows "wp (flash_program_bulk b 1 data) Q C f \<longleftrightarrow> Q (prog_block b data f)"
proof -
  have "for_pages b (b + 1) (\<lambda>c p _. Some (\<lambda>i. data (((c - b) * PAGES_PER_BLOCK + p) * (PAGE_SIZE div 4) + i))) (flash f)
      = for_pages b (b + 1) (\<lambda>_ p _. Some (\<lambda>i. data (p * 2048 + i))) (flash f)"
    by (intro ext) (simp add: for_pages_apply macros)
  moreover have "u32 (b + 1) = b + 1" using assms by (simp add: macros)
  ultimately show ?thesis
    using assms by (simp add: wp_def flash_program_bulk_def prog_block_def Let_def Ball_def)
qed

text \<open>Reading a whole block into an array.\<close>

lemma copy_pages_apply:
  "fold (\<lambda>p. copy_words (p * n) (g p) 0 n) [0..<k] a i
     = (if i < k * n then g (i div n) (i mod n) else a i)"
proof (induction k)
  case 0
  then show ?case by simp
next
  case (Suc k)
  show ?case
  proof (cases "k * n \<le> i \<and> i < k * n + n")
    case True
    then have "i div n = k" by (intro div_nat_eqI) (auto simp: algebra_simps)
    moreover from this have "i mod n = i - k * n" by (simp add: modulo_nat_def)
    ultimately show ?thesis using True by (simp add: copy_words_apply algebra_simps)
  next
    case False
    then show ?thesis using Suc by (auto simp: copy_words_apply algebra_simps)
  qed
qed

lemma flash_read_bulk1:
  assumes "b < NUM_PHYSICAL_BLOCKS"
  shows "flash_read_bulk b 1 f a = Done (\<lambda>i. if i < 512 * 2048
     then page_data (flash f b (i div 2048)) (i mod 2048) else a i)"
proof -
  have "u32 (b + 1) = b + 1" using assms by (simp add: macros)
  moreover have "fold (\<lambda>p. copy_words (p * 2048) (page_data (flash f b p)) 0 2048) [0..<PAGES_PER_BLOCK] a
      = (\<lambda>i. if i < 512 * 2048 then page_data (flash f b (i div 2048)) (i mod 2048) else a i)"
    by (intro ext) (simp add: copy_pages_apply macros)
  ultimately show ?thesis
    using assms by (simp add: flash_read_bulk_def PAGE_SIZE_val Let_def)
qed

subsection \<open>Single cells\<close>

named_theorems cells "what the commands do to a single page"

lemma flash_prog_page [cells]:
  "flash (prog_page b p d sy f) c q = (if c = b \<and> q = p then Some d else flash f c q)"
  by (simp add: prog_page_def)

lemma synced_prog_page [cells]:
  "synced (prog_page b p d sy f) c q = (if c = b \<and> q = p then sy else synced f c q)"
  by (simp add: prog_page_def)

lemma disciplined_prog_page [cells]:
  "disciplined (prog_page b p d sy f) =
     (disciplined f \<and> flash f b p = None \<and> (\<forall>q<p. flash f b q \<noteq> None))"
  by (simp add: prog_page_def)

lemma flash_erase_blocks [cells]:
  "flash (erase_blocks b0 b1 sy f) c q = (if b0 \<le> c \<and> c < b1 \<and> q < PAGES_PER_BLOCK then None else flash f c q)"
  by (simp add: erase_blocks_def for_pages_apply)

lemma synced_erase_blocks [cells]:
  "synced (erase_blocks b0 b1 sy f) c q = (if b0 \<le> c \<and> c < b1 \<and> q < PAGES_PER_BLOCK then sy else synced f c q)"
  by (simp add: erase_blocks_def for_pages_apply)

lemma flash_prog_block [cells]:
  "flash (prog_block b data f) c q =
     (if c = b \<and> q < PAGES_PER_BLOCK then Some (\<lambda>i. data (q * 2048 + i)) else flash f c q)"
  by (auto simp: prog_block_def for_pages_apply)

lemma synced_prog_block [cells]:
  "synced (prog_block b data f) c q = (if c = b \<and> q < PAGES_PER_BLOCK then False else synced f c q)"
  by (auto simp: prog_block_def for_pages_apply)

lemma disciplined_prog_block [cells]:
  "disciplined (prog_block b data f) = (disciplined f \<and> (\<forall>p<PAGES_PER_BLOCK. flash f b p = None))"
  by (simp add: prog_block_def)

lemma synced_sync_all [cells]:
  "synced (sync_all f) c q = (c < NUM_PHYSICAL_BLOCKS \<and> q < PAGES_PER_BLOCK \<or> synced f c q)"
  by (auto simp: sync_all_def for_pages_apply)

lemma flash_sync_all [cells]: "flash (sync_all f) = flash f"
  by (simp add: sync_all_def)

lemma env_fields [cells]:
  "crash_sim (prog_page b p d sy f) = crash_sim f" "crash_ratio (prog_page b p d sy f) = crash_ratio f"
  "crash_sim (erase_blocks b0 b1 sy f) = crash_sim f" "crash_ratio (erase_blocks b0 b1 sy f) = crash_ratio f"
  "crash_sim (prog_block b data f) = crash_sim f" "crash_ratio (prog_block b data f) = crash_ratio f"
  "crash_sim (sync_all f) = crash_sim f" "crash_ratio (sync_all f) = crash_ratio f"
  "disciplined (erase_blocks b0 b1 sy f) = disciplined f" "disciplined (sync_all f) = disciplined f"
  by (simp_all add: prog_page_def erase_blocks_def prog_block_def sync_all_def)

lemma page_data_simps [simp]: "page_data None = (\<lambda>_. 4294967295)" "page_data (Some d) = d"
  by (simp_all add: page_data_def)

end
