(* ===== verification/Ftl.thy ===== *)
theory Ftl
  imports FlashEmu
begin

text \<open>
  The snapshot-consistent flash translation layer \<^verbatim>\<open>src/ftl.c\<close>, linked with the flash
  emulator: its macros, its global variables as the record \<open>ftl\<close> (the field \<open>fl\<close> is
  the flash behind the interface) and every function of the file, in the order of the file. A void
  function is a statement on the record; an \<open>int\<close> function without side effect is a
  predicate. Array accesses are checked against the declared sizes.
\<close>

section \<open>Macros\<close>

definition BLOCKS_DELTA :: nat where "BLOCKS_DELTA = 64"
definition BLOCKS_FULL :: nat where "BLOCKS_FULL = 1"
definition BLOCKS_DATA :: nat where "BLOCKS_DATA = 1536"
definition MAX_WCNT :: nat where "MAX_WCNT = 2048"
definition THRESHOLD_GC :: nat where "THRESHOLD_GC = 1400"

definition BLOCKS_TOTAL :: nat where
  "BLOCKS_TOTAL = BLOCKS_DELTA + (2 * (BLOCKS_FULL + 1)) + BLOCKS_DATA"
definition SECTORS_PER_PAGE :: nat where "SECTORS_PER_PAGE = PAGE_SIZE div SECTOR_SIZE"
definition SECTORS_PER_BLOCK :: nat where "SECTORS_PER_BLOCK = PAGES_PER_BLOCK * SECTORS_PER_PAGE"
definition N_ENTRIES_PER_PAGE :: nat where "N_ENTRIES_PER_PAGE = PAGE_SIZE div 4"
definition N_ENTRIES_PER_SECTOR :: nat where "N_ENTRIES_PER_SECTOR = SECTOR_SIZE div 4"
definition N_LAS :: nat where "N_LAS = BLOCKS_FULL * PAGES_PER_BLOCK * N_ENTRIES_PER_PAGE - 1"
definition N_PAS :: nat where "N_PAS = BLOCKS_TOTAL * PAGES_PER_BLOCK * SECTORS_PER_PAGE"
definition N_DELTA_PAIR :: nat where "N_DELTA_PAIR = N_ENTRIES_PER_PAGE div 2 - 1"
definition THRESHOLD_DELTA_WB :: nat where
  "THRESHOLD_DELTA_WB = BLOCKS_DELTA - (MAX_WCNT div (N_DELTA_PAIR * PAGES_PER_BLOCK) + 2)"
definition MAX_GCPROG :: nat where "MAX_GCPROG = MAX_WCNT * 16"

definition PBA_DELTA :: nat where "PBA_DELTA = 0"
definition PBA_FIRST_FULL :: nat where "PBA_FIRST_FULL = BLOCKS_DELTA"
definition PBA_FIRST_FULL_COMMIT :: nat where "PBA_FIRST_FULL_COMMIT = PBA_FIRST_FULL + BLOCKS_FULL"
definition PBA_SECOND_FULL :: nat where "PBA_SECOND_FULL = PBA_FIRST_FULL_COMMIT + 1"
definition PBA_SECOND_FULL_COMMIT :: nat where "PBA_SECOND_FULL_COMMIT = PBA_SECOND_FULL + BLOCKS_FULL"
definition PBA_DATA :: nat where "PBA_DATA = PBA_SECOND_FULL_COMMIT + 1"

definition OFFSET_COMMIT :: nat where "OFFSET_COMMIT = 0"
definition OFFSET_LAS :: nat where "OFFSET_LAS = 2"
definition OFFSET_PAS :: nat where "OFFSET_PAS = OFFSET_LAS + N_DELTA_PAIR"

definition FLAG_DELTA_COMMITTED :: nat where "FLAG_DELTA_COMMITTED = 0"
definition FLAG_DELTA_TENTATIVE :: nat where "FLAG_DELTA_TENTATIVE = 1"
definition LSA_INVALID :: nat where "LSA_INVALID = N_LAS"
definition PSA_INVALID :: nat where "PSA_INVALID = N_PAS"

definition BLK_LIST_NEXT :: "nat \<Rightarrow> nat" where
  "BLK_LIST_NEXT ptr = (if ptr = BLOCKS_DATA - 1 then 0 else u64 (ptr + 1))"

definition PSA_TO_PBA :: "nat \<Rightarrow> nat" where
  "PSA_TO_PBA psa = psa div SECTORS_PER_BLOCK"

definition PSA_TO_IPA :: "nat \<Rightarrow> nat" where
  "PSA_TO_IPA psa = (psa AND (SECTORS_PER_BLOCK - 1)) div SECTORS_PER_PAGE"

definition PSA_TO_ISA :: "nat \<Rightarrow> nat" where
  "PSA_TO_ISA psa = psa AND (SECTORS_PER_PAGE - 1)"

lemma macro_vals [macros]:
  "BLOCKS_DELTA = 64" "BLOCKS_FULL = 1" "BLOCKS_DATA = 1536" "MAX_WCNT = 2048"
  "THRESHOLD_GC = 1400" "BLOCKS_TOTAL = 1604" "SECTORS_PER_PAGE = 2"
  "SECTORS_PER_BLOCK = 1024" "N_ENTRIES_PER_PAGE = 2048" "N_ENTRIES_PER_SECTOR = 1024"
  "N_LAS = 1048575" "N_PAS = 1642496" "N_DELTA_PAIR = 1023" "THRESHOLD_DELTA_WB = 62"
  "MAX_GCPROG = 32768" "PBA_DELTA = 0" "PBA_FIRST_FULL = 64" "PBA_FIRST_FULL_COMMIT = 65"
  "PBA_SECOND_FULL = 66" "PBA_SECOND_FULL_COMMIT = 67" "PBA_DATA = 68" "OFFSET_COMMIT = 0"
  "OFFSET_LAS = 2" "OFFSET_PAS = 1025" "FLAG_DELTA_COMMITTED = 0" "FLAG_DELTA_TENTATIVE = 1"
  "LSA_INVALID = 1048575" "PSA_INVALID = 1642496"
  by (simp_all add: BLOCKS_DELTA_def BLOCKS_FULL_def BLOCKS_DATA_def MAX_WCNT_def
      THRESHOLD_GC_def BLOCKS_TOTAL_def SECTORS_PER_PAGE_def SECTORS_PER_BLOCK_def
      N_ENTRIES_PER_PAGE_def N_ENTRIES_PER_SECTOR_def N_LAS_def N_PAS_def N_DELTA_PAIR_def
      THRESHOLD_DELTA_WB_def MAX_GCPROG_def PBA_DELTA_def PBA_FIRST_FULL_def
      PBA_FIRST_FULL_COMMIT_def PBA_SECOND_FULL_def PBA_SECOND_FULL_COMMIT_def PBA_DATA_def
      OFFSET_COMMIT_def OFFSET_LAS_def OFFSET_PAS_def FLAG_DELTA_COMMITTED_def
      FLAG_DELTA_TENTATIVE_def LSA_INVALID_def PSA_INVALID_def macros)

section \<open>Global variables\<close>

record ftl =
  isa_active :: nat
  ipa_active :: nat
  pba_active :: nat
  lsas_merge :: "nat \<Rightarrow> nat"
  buf_merge :: "nat \<Rightarrow> nat"
  delta_buf :: "nat \<Rightarrow> nat"
  ptr_delta_buf :: nat
  pba_delta :: nat
  ipa_delta :: nat
  ptr_full :: nat
  buf_commit :: "nat \<Rightarrow> nat"
  blkid :: nat
  pgid :: nat
  sectid :: nat
  idx :: nat
  buf_tmp :: "nat \<Rightarrow> nat"
  pba_committed :: nat
  ipa_committed :: nat
  is_used :: "nat \<Rightarrow> nat"
  buf_read :: "nat \<Rightarrow> nat"
  usable :: nat
  erasable :: nat
  invalid :: nat
  used :: nat
  active :: nat
  blk_list :: "nat \<Rightarrow> nat"
  isa_gc :: nat
  ipa_gc :: nat
  pba_gc :: nat
  lsa_gc :: nat
  buf_gc :: "nat \<Rightarrow> nat"
  gcprog :: nat
  enable_gc :: nat
  vcnts :: "nat \<Rightarrow> nat"
  idx_victim :: nat
  min_vcnt :: nat
  l2p :: "nat \<Rightarrow> nat"
  p2l :: "nat \<Rightarrow> nat"
  wcnt :: nat
  failed :: nat
  pa_used :: "nat \<Rightarrow> nat"
  host_data :: "nat \<Rightarrow> nat"
  fl :: flashemu

text \<open>The flash interface as the translation layer calls it.\<close>

definition on_flash :: "(ftl \<Rightarrow> flashemu stmt) \<Rightarrow> ftl stmt" where
  "on_flash c s = (case c s (fl s) of
     Done f \<Rightarrow> Done (s\<lparr>fl := f\<rparr>) | Crash f \<Rightarrow> Crash (s\<lparr>fl := f\<rparr>) | Fault e \<Rightarrow> Fault e)"

definition read_page :: "(ftl \<Rightarrow> nat) \<Rightarrow> (ftl \<Rightarrow> nat) \<Rightarrow> ((page \<Rightarrow> page) \<Rightarrow> ftl \<Rightarrow> ftl) \<Rightarrow> ftl stmt" where
  "read_page b p upd s = (case flash_read (b s) (p s) (fl s) of
     Done d \<Rightarrow> Done (upd (\<lambda>_. d) s) | Crash _ \<Rightarrow> Crash s | Fault e \<Rightarrow> Fault e)"

section \<open>Memory operations\<close>

definition memcpy32 ::
  "nat \<Rightarrow> (((nat \<Rightarrow> nat) \<Rightarrow> nat \<Rightarrow> nat) \<Rightarrow> ftl \<Rightarrow> ftl) \<Rightarrow> (ftl \<Rightarrow> nat) \<Rightarrow>
   nat \<Rightarrow> (ftl \<Rightarrow> nat \<Rightarrow> nat) \<Rightarrow> (ftl \<Rightarrow> nat) \<Rightarrow> nat \<Rightarrow> ftl stmt" where
  "memcpy32 dsize dst doff ssize src soff len s =
     (if doff s + len \<le> dsize \<and> soff s + len \<le> ssize
      then Done (dst (copy_words (doff s) (src s) (soff s) len) s) else Fault OutOfBounds)"

definition memset32 ::
  "nat \<Rightarrow> (((nat \<Rightarrow> nat) \<Rightarrow> nat \<Rightarrow> nat) \<Rightarrow> ftl \<Rightarrow> ftl) \<Rightarrow> nat \<Rightarrow> nat \<Rightarrow> ftl stmt" where
  "memset32 sz p v len s =
     (if len \<le> sz then Done (p (fill_words v len) s) else Fault OutOfBounds)"

definition memset ::
  "nat \<Rightarrow> (((nat \<Rightarrow> nat) \<Rightarrow> nat \<Rightarrow> nat) \<Rightarrow> ftl \<Rightarrow> ftl) \<Rightarrow> nat \<Rightarrow> nat \<Rightarrow> ftl stmt" where
  "memset sz p c len s =
     (if len \<le> sz then Done (p (fill_words (u8 c) len) s) else Fault OutOfBounds)"

section \<open>Run-time checks\<close>

definition check_sufficient_avail_blocks :: "ftl stmt" where
  "check_sufficient_avail_blocks =
     cond (\<lambda>s. erasable s \<le> BLOCKS_DATA - 36)
       (assign (\<lambda>s. s\<lparr>failed := 0\<rparr>)) (assign (\<lambda>s. s\<lparr>failed := 1\<rparr>))"

definition n_ready_blks :: "ftl \<Rightarrow> nat" where
  "n_ready_blks s = u32 (if usable s \<le> used s then used s - usable s
     else u64 (used s + BLOCKS_DATA - usable s))"

definition check_sufficient_ready_blocks :: "ftl stmt" where
  "check_sufficient_ready_blocks =
     cond (\<lambda>s. n_ready_blks s \<ge> 36)
       (assign (\<lambda>s. s\<lparr>failed := 0\<rparr>)) (assign (\<lambda>s. s\<lparr>failed := 1\<rparr>))"

definition check_l2p_injective_body :: "ftl stmt" where
  "check_l2p_injective_body =
     rd (N_LAS + 1) l2p sectid (\<lambda>pa. block [
       only_if (\<lambda>_. pa \<noteq> N_PAS)
         (rd (N_PAS + 1) pa_used (\<lambda>_. pa) (\<lambda>u. only_if (\<lambda>_. u = 1) (assign (\<lambda>s. s\<lparr>failed := 1\<rparr>)))),
       wr (N_PAS + 1) pa_used_update (\<lambda>_. pa) (\<lambda>_. 1),
       assign (\<lambda>s. s\<lparr>sectid := u32 (sectid s + 1)\<rparr>)])"

definition check_l2p_injective_loop :: "ftl stmt" where
  "check_l2p_injective_loop = while_c (\<lambda>s. sectid s \<noteq> N_LAS) check_l2p_injective_body"

definition check_l2p_injective :: "ftl stmt" where
  "check_l2p_injective = block [
     assign (\<lambda>s. s\<lparr>sectid := 0\<rparr>),
     assign (\<lambda>s. s\<lparr>failed := 0\<rparr>),
     memset (N_PAS + 1) pa_used_update 0 (N_PAS + 1),
     check_l2p_injective_loop]"

section \<open>Block management\<close>

definition choose_free_block :: "ftl stmt" where
  "choose_free_block = block [
     rd BLOCKS_DATA blk_list usable (\<lambda>b. assign (\<lambda>s. s\<lparr>pba_active := b\<rparr>)),
     assign (\<lambda>s. s\<lparr>active := usable s\<rparr>),
     assign (\<lambda>s. s\<lparr>usable := BLK_LIST_NEXT (usable s)\<rparr>)]"

definition make_all_invalid_blocks_erasable :: "ftl stmt" where
  "make_all_invalid_blocks_erasable = assign (\<lambda>s. s\<lparr>invalid := used s\<rparr>)"

definition make_one_erasable_block_free :: "ftl stmt" where
  "make_one_erasable_block_free = block [
     rd BLOCKS_DATA blk_list erasable (\<lambda>b. on_flash (\<lambda>_. flash_erase b 0)),
     assign (\<lambda>s. s\<lparr>erasable := BLK_LIST_NEXT (erasable s)\<rparr>)]"

definition free_blklist_empty :: "ftl \<Rightarrow> bool" where
  "free_blklist_empty s = (usable s = erasable s)"

definition erasable_blklist_empty :: "ftl \<Rightarrow> bool" where
  "erasable_blklist_empty s = (erasable s = invalid s)"

definition categorize_used_and_erasable_blocks_body :: "ftl stmt" where
  "categorize_used_and_erasable_blocks_body = block [
     rd (BLOCKS_DATA + 1) is_used idx (\<lambda>u. cond (\<lambda>_. u \<noteq> 0)
       (block [
          rd BLOCKS_DATA blk_list erasable (\<lambda>b. wr BLOCKS_DATA blk_list_update idx (\<lambda>_. b)),
          wr BLOCKS_DATA blk_list_update erasable blkid,
          assign (\<lambda>s. s\<lparr>erasable := u64 (erasable s + 1)\<rparr>)])
       (wr BLOCKS_DATA blk_list_update idx blkid)),
     assign (\<lambda>s. s\<lparr>idx := u64 (idx s + 1)\<rparr>),
     assign (\<lambda>s. s\<lparr>blkid := u32 (blkid s + 1)\<rparr>)]"

definition categorize_used_and_erasable_blocks_loop :: "ftl stmt" where
  "categorize_used_and_erasable_blocks_loop =
     while_c (\<lambda>s. idx s \<noteq> BLOCKS_DATA) categorize_used_and_erasable_blocks_body"

definition categorize_used_and_erasable_blocks :: "ftl stmt" where
  "categorize_used_and_erasable_blocks = block [
     assign (\<lambda>s. s\<lparr>idx := 0\<rparr>),
     assign (\<lambda>s. s\<lparr>blkid := PBA_DATA\<rparr>),
     categorize_used_and_erasable_blocks_loop]"

definition identify_used_blocks_body :: "ftl stmt" where
  "identify_used_blocks_body = block [
     rd (N_LAS + 1) l2p sectid (\<lambda>psa. local_var (\<lambda>_. PSA_TO_PBA psa) (\<lambda>pba.
       wr (BLOCKS_DATA + 1) is_used_update (\<lambda>_. sub32 pba PBA_DATA) (\<lambda>_. 1))),
     assign (\<lambda>s. s\<lparr>sectid := u32 (sectid s + 1)\<rparr>)]"

definition identify_used_blocks_loop :: "ftl stmt" where
  "identify_used_blocks_loop = while_c (\<lambda>s. sectid s \<noteq> N_LAS) identify_used_blocks_body"

definition identify_used_blocks :: "ftl stmt" where
  "identify_used_blocks = block [
     assign (\<lambda>s. s\<lparr>sectid := 0\<rparr>),
     identify_used_blocks_loop]"

definition reconstruct_block_list :: "ftl stmt" where
  "reconstruct_block_list = block [
     assign (\<lambda>s. s\<lparr>erasable := 0\<rparr>),
     assign (\<lambda>s. s\<lparr>invalid := 0\<rparr>),
     assign (\<lambda>s. s\<lparr>used := 0\<rparr>),
     memset (BLOCKS_DATA + 1) is_used_update 0 (BLOCKS_DATA + 1),
     identify_used_blocks,
     categorize_used_and_erasable_blocks,
     assign (\<lambda>s. s\<lparr>usable := erasable s\<rparr>)]"

section \<open>Merge buffer\<close>

definition invalidate_merge_buffer :: "ftl stmt" where
  "invalidate_merge_buffer = block [
     assign (\<lambda>s. s\<lparr>lsas_merge := fill_words LSA_INVALID SECTORS_PER_PAGE (lsas_merge s)\<rparr>),
     assign (\<lambda>s. s\<lparr>isa_active := 0\<rparr>)]"

definition reset_data_pointer :: "ftl stmt" where
  "reset_data_pointer = block [
     assign (\<lambda>s. s\<lparr>ipa_active := 0\<rparr>),
     choose_free_block]"

definition reset_gc_pointer :: "ftl stmt" where
  "reset_gc_pointer = block [
     assign (\<lambda>s. s\<lparr>enable_gc := 0\<rparr>),
     assign (\<lambda>s. s\<lparr>ipa_gc := 0\<rparr>),
     assign (\<lambda>s. s\<lparr>isa_gc := 0\<rparr>),
     assign (\<lambda>s. s\<lparr>pba_gc := PBA_DATA\<rparr>),
     assign (\<lambda>s. s\<lparr>lsa_gc := N_LAS\<rparr>)]"

definition persist_merge_buffer :: "ftl stmt" where
  "persist_merge_buffer = block [
     on_flash (\<lambda>s. flash_program (pba_active s) (ipa_active s) (buf_merge s) 0),
     invalidate_merge_buffer,
     assign (\<lambda>s. s\<lparr>ipa_active := u32 (ipa_active s + 1)\<rparr>),
     only_if (\<lambda>s. ipa_active s = PAGES_PER_BLOCK) (block [
       assign (\<lambda>s. s\<lparr>ipa_active := 0\<rparr>),
       choose_free_block])]"

definition merge_buf_full :: "ftl \<Rightarrow> bool" where
  "merge_buf_full s = (isa_active s = SECTORS_PER_PAGE)"

definition merge_buf_empty :: "ftl \<Rightarrow> bool" where
  "merge_buf_empty s = (isa_active s = 0)"

text \<open>The second argument is the array the C parameter points to, the third its offset and size.\<close>

definition copy_data_to_merge_buf :: "nat \<Rightarrow> (ftl \<Rightarrow> nat \<Rightarrow> nat) \<Rightarrow> (ftl \<Rightarrow> nat) \<Rightarrow> nat \<Rightarrow> ftl stmt" where
  "copy_data_to_merge_buf lsa data off sz = block [
     memcpy32 N_ENTRIES_PER_PAGE buf_merge_update (\<lambda>s. u32 (isa_active s * N_ENTRIES_PER_SECTOR))
       sz data off N_ENTRIES_PER_SECTOR,
     wr SECTORS_PER_PAGE lsas_merge_update isa_active (\<lambda>_. lsa),
     assign (\<lambda>s. s\<lparr>isa_active := u32 (isa_active s + 1)\<rparr>)]"

section \<open>Garbage collection: page test (not used by the code)\<close>

definition gc_page_valid :: "ftl \<Rightarrow> bool" where
  "gc_page_valid s =
     (let psa_gc = u32 ((pba_gc s * PAGES_PER_BLOCK + ipa_gc s) * SECTORS_PER_PAGE)
      in list_ex (\<lambda>i. p2l s (u32 (psa_gc + i)) \<noteq> LSA_INVALID) [0..<SECTORS_PER_PAGE])"

section \<open>Recovery\<close>

definition reset_committed_point :: "ftl stmt" where
  "reset_committed_point = block [
     assign (\<lambda>s. s\<lparr>pba_committed := 0\<rparr>),
     assign (\<lambda>s. s\<lparr>ipa_committed := 0\<rparr>)]"

definition find_last_committed_delta_chkpt_body :: "ftl stmt" where
  "find_last_committed_delta_chkpt_body = block [
     read_page blkid pgid buf_tmp_update,
     only_if (\<lambda>s. buf_tmp s 0 = 0) (block [
       assign (\<lambda>s. s\<lparr>pba_committed := blkid s\<rparr>),
       assign (\<lambda>s. s\<lparr>ipa_committed := u32 (pgid s + 1)\<rparr>)]),
     assign (\<lambda>s. s\<lparr>pgid := u32 (pgid s + 1)\<rparr>),
     only_if (\<lambda>s. pgid s = PAGES_PER_BLOCK) (block [
       assign (\<lambda>s. s\<lparr>pgid := 0\<rparr>),
       assign (\<lambda>s. s\<lparr>blkid := u32 (blkid s + 1)\<rparr>)])]"

definition find_last_committed_delta_chkpt_loop :: "ftl stmt" where
  "find_last_committed_delta_chkpt_loop =
     while_c (\<lambda>s. blkid s \<noteq> BLOCKS_DELTA) find_last_committed_delta_chkpt_body"

definition find_last_committed_delta_chkpt :: "ftl stmt" where
  "find_last_committed_delta_chkpt = block [
     reset_committed_point,
     assign (\<lambda>s. s\<lparr>blkid := 0\<rparr>),
     assign (\<lambda>s. s\<lparr>pgid := 0\<rparr>),
     find_last_committed_delta_chkpt_loop]"

text \<open>The function reads the first delta page into \<open>buf_tmp\<close> and tests its flag.\<close>

definition first_delta_page_erased :: "ftl stmt \<Rightarrow> ftl stmt" where
  "first_delta_page_erased then_branch = block [
     read_page (\<lambda>_. PBA_DELTA) (\<lambda>_. 0) buf_tmp_update,
     only_if (\<lambda>s. buf_tmp s 0 \<noteq> 0 \<and> buf_tmp s 0 \<noteq> 1) then_branch]"

definition apply_delta_chkpt_body :: "ftl stmt" where
  "apply_delta_chkpt_body = block [
     only_if (\<lambda>s. idx s = 0) (read_page blkid pgid buf_tmp_update),
     only_if (\<lambda>s. \<not> (blkid s > pba_committed s
                       \<or> (blkid s = pba_committed s \<and> pgid s \<ge> ipa_committed s)))
       (rd N_ENTRIES_PER_PAGE buf_tmp (\<lambda>s. idx s + OFFSET_LAS) (\<lambda>la.
        rd N_ENTRIES_PER_PAGE buf_tmp (\<lambda>s. idx s + OFFSET_PAS) (\<lambda>pa.
        wr (N_LAS + 1) l2p_update (\<lambda>_. la) (\<lambda>_. pa)))),
     assign (\<lambda>s. s\<lparr>idx := u64 (idx s + 1)\<rparr>),
     only_if (\<lambda>s. idx s = N_DELTA_PAIR) (block [
       assign (\<lambda>s. s\<lparr>idx := 0\<rparr>),
       assign (\<lambda>s. s\<lparr>pgid := u32 (pgid s + 1)\<rparr>)]),
     only_if (\<lambda>s. pgid s = PAGES_PER_BLOCK) (block [
       assign (\<lambda>s. s\<lparr>pgid := 0\<rparr>),
       assign (\<lambda>s. s\<lparr>blkid := u32 (blkid s + 1)\<rparr>)])]"

definition apply_delta_chkpt_loop :: "ftl stmt" where
  "apply_delta_chkpt_loop = while_c (\<lambda>s. blkid s \<noteq> BLOCKS_DELTA) apply_delta_chkpt_body"

definition apply_delta_chkpt :: "ftl stmt" where
  "apply_delta_chkpt = block [
     assign (\<lambda>s. s\<lparr>blkid := 0\<rparr>),
     assign (\<lambda>s. s\<lparr>pgid := 0\<rparr>),
     assign (\<lambda>s. s\<lparr>idx := 0\<rparr>),
     apply_delta_chkpt_loop]"

definition invalidate_p2l_body :: "ftl stmt" where
  "invalidate_p2l_body = block [
     wr (N_PAS + 1) p2l_update idx (\<lambda>_. N_LAS),
     assign (\<lambda>s. s\<lparr>idx := u64 (idx s + 1)\<rparr>)]"

definition invalidate_p2l_loop :: "ftl stmt" where
  "invalidate_p2l_loop = while_c (\<lambda>s. idx s \<noteq> N_PAS + 1) invalidate_p2l_body"

definition invalidate_p2l :: "ftl stmt" where
  "invalidate_p2l = block [assign (\<lambda>s. s\<lparr>idx := 0\<rparr>), invalidate_p2l_loop]"

definition reset_vcnts_body :: "ftl stmt" where
  "reset_vcnts_body = block [
     wr (BLOCKS_TOTAL + 1) vcnts_update idx (\<lambda>_. 0),
     assign (\<lambda>s. s\<lparr>idx := u64 (idx s + 1)\<rparr>)]"

definition reset_vcnts_loop :: "ftl stmt" where
  "reset_vcnts_loop = while_c (\<lambda>s. idx s \<noteq> BLOCKS_TOTAL) reset_vcnts_body"

definition reset_vcnts :: "ftl stmt" where
  "reset_vcnts = block [assign (\<lambda>s. s\<lparr>idx := 0\<rparr>), reset_vcnts_loop]"

text \<open>\<open>vcnts[i]++\<close> and \<open>vcnts[i]--\<close> on 16-bit counters.\<close>

definition vcnts_inc :: "nat \<Rightarrow> ftl stmt" where
  "vcnts_inc i = wr (BLOCKS_TOTAL + 1) vcnts_update (\<lambda>_. i) (\<lambda>s. u16 (vcnts s i + 1))"

definition vcnts_dec :: "nat \<Rightarrow> ftl stmt" where
  "vcnts_dec i = wr (BLOCKS_TOTAL + 1) vcnts_update (\<lambda>_. i) (\<lambda>s. dec16 (vcnts s i))"

definition count_valid_sectors_body :: "ftl stmt" where
  "count_valid_sectors_body = block [
     rd (N_LAS + 1) l2p sectid (\<lambda>psa. local_var (\<lambda>_. PSA_TO_PBA psa) vcnts_inc),
     assign (\<lambda>s. s\<lparr>sectid := u32 (sectid s + 1)\<rparr>)]"

definition count_valid_sectors_loop :: "ftl stmt" where
  "count_valid_sectors_loop = while_c (\<lambda>s. sectid s \<noteq> N_LAS) count_valid_sectors_body"

definition count_valid_sectors :: "ftl stmt" where
  "count_valid_sectors = block [assign (\<lambda>s. s\<lparr>sectid := 0\<rparr>), count_valid_sectors_loop]"

definition remap_valid_sectors_body :: "ftl stmt" where
  "remap_valid_sectors_body = block [
     rd (N_LAS + 1) l2p idx (\<lambda>pa.
       only_if (\<lambda>_. pa < N_PAS) (wr (N_PAS + 1) p2l_update (\<lambda>_. pa) (\<lambda>s. u32 (idx s)))),
     assign (\<lambda>s. s\<lparr>idx := u64 (idx s + 1)\<rparr>)]"

definition remap_valid_sectors_loop :: "ftl stmt" where
  "remap_valid_sectors_loop = while_c (\<lambda>s. idx s \<noteq> N_LAS) remap_valid_sectors_body"

definition remap_valid_sectors :: "ftl stmt" where
  "remap_valid_sectors = block [assign (\<lambda>s. s\<lparr>idx := 0\<rparr>), remap_valid_sectors_loop]"

section \<open>Delta checkpoints\<close>

definition invalidate_delta_buf_body :: "ftl stmt" where
  "invalidate_delta_buf_body = block [
     wr N_ENTRIES_PER_PAGE delta_buf_update idx (\<lambda>_. N_LAS),
     assign (\<lambda>s. s\<lparr>idx := u64 (idx s + 1)\<rparr>)]"

definition invalidate_delta_buf_loop :: "ftl stmt" where
  "invalidate_delta_buf_loop =
     while_c (\<lambda>s. idx s \<noteq> OFFSET_LAS + N_DELTA_PAIR) invalidate_delta_buf_body"

definition invalidate_delta_buf :: "ftl stmt" where
  "invalidate_delta_buf = block [
     assign (\<lambda>s. s\<lparr>idx := OFFSET_LAS\<rparr>),
     invalidate_delta_buf_loop]"

definition append_delta_pair :: "nat \<Rightarrow> nat \<Rightarrow> ftl stmt" where
  "append_delta_pair la pa = block [
     wr N_ENTRIES_PER_PAGE delta_buf_update (\<lambda>s. u32 (ptr_delta_buf s + OFFSET_LAS)) (\<lambda>_. la),
     wr N_ENTRIES_PER_PAGE delta_buf_update (\<lambda>s. u32 (ptr_delta_buf s + OFFSET_PAS)) (\<lambda>_. pa),
     assign (\<lambda>s. s\<lparr>ptr_delta_buf := u32 (ptr_delta_buf s + 1)\<rparr>)]"

definition create_one_delta_chkpt :: "nat \<Rightarrow> ftl stmt" where
  "create_one_delta_chkpt flag = block [
     only_if (\<lambda>s. ipa_delta s = PAGES_PER_BLOCK) (block [
       assign (\<lambda>s. s\<lparr>ipa_delta := 0\<rparr>),
       assign (\<lambda>s. s\<lparr>pba_delta := u32 (pba_delta s + 1)\<rparr>)]),
     assign (\<lambda>s. s\<lparr>delta_buf := (delta_buf s)(OFFSET_COMMIT := flag)\<rparr>),
     on_flash (\<lambda>s. flash_program (pba_delta s) (ipa_delta s) (delta_buf s) 1),
     assign (\<lambda>s. s\<lparr>ipa_delta := u32 (ipa_delta s + 1)\<rparr>)]"

definition delete_all_delta_chkpts :: "ftl stmt" where
  "delete_all_delta_chkpts = block [
     on_flash (\<lambda>_. flash_erase PBA_DELTA 1),
     on_flash (\<lambda>_. flash_erase_bulk (PBA_DELTA + 1) (BLOCKS_DELTA - 1)),
     on_flash (\<lambda>_. flash_sync),
     assign (\<lambda>s. s\<lparr>delta_buf := (delta_buf s)(OFFSET_COMMIT := 0)\<rparr>),
     on_flash (\<lambda>s. flash_program PBA_DELTA 0 (delta_buf s) 1),
     assign (\<lambda>s. s\<lparr>ipa_delta := 1\<rparr>),
     assign (\<lambda>s. s\<lparr>pba_delta := 0\<rparr>)]"

definition reset_delta_buf :: "ftl stmt" where
  "reset_delta_buf = block [
     assign (\<lambda>s. s\<lparr>ptr_delta_buf := 0\<rparr>),
     invalidate_delta_buf]"

definition delta_chkpt_region_almost_full :: "ftl \<Rightarrow> bool" where
  "delta_chkpt_region_almost_full s = (pba_delta s \<ge> THRESHOLD_DELTA_WB)"

definition delta_chkpt_buf_full :: "ftl \<Rightarrow> bool" where
  "delta_chkpt_buf_full s = (ptr_delta_buf s = N_DELTA_PAIR)"

section \<open>Full checkpoints\<close>

definition pba_full :: "ftl \<Rightarrow> nat" where
  "pba_full s = (if ptr_full s = 0 then PBA_FIRST_FULL else PBA_SECOND_FULL)"

definition create_full_chkpt :: "ftl stmt" where
  "create_full_chkpt = local_var pba_full (\<lambda>pba. block [
     on_flash (\<lambda>s. flash_program_bulk pba BLOCKS_FULL (l2p s)),
     on_flash (\<lambda>_. flash_sync),
     assign (\<lambda>s. s\<lparr>buf_commit := (buf_commit s)(0 := 0)\<rparr>),
     on_flash (\<lambda>s. flash_program (pba + BLOCKS_FULL) 0 (buf_commit s) 1)])"

definition delete_full_chkpt :: "ftl stmt" where
  "delete_full_chkpt = local_var pba_full (\<lambda>pba. block [
     on_flash (\<lambda>_. flash_erase (pba + BLOCKS_FULL) 1),
     on_flash (\<lambda>_. flash_erase_bulk pba BLOCKS_FULL)])"

definition apply_full_chkpt :: "ftl stmt" where
  "apply_full_chkpt = local_var pba_full (\<lambda>pba s.
     case flash_read_bulk pba BLOCKS_FULL (fl s) (l2p s) of
       Done d \<Rightarrow> Done (s\<lparr>l2p := d\<rparr>) | Crash _ \<Rightarrow> Crash s | Fault e \<Rightarrow> Fault e)"

definition find_committed_full_chkpt :: "ftl stmt" where
  "find_committed_full_chkpt = block [
     read_page (\<lambda>_. PBA_FIRST_FULL_COMMIT) (\<lambda>_. 0) buf_tmp_update,
     assign (\<lambda>s. s\<lparr>ptr_full := (if buf_tmp s 0 = 0 then 0 else 1)\<rparr>)]"

definition toggle_full_chkpt :: "ftl stmt" where
  "toggle_full_chkpt = assign (\<lambda>s. s\<lparr>ptr_full := u32 (ptr_full s + 1) mod 2\<rparr>)"

section \<open>Composite helpers\<close>

definition get_active_psa :: "ftl \<Rightarrow> nat" where
  "get_active_psa s =
     u32 ((pba_active s * PAGES_PER_BLOCK + ipa_active s) * SECTORS_PER_PAGE + isa_active s)"

definition get_victim_psa :: "ftl \<Rightarrow> nat" where
  "get_victim_psa s =
     u32 ((pba_gc s * PAGES_PER_BLOCK + ipa_gc s) * SECTORS_PER_PAGE + isa_gc s)"

definition create_one_delta_chkpt_when_delta_buf_full :: "ftl stmt" where
  "create_one_delta_chkpt_when_delta_buf_full =
     only_if delta_chkpt_buf_full (block [
       create_one_delta_chkpt FLAG_DELTA_TENTATIVE,
       reset_delta_buf])"

definition persist_merge_buffer_when_full :: "ftl stmt" where
  "persist_merge_buffer_when_full = only_if merge_buf_full persist_merge_buffer"

definition make_one_erasable_block_free_when_free_blklist_empty :: "ftl stmt" where
  "make_one_erasable_block_free_when_free_blklist_empty =
     only_if free_blklist_empty make_one_erasable_block_free"

definition make_one_erasable_block_unless_erasable_blklist_empty :: "ftl stmt" where
  "make_one_erasable_block_unless_erasable_blklist_empty =
     only_if (\<lambda>s. \<not> erasable_blklist_empty s) make_one_erasable_block_free"

section \<open>Read, write and flush\<close>

text \<open>
  \<open>host_data\<close> is the array the parameter \<open>data\<close> of \<open>ftl_read\<close> points to; the
  array the parameter of \<open>ftl_write\<close> points to is an argument.
\<close>

definition ftl_read :: "nat \<Rightarrow> ftl stmt" where
  "ftl_read lsa =
     cond (\<lambda>_. lsa \<ge> N_LAS) skip
     (cond (\<lambda>s. lsa = lsas_merge s 1)
       (memcpy32 N_ENTRIES_PER_SECTOR host_data_update (\<lambda>_. 0)
          N_ENTRIES_PER_PAGE buf_merge (\<lambda>_. N_ENTRIES_PER_SECTOR) N_ENTRIES_PER_SECTOR)
     (cond (\<lambda>s. lsa = lsas_merge s 0)
       (memcpy32 N_ENTRIES_PER_SECTOR host_data_update (\<lambda>_. 0)
          N_ENTRIES_PER_PAGE buf_merge (\<lambda>_. 0) N_ENTRIES_PER_SECTOR)
       (rd (N_LAS + 1) l2p (\<lambda>_. lsa) (\<lambda>psa. block [
          read_page (\<lambda>_. PSA_TO_PBA psa) (\<lambda>_. PSA_TO_IPA psa) buf_read_update,
          memcpy32 N_ENTRIES_PER_SECTOR host_data_update (\<lambda>_. 0)
            N_ENTRIES_PER_PAGE buf_read (\<lambda>_. u32 (PSA_TO_ISA psa * N_ENTRIES_PER_SECTOR))
            N_ENTRIES_PER_SECTOR]))))"

definition ftl_write :: "nat \<Rightarrow> (nat \<Rightarrow> nat) \<Rightarrow> ftl stmt" where
  "ftl_write lsa data =
     cond (\<lambda>s. lsa \<ge> N_LAS \<or> wcnt s \<ge> MAX_WCNT) skip (block [
       make_one_erasable_block_free_when_free_blklist_empty,
       persist_merge_buffer_when_full,
       rd (N_LAS + 1) l2p (\<lambda>_. lsa) (\<lambda>psa_prev. block [
         wr (N_PAS + 1) p2l_update (\<lambda>_. psa_prev) (\<lambda>_. LSA_INVALID),
         vcnts_dec (PSA_TO_PBA psa_prev)]),
       local_var get_active_psa (\<lambda>psa. block [
         wr (N_LAS + 1) l2p_update (\<lambda>_. lsa) (\<lambda>_. psa),
         wr (N_PAS + 1) p2l_update (\<lambda>_. psa) (\<lambda>_. lsa),
         vcnts_inc (PSA_TO_PBA psa),
         assign (\<lambda>s. s\<lparr>lsa_gc := (if lsa = lsa_gc s then N_LAS else lsa_gc s)\<rparr>),
         copy_data_to_merge_buf lsa (\<lambda>_. data) (\<lambda>_. 0) N_ENTRIES_PER_SECTOR,
         create_one_delta_chkpt_when_delta_buf_full,
         append_delta_pair lsa psa,
         assign (\<lambda>s. s\<lparr>wcnt := u32 (wcnt s + 1)\<rparr>)])])"

definition persist_merge_buffer_unless_empty :: "ftl stmt" where
  "persist_merge_buffer_unless_empty = only_if (\<lambda>s. \<not> merge_buf_empty s) persist_merge_buffer"

definition ftl_flush_precond_holds :: "ftl \<Rightarrow> bool" where
  "ftl_flush_precond_holds s = (n_ready_blks s \<ge> 36)"

definition ftl_flush :: "ftl stmt" where
  "ftl_flush = block [
     check_sufficient_ready_blocks,
     make_one_erasable_block_free_when_free_blklist_empty,
     persist_merge_buffer_unless_empty,
     on_flash (\<lambda>_. flash_sync),
     create_one_delta_chkpt FLAG_DELTA_COMMITTED,
     reset_delta_buf,
     only_if delta_chkpt_region_almost_full (block [
       create_full_chkpt,
       toggle_full_chkpt,
       delete_full_chkpt,
       delete_all_delta_chkpts]),
     make_all_invalid_blocks_erasable,
     assign (\<lambda>s. s\<lparr>gcprog := 0\<rparr>),
     assign (\<lambda>s. s\<lparr>wcnt := 0\<rparr>)]"

section \<open>Garbage collection\<close>

definition reach_gc_threshold :: "ftl \<Rightarrow> bool" where
  "reach_gc_threshold s =
     ((if used s \<le> active s then active s - used s
       else u64 (active s + BLOCKS_DATA - used s)) \<ge> THRESHOLD_GC)"

definition find_index_of_victim_block_body :: "ftl stmt" where
  "find_index_of_victim_block_body = block [
     rd BLOCKS_DATA blk_list idx (\<lambda>b. rd (BLOCKS_TOTAL + 1) vcnts (\<lambda>_. b) (\<lambda>v.
       only_if (\<lambda>s. v < min_vcnt s) (block [
         assign (\<lambda>s. s\<lparr>idx_victim := idx s\<rparr>),
         assign (\<lambda>s. s\<lparr>min_vcnt := v\<rparr>)]))),
     assign (\<lambda>s. s\<lparr>idx := BLK_LIST_NEXT (idx s)\<rparr>)]"

definition find_index_of_victim_block_loop :: "ftl stmt" where
  "find_index_of_victim_block_loop =
     while_c (\<lambda>s. idx s \<noteq> active s) find_index_of_victim_block_body"

definition swap_victim_block_to_head :: "ftl stmt" where
  "swap_victim_block_to_head = block [
     assign (\<lambda>s. s\<lparr>idx := used s\<rparr>),
     assign (\<lambda>s. s\<lparr>idx_victim := used s\<rparr>),
     rd BLOCKS_DATA blk_list idx_victim (\<lambda>b. rd (BLOCKS_TOTAL + 1) vcnts (\<lambda>_. b) (\<lambda>v.
       assign (\<lambda>s. s\<lparr>min_vcnt := v\<rparr>))),
     find_index_of_victim_block_loop,
     rd BLOCKS_DATA blk_list idx_victim (\<lambda>pba_victim. block [
       rd BLOCKS_DATA blk_list used (\<lambda>b. wr BLOCKS_DATA blk_list_update idx_victim (\<lambda>_. b)),
       wr BLOCKS_DATA blk_list_update used (\<lambda>_. pba_victim)])]"

definition choose_victim_block :: "ftl stmt" where
  "choose_victim_block = block [
     swap_victim_block_to_head,
     rd BLOCKS_DATA blk_list used (\<lambda>b. assign (\<lambda>s. s\<lparr>pba_gc := b\<rparr>))]"

definition make_victim_block_invalid :: "ftl stmt" where
  "make_victim_block_invalid = assign (\<lambda>s. s\<lparr>used := BLK_LIST_NEXT (used s)\<rparr>)"

definition load_lsa_gc :: "ftl stmt" where
  "load_lsa_gc = rd (N_PAS + 1) p2l get_victim_psa (\<lambda>la. assign (\<lambda>s. s\<lparr>lsa_gc := la\<rparr>))"

text \<open>The body of \<^verbatim>\<open>if (lsa_gc < N_LAS)\<close>: relocate the victim sector.\<close>

definition gc_copy_sector :: "ftl stmt" where
  "gc_copy_sector = block [
     read_page pba_gc ipa_gc buf_gc_update,
     make_one_erasable_block_free_when_free_blklist_empty,
     persist_merge_buffer_when_full,
     rd (N_LAS + 1) l2p lsa_gc (\<lambda>psa_gc. block [
       wr (N_PAS + 1) p2l_update (\<lambda>_. psa_gc) (\<lambda>_. LSA_INVALID),
       vcnts_dec (PSA_TO_PBA psa_gc)]),
     local_var get_active_psa (\<lambda>psa_active. block [
       wr (N_LAS + 1) l2p_update lsa_gc (\<lambda>_. psa_active),
       wr (N_PAS + 1) p2l_update (\<lambda>_. psa_active) lsa_gc,
       vcnts_inc (PSA_TO_PBA psa_active),
       local_var lsa_gc (\<lambda>la. copy_data_to_merge_buf la buf_gc
         (\<lambda>s. u32 (isa_gc s * N_ENTRIES_PER_SECTOR)) N_ENTRIES_PER_PAGE),
       create_one_delta_chkpt_when_delta_buf_full,
       local_var lsa_gc (\<lambda>la. append_delta_pair la psa_active),
       assign (\<lambda>s. s\<lparr>gcprog := u32 (gcprog s + 1)\<rparr>)])]"

text \<open>The last part of the function: advance to the next sector of the victim block.\<close>

definition gc_advance :: "ftl stmt" where
  "gc_advance = block [
     assign (\<lambda>s. s\<lparr>isa_gc := u32 (isa_gc s + 1)\<rparr>),
     only_if (\<lambda>s. isa_gc s = SECTORS_PER_PAGE) (block [
       assign (\<lambda>s. s\<lparr>isa_gc := 0\<rparr>),
       assign (\<lambda>s. s\<lparr>ipa_gc := u32 (ipa_gc s + 1)\<rparr>),
       only_if (\<lambda>s. ipa_gc s = PAGES_PER_BLOCK) (block [
         make_victim_block_invalid,
         assign (\<lambda>s. s\<lparr>ipa_gc := 0\<rparr>),
         assign (\<lambda>s. s\<lparr>enable_gc := 0\<rparr>)])]),
     load_lsa_gc]"

definition ftl_gc_copy :: "ftl stmt" where
  "ftl_gc_copy =
     cond (\<lambda>s. enable_gc s = 0 \<and> \<not> reach_gc_threshold s) skip
     (cond (\<lambda>s. enable_gc s = 0 \<and> reach_gc_threshold s)
       (block [
          assign (\<lambda>s. s\<lparr>ipa_gc := 0\<rparr>),
          assign (\<lambda>s. s\<lparr>isa_gc := 0\<rparr>),
          assign (\<lambda>s. s\<lparr>enable_gc := 1\<rparr>),
          choose_victim_block,
          load_lsa_gc])
     (cond (\<lambda>s. gcprog s \<ge> MAX_GCPROG) skip
       (block [
          only_if (\<lambda>s. lsa_gc s < N_LAS) gc_copy_sector,
          gc_advance])))"

definition ftl_gc_erase :: "ftl stmt" where
  "ftl_gc_erase = make_one_erasable_block_unless_erasable_blklist_empty"

section \<open>Recovery and format\<close>

definition reset_committed_point_when_first_delta_page_erased :: "ftl stmt" where
  "reset_committed_point_when_first_delta_page_erased =
     first_delta_page_erased reset_committed_point"

definition reconstruct_p2l :: "ftl stmt" where
  "reconstruct_p2l = block [invalidate_p2l, remap_valid_sectors]"

definition reconstruct_vcnts :: "ftl stmt" where
  "reconstruct_vcnts = block [reset_vcnts, count_valid_sectors]"

definition ftl_recovery :: "ftl stmt" where
  "ftl_recovery = block [
     find_committed_full_chkpt,
     apply_full_chkpt,
     find_last_committed_delta_chkpt,
     reset_committed_point_when_first_delta_page_erased,
     apply_delta_chkpt,
     wr (N_LAS + 1) l2p_update (\<lambda>_. N_LAS) (\<lambda>_. N_PAS),
     on_flash (\<lambda>_. flash_sync),
     reset_delta_buf,
     toggle_full_chkpt,
     delete_full_chkpt,
     create_full_chkpt,
     toggle_full_chkpt,
     delete_full_chkpt,
     delete_all_delta_chkpts,
     reconstruct_p2l,
     reconstruct_vcnts,
     reconstruct_block_list,
     check_sufficient_avail_blocks,
     make_one_erasable_block_free,
     invalidate_merge_buffer,
     reset_data_pointer,
     reset_gc_pointer,
     check_l2p_injective,
     assign (\<lambda>s. s\<lparr>gcprog := 0\<rparr>),
     assign (\<lambda>s. s\<lparr>wcnt := 0\<rparr>)]"

definition ftl_format :: "ftl stmt" where
  "ftl_format = block [
     on_flash (\<lambda>_. flash_erase_bulk 0 (BLOCKS_TOTAL + 1)),
     memset32 (N_LAS + 1) l2p_update N_PAS (N_LAS + 1),
     assign (\<lambda>s. s\<lparr>ptr_full := 0\<rparr>),
     create_full_chkpt,
     memset32 N_ENTRIES_PER_PAGE buf_tmp_update 0xffffffff N_ENTRIES_PER_PAGE,
     on_flash (\<lambda>s. flash_program BLOCKS_TOTAL 0 (buf_tmp s) 1)]"

section \<open>Weakest preconditions of the helpers\<close>

text \<open>An update of one array element as an update of the variable.\<close>

lemma array_updates [simp]:
  "delta_buf_update (\<lambda>a. a(i := v)) s = s\<lparr>delta_buf := (delta_buf s)(i := v)\<rparr>"
  "l2p_update (\<lambda>a. a(i := v)) s = s\<lparr>l2p := (l2p s)(i := v)\<rparr>"
  "p2l_update (\<lambda>a. a(i := v)) s = s\<lparr>p2l := (p2l s)(i := v)\<rparr>"
  "vcnts_update (\<lambda>a. a(i := v)) s = s\<lparr>vcnts := (vcnts s)(i := v)\<rparr>"
  "lsas_merge_update (\<lambda>a. a(i := v)) s = s\<lparr>lsas_merge := (lsas_merge s)(i := v)\<rparr>"
  "blk_list_update (\<lambda>a. a(i := v)) s = s\<lparr>blk_list := (blk_list s)(i := v)\<rparr>"
  "is_used_update (\<lambda>a. a(i := v)) s = s\<lparr>is_used := (is_used s)(i := v)\<rparr>"
  "pa_used_update (\<lambda>a. a(i := v)) s = s\<lparr>pa_used := (pa_used s)(i := v)\<rparr>"
  "buf_merge_update (copy_words d x j n) s = s\<lparr>buf_merge := copy_words d x j n (buf_merge s)\<rparr>"
  "host_data_update (copy_words d x j n) s = s\<lparr>host_data := copy_words d x j n (host_data s)\<rparr>"
  "is_used_update (fill_words w n) s = s\<lparr>is_used := fill_words w n (is_used s)\<rparr>"
  "pa_used_update (fill_words w n) s = s\<lparr>pa_used := fill_words w n (pa_used s)\<rparr>"
  "l2p_update (fill_words w n) s = s\<lparr>l2p := fill_words w n (l2p s)\<rparr>"
  "buf_tmp_update (fill_words w n) s = s\<lparr>buf_tmp := fill_words w n (buf_tmp s)\<rparr>"
  by simp_all

lemma wp_on_flash [wp_simps]:
  "wp (on_flash c) Q C = (\<lambda>s. wp (c s) (\<lambda>f. Q (s\<lparr>fl := f\<rparr>)) (\<lambda>f. C (s\<lparr>fl := f\<rparr>)) (fl s))"
  by (simp add: wp_def on_flash_def fun_eq_iff split: outcome.split)

lemma wp_read_page [wp_simps]:
  "wp (read_page b p upd) Q C = (\<lambda>s. b s < NUM_PHYSICAL_BLOCKS \<and> p s < PAGES_PER_BLOCK
     \<and> Q (upd (\<lambda>_. page_data (flash (fl s) (b s) (p s))) s))"
  by (auto simp: wp_def read_page_def flash_read_def fun_eq_iff)

lemma wp_memcpy32 [wp_simps]:
  "wp (memcpy32 n dst d m src i len) Q C = (\<lambda>s. d s + len \<le> n \<and> i s + len \<le> m
     \<and> Q (dst (copy_words (d s) (src s) (i s) len) s))"
  by (auto simp: wp_def memcpy32_def fun_eq_iff)

lemma wp_memset32 [wp_simps]:
  "wp (memset32 n p v len) Q C = (\<lambda>s. len \<le> n \<and> Q (p (fill_words v len) s))"
  by (simp add: wp_def memset32_def fun_eq_iff)

lemma wp_memset [wp_simps]:
  "wp (memset n p c len) Q C = (\<lambda>s. len \<le> n \<and> Q (p (fill_words (u8 c) len) s))"
  by (simp add: wp_def memset_def fun_eq_iff)

lemma vcg_rules_ftl [vcg]:
  "wp (read_page b p upd) Q C s = (b s < NUM_PHYSICAL_BLOCKS \<and> p s < PAGES_PER_BLOCK
     \<and> Q (upd (\<lambda>_. page_data (flash (fl s) (b s) (p s))) s))"
  "wp (memcpy32 n dst d m src i len) Q C s = (d s + len \<le> n \<and> i s + len \<le> m
     \<and> Q (dst (copy_words (d s) (src s) (i s) len) s))"
  "wp (memset32 n p' v len) Q C s = (len \<le> n \<and> Q (p' (fill_words v len) s))"
  "wp (memset n p' c len) Q C s = (len \<le> n \<and> Q (p' (fill_words (u8 c) len) s))"
  by (simp_all add: wp_simps)

lemma wp_apply_full_chkpt [wp_simps]:
  "wp apply_full_chkpt Q C = (\<lambda>s. Q (s\<lparr>l2p := (\<lambda>i. if i < 512 * 2048
     then page_data (flash (fl s) (pba_full s) (i div 2048)) (i mod 2048) else l2p s i)\<rparr>))"
proof -
  have "flash_read_bulk (pba_full s) BLOCKS_FULL (fl s) (l2p s) = Done (\<lambda>i. if i < 512 * 2048
     then page_data (flash (fl s) (pba_full s) (i div 2048)) (i mod 2048) else l2p s i)" for s
    using flash_read_bulk1 [of "pba_full s"] by (simp add: pba_full_def macros)
  then show ?thesis
    by (simp add: apply_full_chkpt_def wp_simps wp_def fun_eq_iff)
qed

end
