(* ===== verification/FtlInv.thy ===== *)
theory FtlInv
  imports Ftl
begin

text \<open>
  The invariant of the flash translation layer and the relation between a flash and the snapshot it
  holds.

  \<^item> \<open>stable_l2p f\<close> is the mapping table that recovery rebuilds from the flash \<open>f\<close>: the
    committed full checkpoint, overlaid with the delta pages up to the last committed one.
  \<^item> \<open>recoverable f st\<close>: the flash holds the snapshot \<open>st\<close> and only synchronised pages
    matter for it, so that it survives a power loss (\<open>recoverable_crash\<close>).
  \<^item> \<open>ram_inv s\<close>: the in-memory structures agree with each other and with the data
    pages on flash; \<open>chkpt_inv s l st\<close>: the checkpoints on flash and in the delta buffer give
    the table \<open>l\<close>, and the flash holds the snapshot \<open>st\<close>.
    Both are conjunctions of predicates on the values of a few variables each, so
    that a statement that changes other variables keeps them without further proof.
  \<^item> \<open>space_inv s\<close>: the delta region and the data region have room for the writes and
    relocations the current epoch may still do.
  \<^item> \<open>view s\<close> is the contents of the logical disk in state \<open>s\<close>.
\<close>

section \<open>Physical addresses\<close>

definition mk_psa :: "nat \<Rightarrow> nat \<Rightarrow> nat \<Rightarrow> nat" where
  "mk_psa b p i = (b * PAGES_PER_BLOCK + p) * SECTORS_PER_PAGE + i"

lemma PSA_TO_PBA_eq: "PSA_TO_PBA a = a div 1024"
  by (simp add: PSA_TO_PBA_def macros)

lemma PSA_TO_IPA_eq: "PSA_TO_IPA a = a mod 1024 div 2"
proof -
  have "a AND (2 ^ 10 - 1) = a mod 2 ^ 10" by (rule and_mask_nat)
  then show ?thesis by (simp add: PSA_TO_IPA_def macros)
qed

lemma PSA_TO_ISA_eq: "PSA_TO_ISA a = a mod 2"
proof -
  have "a AND (2 ^ 1 - 1) = a mod 2 ^ 1" by (rule and_mask_nat)
  then show ?thesis by (simp add: PSA_TO_ISA_def macros)
qed

lemmas PSA_eqs = PSA_TO_PBA_eq PSA_TO_IPA_eq PSA_TO_ISA_eq

lemma mk_psa_eq: "mk_psa b p i = p * 2 + i + b * 1024"
  by (simp add: mk_psa_def macros)

lemma PBA_mk_psa [simp]: "p < 512 \<Longrightarrow> i < 2 \<Longrightarrow> PSA_TO_PBA (mk_psa b p i) = b"
  by (simp add: PSA_eqs mk_psa_eq)

lemma IPA_mk_psa [simp]:
  assumes "p < 512" "i < 2"
  shows "PSA_TO_IPA (mk_psa b p i) = p"
proof -
  have "(p * 2 + i + b * 1024) mod 1024 = p * 2 + i" using assms by simp
  then show ?thesis using assms by (simp add: PSA_eqs mk_psa_eq)
qed

lemma ISA_mk_psa [simp]:
  assumes "i < 2"
  shows "PSA_TO_ISA (mk_psa b p i) = i"
proof -
  have "p * 2 + i + b * 1024 = i + (p + b * 512) * 2" by simp
  then have "(p * 2 + i + b * 1024) mod 2 = i mod 2" by (simp only: mod_mult_self1)
  then show ?thesis using assms by (simp add: PSA_eqs mk_psa_eq)
qed

lemma mk_psa_collapse [simp]: "mk_psa (PSA_TO_PBA a) (PSA_TO_IPA a) (PSA_TO_ISA a) = a"
proof -
  have "a mod 1024 mod 2 = a mod 2" by (rule mod_mod_cancel) simp
  then have "a mod 1024 div 2 * 2 + a mod 2 = a mod 1024"
    by (metis div_mult_mod_eq)
  then show ?thesis by (simp add: PSA_eqs mk_psa_eq)
qed

lemma IPA_less [simp]: "PSA_TO_IPA a < 512"
  by (simp add: PSA_eqs)

lemma ISA_less [simp]: "PSA_TO_ISA a < 2"
  by (simp add: PSA_eqs)

section \<open>The ring of blocks\<close>

text \<open>
  The block list is a ring with five pointers; seen from \<open>usable\<close>, position \<open>k\<close> of the
  ring holds \<open>ring bl usable k\<close>, and a pointer \<open>x\<close> is at distance \<open>rdist usable x\<close>.
  The usable blocks are the positions before \<open>erasable\<close>, then come the erasable, the
  invalid and the used ones, and the active block is the last position.
\<close>

definition ring :: "(nat \<Rightarrow> nat) \<Rightarrow> nat \<Rightarrow> nat \<Rightarrow> nat" where
  "ring bl u k = bl ((u + k) mod BLOCKS_DATA)"

definition rdist :: "nat \<Rightarrow> nat \<Rightarrow> nat" where
  "rdist u x = (x + BLOCKS_DATA - u) mod BLOCKS_DATA"

definition blocks_ok :: "(nat \<Rightarrow> nat) \<Rightarrow> nat \<Rightarrow> nat \<Rightarrow> nat \<Rightarrow> nat \<Rightarrow> nat \<Rightarrow> nat \<Rightarrow> bool" where
  "blocks_ok bl u e i d a pa \<longleftrightarrow>
     u < BLOCKS_DATA \<and> e < BLOCKS_DATA \<and> i < BLOCKS_DATA \<and> d < BLOCKS_DATA \<and> a < BLOCKS_DATA
     \<and> u = BLK_LIST_NEXT a \<and> rdist u e \<le> rdist u i \<and> rdist u i \<le> rdist u d
     \<and> pa = bl a \<and> inj_on bl {..<BLOCKS_DATA}
     \<and> (\<forall>k<BLOCKS_DATA. PBA_DATA \<le> bl k \<and> bl k < BLOCKS_TOTAL)"

section \<open>Mapping tables\<close>

definition map_ok :: "(nat \<Rightarrow> nat) \<Rightarrow> (nat \<Rightarrow> nat) \<Rightarrow> bool" where
  "map_ok l p \<longleftrightarrow>
     (\<forall>la<N_LAS. PBA_DATA * SECTORS_PER_BLOCK \<le> l la \<and> l la \<le> N_PAS)
     \<and> (\<forall>pa<N_PAS. p pa \<le> N_LAS \<and> (\<forall>la<N_LAS. p pa = la \<longleftrightarrow> l la = pa))"

definition vcnt_ok :: "(nat \<Rightarrow> nat) \<Rightarrow> (nat \<Rightarrow> nat) \<Rightarrow> bool" where
  "vcnt_ok l v \<longleftrightarrow> (\<forall>b. PBA_DATA \<le> b \<and> b < BLOCKS_TOTAL \<longrightarrow>
     v b = card {la. la < N_LAS \<and> PSA_TO_PBA (l la) = b})"

text \<open>No logical sector lives in a usable, erasable or invalid block.\<close>

definition free_ok :: "(nat \<Rightarrow> nat) \<Rightarrow> (nat \<Rightarrow> nat) \<Rightarrow> nat \<Rightarrow> nat \<Rightarrow> bool" where
  "free_ok l bl u d \<longleftrightarrow> (\<forall>la<N_LAS. \<forall>k<rdist u d. ring bl u k \<noteq> PSA_TO_PBA (l la))"

definition active_ok :: "(nat \<Rightarrow> nat) \<Rightarrow> nat \<Rightarrow> nat \<Rightarrow> bool" where
  "active_ok l pa ap \<longleftrightarrow> (\<forall>la<N_LAS. PSA_TO_PBA (l la) = pa \<longrightarrow> l la < ap)"

section \<open>Data pages and the merge buffer\<close>

definition pages_ok :: "(nat \<Rightarrow> nat \<Rightarrow> page option) \<Rightarrow> (nat \<Rightarrow> nat) \<Rightarrow> nat \<Rightarrow> nat \<Rightarrow> nat \<Rightarrow> nat \<Rightarrow> bool" where
  "pages_ok fb bl u e pa ip \<longleftrightarrow>
     ip \<le> PAGES_PER_BLOCK
     \<and> (\<forall>k<rdist u e. \<forall>p<PAGES_PER_BLOCK. fb (ring bl u k) p = None)
     \<and> (\<forall>p<ip. fb pa p \<noteq> None)
     \<and> (\<forall>p<PAGES_PER_BLOCK. ip \<le> p \<longrightarrow> fb pa p = None)"

definition merge_ok :: "(nat \<Rightarrow> nat) \<Rightarrow> nat \<Rightarrow> (nat \<Rightarrow> nat) \<Rightarrow> nat \<Rightarrow> bool" where
  "merge_ok lm is l base \<longleftrightarrow>
     is \<le> SECTORS_PER_PAGE
     \<and> (\<forall>i<SECTORS_PER_PAGE. (i < is \<longrightarrow> lm i < N_LAS) \<and> (is \<le> i \<longrightarrow> lm i = N_LAS))
     \<and> (lm 1 < N_LAS \<longrightarrow> l (lm 1) = base + 1)
     \<and> (lm 0 < N_LAS \<and> lm 0 \<noteq> lm 1 \<longrightarrow> l (lm 0) = base)"

definition stored_ok :: "(nat \<Rightarrow> nat) \<Rightarrow> (nat \<Rightarrow> nat) \<Rightarrow> (nat \<Rightarrow> nat \<Rightarrow> page option) \<Rightarrow> bool" where
  "stored_ok l lm fb \<longleftrightarrow> (\<forall>la<N_LAS. la \<noteq> lm 0 \<and> la \<noteq> lm 1 \<longrightarrow>
     fb (PSA_TO_PBA (l la)) (PSA_TO_IPA (l la)) \<noteq> None)"

section \<open>The victim block\<close>

definition gc_ptr_ok :: "nat \<Rightarrow> nat \<Rightarrow> nat \<Rightarrow> bool" where
  "gc_ptr_ok pb ip is \<longleftrightarrow>
     is < SECTORS_PER_PAGE \<and> ip < PAGES_PER_BLOCK \<and> PBA_DATA \<le> pb \<and> pb < BLOCKS_TOTAL"

definition victim_ok :: "nat \<Rightarrow> nat \<Rightarrow> (nat \<Rightarrow> nat) \<Rightarrow> nat \<Rightarrow> nat \<Rightarrow> bool" where
  "victim_ok en pb bl u d \<longleftrightarrow> (en \<noteq> 0 \<longrightarrow> rdist u d < BLOCKS_DATA - 1 \<and> pb = ring bl u (rdist u d))"

text \<open>The sectors of the victim block before the garbage collector's position hold nothing.\<close>

definition gc_left_ok :: "nat \<Rightarrow> (nat \<Rightarrow> nat) \<Rightarrow> nat \<Rightarrow> nat \<Rightarrow> bool" where
  "gc_left_ok en l pb vp \<longleftrightarrow> (en \<noteq> 0 \<longrightarrow> (\<forall>la<N_LAS. PSA_TO_PBA (l la) = pb \<longrightarrow> vp \<le> l la))"

definition gc_lsa_ok :: "nat \<Rightarrow> nat \<Rightarrow> (nat \<Rightarrow> nat) \<Rightarrow> nat \<Rightarrow> bool" where
  "gc_lsa_ok en lg p vp \<longleftrightarrow> (en \<noteq> 0 \<longrightarrow> lg = p vp)"

section \<open>Checkpoints on flash\<close>

definition delta_page :: "flashemu \<Rightarrow> nat \<Rightarrow> page" where
  "delta_page f j = page_data (flash f (j div PAGES_PER_BLOCK) (j mod PAGES_PER_BLOCK))"

definition N_DELTA_PAGES :: nat where
  "N_DELTA_PAGES = BLOCKS_DELTA * PAGES_PER_BLOCK"

lemma N_DELTA_PAGES_val [macros]: "N_DELTA_PAGES = 32768"
  by (simp add: N_DELTA_PAGES_def macros)

definition apply_page :: "page \<Rightarrow> (nat \<Rightarrow> nat) \<Rightarrow> nat \<Rightarrow> nat" where
  "apply_page pg m = fold (\<lambda>i m. m(pg (i + OFFSET_LAS) := pg (i + OFFSET_PAS))) [0..<N_DELTA_PAIR] m"

primrec replay :: "flashemu \<Rightarrow> nat \<Rightarrow> (nat \<Rightarrow> nat) \<Rightarrow> nat \<Rightarrow> nat" where
  "replay f 0 m = m"
| "replay f (Suc n) m = apply_page (delta_page f n) (replay f n m)"

definition full_base :: "nat \<Rightarrow> nat" where
  "full_base k = (if k = 0 then PBA_FIRST_FULL else PBA_SECOND_FULL)"

definition full_table :: "flashemu \<Rightarrow> nat \<Rightarrow> nat \<Rightarrow> nat" where
  "full_table f k la = page_data (flash f (full_base k) (la div N_ENTRIES_PER_PAGE)) (la mod N_ENTRIES_PER_PAGE)"

definition full_committed :: "flashemu \<Rightarrow> nat \<Rightarrow> bool" where
  "full_committed f k \<longleftrightarrow> page_data (flash f (full_base k + BLOCKS_FULL) 0) 0 = 0"

definition chkpt_table :: "flashemu \<Rightarrow> nat \<Rightarrow> nat" where
  "chkpt_table f = full_table f (if full_committed f 0 then 0 else 1)"

text \<open>One more than the last committed page among the first \<open>n\<close> delta pages, 0 if there is none.\<close>

primrec last_commit :: "flashemu \<Rightarrow> nat \<Rightarrow> nat" where
  "last_commit f 0 = 0"
| "last_commit f (Suc n) = (if delta_page f n 0 = 0 then Suc n else last_commit f n)"

definition commit_point :: "flashemu \<Rightarrow> nat" where
  "commit_point f = (if delta_page f 0 0 = 0 \<or> delta_page f 0 0 = 1 then last_commit f N_DELTA_PAGES else 0)"

definition stable_l2p :: "flashemu \<Rightarrow> nat \<Rightarrow> nat" where
  "stable_l2p f = replay f (commit_point f) (chkpt_table f)"

definition sector :: "flashemu \<Rightarrow> nat \<Rightarrow> nat \<Rightarrow> nat" where
  "sector f a o' = page_data (flash f (PSA_TO_PBA a) (PSA_TO_IPA a)) (PSA_TO_ISA a * N_ENTRIES_PER_SECTOR + o')"

text \<open>The blocks of the data region a mapping table uses.\<close>

definition used_blocks :: "(nat \<Rightarrow> nat) \<Rightarrow> nat set" where
  "used_blocks l = {b. PBA_DATA \<le> b \<and> b < BLOCKS_TOTAL \<and> (\<exists>la<N_LAS. PSA_TO_PBA (l la) = b)}"

definition full_synced :: "flashemu \<Rightarrow> bool" where
  "full_synced f \<longleftrightarrow>
     (full_committed f 0 \<or> full_committed f 1)
     \<and> (\<forall>k<2. synced f (full_base k + BLOCKS_FULL) 0)
     \<and> (\<forall>k<2. full_committed f k \<longrightarrow> (\<forall>p<PAGES_PER_BLOCK. synced f (full_base k) p))"

definition delta_log_ok :: "flashemu \<Rightarrow> bool" where
  "delta_log_ok f \<longleftrightarrow>
     (\<forall>j<N_DELTA_PAGES. synced f (j div PAGES_PER_BLOCK) (j mod PAGES_PER_BLOCK))
     \<and> (\<forall>j<commit_point f. \<forall>i<N_DELTA_PAIR. delta_page f j (i + OFFSET_LAS) \<le> N_LAS)"

definition delta_synced :: "flashemu \<Rightarrow> bool" where
  "delta_synced f \<longleftrightarrow> synced f 0 0
     \<and> (delta_page f 0 0 = 0 \<or> delta_page f 0 0 = 1 \<longrightarrow> delta_log_ok f)"

text \<open>A mapping table whose entries are distinct, in the data region and leave enough free blocks.\<close>

definition table_ok :: "(nat \<Rightarrow> nat) \<Rightarrow> bool" where
  "table_ok l \<longleftrightarrow>
     (\<forall>la<N_LAS. PBA_DATA * SECTORS_PER_BLOCK \<le> l la \<and> l la \<le> N_PAS)
     \<and> (\<forall>la<N_LAS. \<forall>la'<N_LAS. l la = l la' \<and> l la \<noteq> N_PAS \<longrightarrow> la = la')
     \<and> card (used_blocks l) \<le> BLOCKS_DATA - 36"

definition holds :: "flashemu \<Rightarrow> (nat \<Rightarrow> nat) \<Rightarrow> (nat \<Rightarrow> nat \<Rightarrow> nat) \<Rightarrow> bool" where
  "holds f l st \<longleftrightarrow> (\<forall>la<N_LAS.
     flash f (PSA_TO_PBA (l la)) (PSA_TO_IPA (l la)) \<noteq> None
     \<and> synced f (PSA_TO_PBA (l la)) (PSA_TO_IPA (l la))
     \<and> (\<forall>o'<N_ENTRIES_PER_SECTOR. sector f (l la) o' = st la o'))"

definition recoverable :: "flashemu \<Rightarrow> (nat \<Rightarrow> nat \<Rightarrow> nat) \<Rightarrow> bool" where
  "recoverable f st \<longleftrightarrow>
     full_synced f \<and> delta_synced f \<and> table_ok (stable_l2p f) \<and> holds f (stable_l2p f) st"

section \<open>The checkpoints in memory\<close>

definition delta_count :: "nat \<Rightarrow> nat \<Rightarrow> nat" where
  "delta_count pd ip = pd * PAGES_PER_BLOCK + ip"

definition delta_ok :: "flashemu \<Rightarrow> nat \<Rightarrow> nat \<Rightarrow> bool" where
  "delta_ok f pd ip \<longleftrightarrow>
     1 \<le> delta_count pd ip \<and> ip \<le> PAGES_PER_BLOCK \<and> delta_count pd ip \<le> N_DELTA_PAGES
     \<and> (\<forall>j<N_DELTA_PAGES. (flash f (j div PAGES_PER_BLOCK) (j mod PAGES_PER_BLOCK) = None
          \<longleftrightarrow> delta_count pd ip \<le> j)
          \<and> synced f (j div PAGES_PER_BLOCK) (j mod PAGES_PER_BLOCK))
     \<and> (\<forall>j<delta_count pd ip. \<forall>i<N_DELTA_PAIR. delta_page f j (i + OFFSET_LAS) \<le> N_LAS)
     \<and> (delta_page f 0 0 = 0 \<or> delta_page f 0 0 = 1)"

definition delta_buf_ok :: "(nat \<Rightarrow> nat) \<Rightarrow> nat \<Rightarrow> bool" where
  "delta_buf_ok db n \<longleftrightarrow> n \<le> N_DELTA_PAIR
     \<and> (\<forall>i<N_DELTA_PAIR. db (i + OFFSET_LAS) \<le> N_LAS \<and> (n \<le> i \<longrightarrow> db (i + OFFSET_LAS) = N_LAS))"

definition full_ok :: "flashemu \<Rightarrow> nat \<Rightarrow> bool" where
  "full_ok f pf \<longleftrightarrow> pf < 2 \<and> full_committed f (1 - pf)
     \<and> (\<forall>p<PAGES_PER_BLOCK. flash f (full_base pf) p = None \<and> flash f (full_base pf + BLOCKS_FULL) p = None)"

text \<open>The mapping table is what the full checkpoint, all delta pages and the delta buffer give.\<close>

definition logged :: "(nat \<Rightarrow> nat) \<Rightarrow> (nat \<Rightarrow> nat) \<Rightarrow> flashemu \<Rightarrow> nat \<Rightarrow> bool" where
  "logged l db f n \<longleftrightarrow> (\<forall>la<N_LAS. l la = apply_page db (replay f n (chkpt_table f)) la)"

definition stable_free :: "flashemu \<Rightarrow> (nat \<Rightarrow> nat) \<Rightarrow> nat \<Rightarrow> nat \<Rightarrow> bool" where
  "stable_free f bl u i \<longleftrightarrow>
     (\<forall>la<N_LAS. \<forall>k<rdist u i. ring bl u k \<noteq> PSA_TO_PBA (stable_l2p f la))"

definition env_ok :: "flashemu \<Rightarrow> bool" where
  "env_ok f \<longleftrightarrow> disciplined f \<and> (crash_sim f \<longrightarrow> crash_ratio f \<noteq> 0)"

section \<open>The invariant\<close>

definition view :: "ftl \<Rightarrow> nat \<Rightarrow> nat \<Rightarrow> nat" where
  "view s la o' =
     (if la = lsas_merge s 1 then buf_merge s (N_ENTRIES_PER_SECTOR + o')
      else if la = lsas_merge s 0 then buf_merge s o'
      else sector (fl s) (l2p s la) o')"

definition active_psa :: "ftl \<Rightarrow> nat" where
  "active_psa s = mk_psa (pba_active s) (ipa_active s) (isa_active s)"

definition victim_psa :: "ftl \<Rightarrow> nat" where
  "victim_psa s = mk_psa (pba_gc s) (ipa_gc s) (isa_gc s)"

definition ram_inv :: "ftl \<Rightarrow> bool" where
  "ram_inv s \<longleftrightarrow>
     blocks_ok (blk_list s) (usable s) (erasable s) (invalid s) (used s) (active s) (pba_active s)
     \<and> map_ok (l2p s) (p2l s)
     \<and> vcnt_ok (l2p s) (vcnts s)
     \<and> free_ok (l2p s) (blk_list s) (usable s) (used s)
     \<and> active_ok (l2p s) (pba_active s) (active_psa s)
     \<and> pages_ok (flash (fl s)) (blk_list s) (usable s) (erasable s) (pba_active s) (ipa_active s)
     \<and> merge_ok (lsas_merge s) (isa_active s) (l2p s) (mk_psa (pba_active s) (ipa_active s) 0)
     \<and> stored_ok (l2p s) (lsas_merge s) (flash (fl s))
     \<and> gc_ptr_ok (pba_gc s) (ipa_gc s) (isa_gc s)
     \<and> victim_ok (enable_gc s) (pba_gc s) (blk_list s) (usable s) (used s)
     \<and> gc_left_ok (enable_gc s) (l2p s) (pba_gc s) (victim_psa s)"

definition chkpt_ok ::
  "flashemu \<Rightarrow> nat \<Rightarrow> nat \<Rightarrow> (nat \<Rightarrow> nat) \<Rightarrow> nat \<Rightarrow> nat \<Rightarrow> (nat \<Rightarrow> nat) \<Rightarrow> (nat \<Rightarrow> nat \<Rightarrow> nat) \<Rightarrow> bool" where
  "chkpt_ok f pd ip db n pf l st \<longleftrightarrow>
     delta_ok f pd ip \<and> delta_buf_ok db n \<and> full_ok f pf \<and> logged l db f (delta_count pd ip)
     \<and> recoverable f st \<and> env_ok f"

definition chkpt_inv :: "ftl \<Rightarrow> (nat \<Rightarrow> nat) \<Rightarrow> (nat \<Rightarrow> nat \<Rightarrow> nat) \<Rightarrow> bool" where
  "chkpt_inv s l st \<longleftrightarrow>
     chkpt_ok (fl s) (pba_delta s) (ipa_delta s) (delta_buf s) (ptr_delta_buf s) (ptr_full s) l st
     \<and> stable_free (fl s) (blk_list s) (usable s) (invalid s)"

text \<open>
  The number of delta pages before the threshold of a full checkpoint, and the sectors that
  writes and relocations may still use: those of the usable and erasable blocks and the rest
  of the active block.
\<close>

definition WB_PAGES :: nat where
  "WB_PAGES = THRESHOLD_DELTA_WB * PAGES_PER_BLOCK"

lemma WB_PAGES_val [macros]: "WB_PAGES = 31744"
  by (simp add: WB_PAGES_def macros)

definition avail_sectors :: "ftl \<Rightarrow> nat" where
  "avail_sectors s = rdist (usable s) (invalid s) * SECTORS_PER_BLOCK + SECTORS_PER_BLOCK
     - (ipa_active s * SECTORS_PER_PAGE + isa_active s)"

definition delta_space :: "nat \<Rightarrow> nat \<Rightarrow> nat \<Rightarrow> bool" where
  "delta_space nd ptr n \<longleftrightarrow> (nd - WB_PAGES) * N_DELTA_PAIR + ptr \<le> n"

definition space_inv :: "ftl \<Rightarrow> bool" where
  "space_inv s \<longleftrightarrow>
     wcnt s \<le> MAX_WCNT \<and> gcprog s \<le> MAX_GCPROG
     \<and> delta_space (delta_count (pba_delta s) (ipa_delta s)) (ptr_delta_buf s) (wcnt s + gcprog s)
     \<and> wcnt s + gcprog s + avail_sectors s > MAX_WCNT + MAX_GCPROG + SECTORS_PER_BLOCK"

definition same_view :: "(nat \<Rightarrow> nat \<Rightarrow> nat) \<Rightarrow> (nat \<Rightarrow> nat \<Rightarrow> nat) \<Rightarrow> bool" where
  "same_view v w \<longleftrightarrow> (\<forall>la<N_LAS. \<forall>o'<N_ENTRIES_PER_SECTOR. v la o' = w la o')"

text \<open>
  The invariant between two operations: the state represents the volatile contents \<open>vol\<close>
  and the snapshot \<open>st\<close>. \<open>base_inv\<close> leaves out the space accounting; the active block may
  be full.
\<close>

definition base_inv :: "ftl \<Rightarrow> (nat \<Rightarrow> nat \<Rightarrow> nat) \<Rightarrow> (nat \<Rightarrow> nat \<Rightarrow> nat) \<Rightarrow> bool" where
  "base_inv s vol st \<longleftrightarrow>
     ram_inv s \<and> gc_lsa_ok (enable_gc s) (lsa_gc s) (p2l s) (victim_psa s)
     \<and> chkpt_inv s (l2p s) st \<and> same_view (view s) vol"

definition ftl_inv :: "ftl \<Rightarrow> (nat \<Rightarrow> nat \<Rightarrow> nat) \<Rightarrow> (nat \<Rightarrow> nat \<Rightarrow> nat) \<Rightarrow> bool" where
  "ftl_inv s vol st \<longleftrightarrow> base_inv s vol st \<and> ipa_active s < PAGES_PER_BLOCK \<and> space_inv s"

text \<open>The invariant of a flash after a power loss.\<close>

definition crash_inv :: "ftl \<Rightarrow> (nat \<Rightarrow> nat \<Rightarrow> nat) \<Rightarrow> bool" where
  "crash_inv s st \<longleftrightarrow> recoverable (fl s) st \<and> env_ok (fl s)"

end
