(* ===== verification/BlockList.thy ===== *)
theory BlockList
  imports FtlInv
begin

text \<open>
  The block list of \<^verbatim>\<open>src/ftl.c\<close> as a ring: how the distances and positions seen from
  \<open>usable\<close> change when a pointer moves, and that the four pointer operations
  (take a usable block, erase an erasable one, release the invalid ones, retire the victim) keep
  \<open>blocks_ok\<close>.
\<close>

section \<open>Distances\<close>

lemma BLK_LIST_NEXT_eq: "x < BLOCKS_DATA \<Longrightarrow> BLK_LIST_NEXT x = (if x + 1 = BLOCKS_DATA then 0 else x + 1)"
  by (auto simp: BLK_LIST_NEXT_def macros)

lemma BLK_LIST_NEXT_less [simp]: "x < BLOCKS_DATA \<Longrightarrow> BLK_LIST_NEXT x < BLOCKS_DATA"
  by (auto simp: BLK_LIST_NEXT_eq macros)

lemma rdist_eq:
  "u < BLOCKS_DATA \<Longrightarrow> x < BLOCKS_DATA \<Longrightarrow> rdist u x = (if u \<le> x then x - u else x + BLOCKS_DATA - u)"
  by (auto simp: rdist_def mod_if macros)

lemma ring_eq:
  "u < BLOCKS_DATA \<Longrightarrow> k \<le> BLOCKS_DATA \<Longrightarrow>
     ring bl u k = bl (if u + k < BLOCKS_DATA then u + k else u + k - BLOCKS_DATA)"
  by (auto simp: ring_def mod_if macros)

lemma rdist_less [simp]: "rdist u x < BLOCKS_DATA"
  by (simp add: rdist_def macros)

lemma rdist_self [simp]: "u < BLOCKS_DATA \<Longrightarrow> rdist u u = 0"
  by (simp add: rdist_eq)

lemma rdist_0_iff: "u < BLOCKS_DATA \<Longrightarrow> x < BLOCKS_DATA \<Longrightarrow> rdist u x = 0 \<longleftrightarrow> x = u"
  by (auto simp: rdist_eq)

lemma rdist_inj:
  "u < BLOCKS_DATA \<Longrightarrow> x < BLOCKS_DATA \<Longrightarrow> y < BLOCKS_DATA \<Longrightarrow> rdist u x = rdist u y \<longleftrightarrow> x = y"
  by (auto simp: rdist_eq split: if_splits)

lemma ring_rdist [simp]: "u < BLOCKS_DATA \<Longrightarrow> x < BLOCKS_DATA \<Longrightarrow> ring bl u (rdist u x) = bl x"
  by (auto simp: ring_eq rdist_eq)

lemma rdist_next:
  "u < BLOCKS_DATA \<Longrightarrow> x < BLOCKS_DATA \<Longrightarrow> rdist u x < BLOCKS_DATA - 1 \<Longrightarrow>
     rdist u (BLK_LIST_NEXT x) = Suc (rdist u x)"
  by (auto simp: rdist_eq BLK_LIST_NEXT_eq macros split: if_splits)

lemma rdist_next_left:
  "u < BLOCKS_DATA \<Longrightarrow> x < BLOCKS_DATA \<Longrightarrow> 0 < rdist u x \<Longrightarrow> rdist (BLK_LIST_NEXT u) x = rdist u x - 1"
  by (auto simp: rdist_eq BLK_LIST_NEXT_eq macros split: if_splits)

lemma rdist_active: "a < BLOCKS_DATA \<Longrightarrow> rdist (BLK_LIST_NEXT a) a = BLOCKS_DATA - 1"
  by (auto simp: rdist_eq BLK_LIST_NEXT_eq macros)

lemma ring_next:
  "u < BLOCKS_DATA \<Longrightarrow> k < BLOCKS_DATA \<Longrightarrow> ring bl (BLK_LIST_NEXT u) k = ring bl u (Suc k)"
  by (auto simp: ring_eq BLK_LIST_NEXT_eq macros)

lemma ring_inj:
  assumes "inj_on bl {..<BLOCKS_DATA}" "u < BLOCKS_DATA" "k < BLOCKS_DATA" "k' < BLOCKS_DATA"
  shows "ring bl u k = ring bl u k' \<longleftrightarrow> k = k'"
proof
  assume eq: "ring bl u k = ring bl u k'"
  let ?w = "\<lambda>k. if u + k < BLOCKS_DATA then u + k else u + k - BLOCKS_DATA"
  have "?w k < BLOCKS_DATA" "?w k' < BLOCKS_DATA" using assms by auto
  moreover have "bl (?w k) = bl (?w k')" using eq assms by (simp add: ring_eq)
  ultimately have "?w k = ?w k'" using assms(1) by (simp add: inj_on_def)
  then show "k = k'" using assms(2-4) by (auto split: if_splits)
qed simp

lemma ring_cover:
  assumes "u < BLOCKS_DATA" "x < BLOCKS_DATA"
  shows "\<exists>k<BLOCKS_DATA. ring bl u k = bl x"
  using assms by (intro exI [of _ "rdist u x"]) simp

lemma n_ready_blks_rdist:
  "usable s < BLOCKS_DATA \<Longrightarrow> used s < BLOCKS_DATA \<Longrightarrow> n_ready_blks s = rdist (usable s) (used s)"
  by (auto simp: n_ready_blks_def rdist_eq macros)

section \<open>Consequences of the block invariant\<close>

lemma blocks_okD:
  assumes "blocks_ok bl u e i d a pa"
  shows "u < BLOCKS_DATA" "e < BLOCKS_DATA" "i < BLOCKS_DATA" "d < BLOCKS_DATA" "a < BLOCKS_DATA"
    "u = BLK_LIST_NEXT a" "rdist u e \<le> rdist u i" "rdist u i \<le> rdist u d" "pa = bl a"
    "inj_on bl {..<BLOCKS_DATA}" "\<And>k. k < BLOCKS_DATA \<Longrightarrow> PBA_DATA \<le> bl k \<and> bl k < BLOCKS_TOTAL"
  using assms by (auto simp: blocks_ok_def)

lemma blocks_ok_active:
  assumes "blocks_ok bl u e i d a pa"
  shows "pa = ring bl u (BLOCKS_DATA - 1)" "PBA_DATA \<le> pa" "pa < BLOCKS_TOTAL"
proof -
  note b = blocks_okD [OF assms]
  show "pa = ring bl u (BLOCKS_DATA - 1)"
    using b ring_rdist [of u a bl] rdist_active [of a] by simp
  show "PBA_DATA \<le> pa" "pa < BLOCKS_TOTAL" using b by auto
qed

lemma ring_range:
  assumes "blocks_ok bl u e i d a pa" "k < BLOCKS_DATA"
  shows "PBA_DATA \<le> ring bl u k" "ring bl u k < BLOCKS_TOTAL"
  using blocks_okD [OF assms(1)] assms(2) by (auto simp: ring_def macros)

lemma ring_neq_active:
  assumes "blocks_ok bl u e i d a pa" "k < BLOCKS_DATA - 1"
  shows "ring bl u k \<noteq> pa"
  using blocks_ok_active(1) [OF assms(1)] blocks_okD(1,10) [OF assms(1)] assms(2)
  by (simp add: ring_inj macros)

lemma rdist_used_less:
  assumes "blocks_ok bl u e i d a pa"
  shows "rdist u e < BLOCKS_DATA" "rdist u i < BLOCKS_DATA" "rdist u d \<le> BLOCKS_DATA - 1"
  using rdist_less [of u e] rdist_less [of u i] rdist_less [of u d] by linarith+

lemma block_cases:
  assumes "blocks_ok bl u e i d a pa" "PBA_DATA \<le> b" "b < BLOCKS_TOTAL"
  obtains k where "k < BLOCKS_DATA" "b = ring bl u k"
proof -
  note ok = blocks_okD [OF assms(1)]
  have "bl ` {..<BLOCKS_DATA} \<subseteq> {PBA_DATA..<BLOCKS_TOTAL}" using ok(11) by auto
  moreover have "card (bl ` {..<BLOCKS_DATA}) = card {PBA_DATA..<BLOCKS_TOTAL}"
    using ok(10) by (simp add: card_image macros)
  ultimately have "bl ` {..<BLOCKS_DATA} = {PBA_DATA..<BLOCKS_TOTAL}"
    by (simp add: card_subset_eq)
  then obtain x where "x < BLOCKS_DATA" "b = bl x"
    using assms(2,3) by (metis atLeastLessThan_iff imageE lessThan_iff)
  then show ?thesis using that ring_cover [OF ok(1)] by metis
qed

section \<open>Moving the pointers\<close>

text \<open>\<open>choose_free_block\<close>: the first usable block becomes the active one.\<close>

lemma blocks_ok_choose:
  assumes "blocks_ok bl u e i d a pa" "0 < rdist u e"
  shows "blocks_ok bl (BLK_LIST_NEXT u) e i d u (bl u)"
  using assms blocks_okD [OF assms(1)] by (auto simp: blocks_ok_def rdist_next_left diff_le_mono)

text \<open>\<open>make_one_erasable_block_free\<close>.\<close>

lemma blocks_ok_erase:
  assumes "blocks_ok bl u e i d a pa" "rdist u e < rdist u i"
  shows "blocks_ok bl u (BLK_LIST_NEXT e) i d a pa"
    and "rdist u (BLK_LIST_NEXT e) = Suc (rdist u e)"
proof -
  note b = blocks_okD [OF assms(1)]
  have "rdist u e < BLOCKS_DATA - 1" using assms(2) rdist_less [of u i] by linarith
  then show nx: "rdist u (BLK_LIST_NEXT e) = Suc (rdist u e)" using b by (simp add: rdist_next)
  show "blocks_ok bl u (BLK_LIST_NEXT e) i d a pa"
    using assms b nx by (simp add: blocks_ok_def)
qed

text \<open>\<open>make_all_invalid_blocks_erasable\<close>.\<close>

lemma blocks_ok_release:
  assumes "blocks_ok bl u e i d a pa"
  shows "blocks_ok bl u e d d a pa"
  using assms by (auto simp: blocks_ok_def)

text \<open>\<open>make_victim_block_invalid\<close>.\<close>

lemma blocks_ok_retire:
  assumes "blocks_ok bl u e i d a pa" "rdist u d < BLOCKS_DATA - 1"
  shows "blocks_ok bl u e i (BLK_LIST_NEXT d) a pa"
    and "rdist u (BLK_LIST_NEXT d) = Suc (rdist u d)"
proof -
  note b = blocks_okD [OF assms(1)]
  show nx: "rdist u (BLK_LIST_NEXT d) = Suc (rdist u d)" using assms(2) b by (simp add: rdist_next)
  show "blocks_ok bl u e i (BLK_LIST_NEXT d) a pa"
    using assms b nx by (simp add: blocks_ok_def)
qed

text \<open>\<open>swap_victim_block_to_head\<close> exchanges two used blocks.\<close>

lemma blocks_ok_swap:
  assumes "blocks_ok bl u e i d a pa" "rdist u d \<le> rdist u x" "x < BLOCKS_DATA" "x \<noteq> a" "d \<noteq> a"
  shows "blocks_ok (bl(x := bl d, d := bl x)) u e i d a pa"
    and "\<And>k. k < rdist u d \<Longrightarrow> ring (bl(x := bl d, d := bl x)) u k = ring bl u k"
proof -
  note b = blocks_okD [OF assms(1)]
  let ?bl = "bl(x := bl d, d := bl x)"
  have "inj_on ?bl {..<BLOCKS_DATA}"
    using b(10) assms(3) b(4) by (auto simp: inj_on_def)
  moreover have "\<forall>k<BLOCKS_DATA. PBA_DATA \<le> ?bl k \<and> ?bl k < BLOCKS_TOTAL"
    using b(11) assms(3) b(4) by auto
  ultimately show "blocks_ok ?bl u e i d a pa"
    using assms b by (simp add: blocks_ok_def)
  fix k assume k: "k < rdist u d"
  let ?w = "if u + k < BLOCKS_DATA then u + k else u + k - BLOCKS_DATA"
  have "k < BLOCKS_DATA" using k rdist_less [of u d] by linarith
  then have w: "?w < BLOCKS_DATA" and "rdist u ?w = k" using b(1) by (auto simp: rdist_eq)
  with k assms(2) have "?w \<noteq> d" "?w \<noteq> x" by auto
  then show "ring ?bl u k = ring bl u k"
    using \<open>k < BLOCKS_DATA\<close> b(1) by (simp add: ring_eq)
qed

end
