(* ===== verification/Chkpt.thy ===== *)
theory Chkpt
  imports FtlInv
begin

text \<open>
  Checkpoints on flash: the table that recovery rebuilds (\<open>stable_l2p\<close>) depends on the
  metadata blocks only, the snapshot survives every change outside the synchronised pages it
  uses (\<open>recoverable_frame\<close>), in particular a power loss (\<open>recoverable_crash\<close>), and the effect
  of appending a delta page and of writing a full checkpoint.
\<close>

section \<open>Dependence on the flash\<close>

lemma delta_page_cong:
  "flash g (j div PAGES_PER_BLOCK) (j mod PAGES_PER_BLOCK) = flash f (j div PAGES_PER_BLOCK) (j mod PAGES_PER_BLOCK)
   \<Longrightarrow> delta_page g j = delta_page f j"
  by (simp add: delta_page_def)

lemma replay_cong:
  "(\<And>j. j < n \<Longrightarrow> delta_page g j = delta_page f j) \<Longrightarrow> replay g n m = replay f n m"
  by (induction n) simp_all

lemma last_commit_cong:
  "(\<And>j. j < n \<Longrightarrow> delta_page g j 0 = delta_page f j 0) \<Longrightarrow> last_commit g n = last_commit f n"
  by (induction n) simp_all

lemma last_commit_le: "last_commit f n \<le> n"
  by (induction n) auto

lemma last_commit_skip:
  assumes "n \<le> m" "\<And>j. n \<le> j \<Longrightarrow> j < m \<Longrightarrow> delta_page f j 0 \<noteq> 0"
  shows "last_commit f m = last_commit f n"
  using assms
proof (induction m)
  case 0
  then show ?case by simp
next
  case (Suc m)
  show ?case
  proof (cases "n = Suc m")
    case False
    then have "n \<le> m" using Suc.prems(1) by simp
    moreover from this have "delta_page f m 0 \<noteq> 0" by (intro Suc.prems(2)) simp_all
    moreover have "last_commit f m = last_commit f n"
      using calculation(1) Suc.prems(2) by (intro Suc.IH) simp_all
    ultimately show ?thesis by simp
  qed simp
qed

lemma commit_point_le: "commit_point f \<le> N_DELTA_PAGES"
  by (simp add: commit_point_def last_commit_le)

lemma delta_block_less: "j < N_DELTA_PAGES \<Longrightarrow> j div PAGES_PER_BLOCK < BLOCKS_DELTA"
  by (simp add: macros)

lemma page_no_eq_iff:
  "(a div PAGES_PER_BLOCK = b div PAGES_PER_BLOCK \<and> a mod PAGES_PER_BLOCK = b mod PAGES_PER_BLOCK) \<longleftrightarrow> a = (b :: nat)"
  by (metis div_mult_mod_eq)

text \<open>Everything that recovery reads before the data sectors is in the blocks below \<open>PBA_DATA\<close>.\<close>

definition same_meta :: "flashemu \<Rightarrow> flashemu \<Rightarrow> bool" where
  "same_meta f g \<longleftrightarrow> (\<forall>b p. b < PBA_DATA \<longrightarrow>
     flash g b p = flash f b p \<and> (synced f b p \<longrightarrow> synced g b p))"

lemma same_meta_simps:
  assumes "same_meta f g"
  shows "\<And>j. j < N_DELTA_PAGES \<Longrightarrow> delta_page g j = delta_page f j"
    and "full_table g k = full_table f k" "full_committed g k = full_committed f k"
    and "chkpt_table g = chkpt_table f"
    and "commit_point g = commit_point f" "stable_l2p g = stable_l2p f"
    and "\<And>n m. n \<le> N_DELTA_PAGES \<Longrightarrow> replay g n m = replay f n m"
proof -
  show dp: "\<And>j. j < N_DELTA_PAGES \<Longrightarrow> delta_page g j = delta_page f j"
    by (rule delta_page_cong) (use assms in \<open>simp add: same_meta_def macros\<close>)
  have ft: "full_table g k = full_table f k" and fc: "full_committed g k = full_committed f k" for k
    using assms by (auto simp: same_meta_def full_table_def full_committed_def full_base_def macros)
  then show "full_table g k = full_table f k" "full_committed g k = full_committed f k" by auto
  show ct: "chkpt_table g = chkpt_table f" by (simp add: chkpt_table_def ft fc)
  show cp: "commit_point g = commit_point f"
    using dp by (simp add: commit_point_def last_commit_cong [of _ g f] macros)
  show rp: "\<And>n m. n \<le> N_DELTA_PAGES \<Longrightarrow> replay g n m = replay f n m"
    by (rule replay_cong) (use dp in auto)
  show "stable_l2p g = stable_l2p f"
    by (simp add: stable_l2p_def ct cp rp commit_point_le)
qed

lemma same_meta_trans: "same_meta f g \<Longrightarrow> same_meta g h \<Longrightarrow> same_meta f h"
  by (simp add: same_meta_def)

lemma same_meta_data:
  "PBA_DATA \<le> b \<Longrightarrow> same_meta f (prog_page b p d sy f)"
  "PBA_DATA \<le> b \<Longrightarrow> same_meta f (erase_blocks b c sy f)"
  "same_meta f (sync_all f)"
  "same_meta f (f\<lparr>nrand := n\<rparr>)"
  by (auto simp: same_meta_def cells)

section \<open>The snapshot survives\<close>

text \<open>A synchronised page that keeps its contents and stays synchronised.\<close>

definition keeps :: "flashemu \<Rightarrow> flashemu \<Rightarrow> nat \<Rightarrow> nat \<Rightarrow> bool" where
  "keeps f g b p \<longleftrightarrow> (synced f b p \<longrightarrow> flash g b p = flash f b p \<and> synced g b p)"

lemma keepsD: "keeps f g b p \<Longrightarrow> synced f b p \<Longrightarrow> flash g b p = flash f b p \<and> synced g b p"
  by (simp add: keeps_def)

definition keeps_meta :: "flashemu \<Rightarrow> flashemu \<Rightarrow> bool" where
  "keeps_meta f g \<longleftrightarrow> (\<forall>b<PBA_DATA. \<forall>p<PAGES_PER_BLOCK. keeps f g b p)"

definition keeps_delta :: "flashemu \<Rightarrow> flashemu \<Rightarrow> bool" where
  "keeps_delta f g \<longleftrightarrow> (\<forall>b<BLOCKS_DELTA. \<forall>p<PAGES_PER_BLOCK. keeps f g b p)"

lemma keeps_meta_delta: "keeps_meta f g \<Longrightarrow> keeps_delta f g"
  by (simp add: keeps_meta_def keeps_delta_def macros)

lemma keeps_deltaD:
  "keeps_delta f g \<Longrightarrow> b < BLOCKS_DELTA \<Longrightarrow> p < PAGES_PER_BLOCK \<Longrightarrow> synced f b p \<Longrightarrow>
     flash g b p = flash f b p \<and> synced g b p"
  by (simp add: keeps_delta_def keeps_def)

lemma keeps_metaD:
  "keeps_meta f g \<Longrightarrow> b < PBA_DATA \<Longrightarrow> p < PAGES_PER_BLOCK \<Longrightarrow> synced f b p \<Longrightarrow>
     flash g b p = flash f b p \<and> synced g b p"
  by (simp add: keeps_meta_def keeps_def)

lemma full_base_less: "full_base k < PBA_DATA" "full_base k + BLOCKS_FULL < PBA_DATA"
  by (simp_all add: full_base_def macros)

lemma full_page_less: "la < N_LAS \<Longrightarrow> la div N_ENTRIES_PER_PAGE < PAGES_PER_BLOCK"
  by (simp add: macros)

lemma zero_page_less: "0 < PAGES_PER_BLOCK" "0 < PBA_DATA" "0 < BLOCKS_DELTA"
  by (simp_all add: macros)

lemma full_frame:
  assumes full: "full_synced f" and keep: "keeps_meta f g"
  shows "full_synced g" and "\<And>la. la < N_LAS \<Longrightarrow> chkpt_table g la = chkpt_table f la"
proof -
  have c: "full_committed g k = full_committed f k" and cs: "synced g (full_base k + BLOCKS_FULL) 0" if "k < 2" for k
    using keeps_metaD [OF keep full_base_less(2) [of k] zero_page_less(1)] full that
    by (simp_all add: full_committed_def full_synced_def)
  have t: "flash g (full_base k) p = flash f (full_base k) p \<and> synced g (full_base k) p"
    if "k < 2" "full_committed f k" "p < PAGES_PER_BLOCK" for k p
    using keeps_metaD [OF keep full_base_less(1) [of k] that(3)] full that by (simp add: full_synced_def)
  have tt: "full_table g k la = full_table f k la" if "k < 2" "full_committed f k" "la < N_LAS" for k la
    using t [OF that(1,2) full_page_less [OF that(3)]] by (simp add: full_table_def)
  have o: "full_committed f 0 \<or> full_committed f 1" using full by (simp add: full_synced_def)
  then show "full_synced g" using c cs t by (simp add: full_synced_def)
  show "chkpt_table g la = chkpt_table f la" if "la < N_LAS" for la
    using o tt [OF _ _ that, of 0] tt [OF _ _ that, of 1] c [of 0] by (auto simp: chkpt_table_def)
qed

lemma delta_frame:
  assumes delta: "delta_synced f" and keep: "keeps_delta f g"
  shows "delta_synced g \<and> commit_point g = commit_point f
    \<and> (\<forall>j<commit_point f. delta_page g j = delta_page f j)"
proof (cases "delta_page f 0 0 = 0 \<or> delta_page f 0 0 = 1")
  case True
  then have ok: "delta_log_ok f" using delta by (simp add: delta_synced_def)
  have dp: "delta_page g j = delta_page f j \<and> synced g (j div PAGES_PER_BLOCK) (j mod PAGES_PER_BLOCK)"
    if "j < N_DELTA_PAGES" for j
  proof -
    have "j div PAGES_PER_BLOCK < BLOCKS_DELTA" "j mod PAGES_PER_BLOCK < PAGES_PER_BLOCK"
      using delta_block_less [OF that] by (simp_all add: macros)
    then show ?thesis
      using keeps_deltaD [OF keep] ok that by (simp add: delta_log_ok_def delta_page_def)
  qed
  have n0: "0 < N_DELTA_PAGES" by (simp add: macros)
  have p0: "delta_page g 0 = delta_page f 0" "synced g 0 0" using dp [OF n0] by simp_all
  have cp: "commit_point g = commit_point f"
    using dp p0 last_commit_cong [of N_DELTA_PAGES g f] by (simp add: commit_point_def)
  have pages: "delta_page g j = delta_page f j" if "j < commit_point f" for j
    using dp [of j] that commit_point_le [of f] by simp
  have "delta_log_ok g"
    using ok dp pages by (simp add: delta_log_ok_def cp)
  then show ?thesis using p0 cp pages by (simp add: delta_synced_def)
next
  case False
  have "flash g 0 0 = flash f 0 0 \<and> synced g 0 0"
    using keeps_deltaD [OF keep zero_page_less(3,1)] delta by (simp add: delta_synced_def)
  then have "delta_page g 0 = delta_page f 0" "synced g 0 0" by (simp_all add: delta_page_def)
  then show ?thesis using False by (simp add: commit_point_def delta_synced_def)
qed

lemma fold_upd_cong:
  "m la = m' la \<Longrightarrow> fold (\<lambda>i m. m(x i := y i)) xs m la = fold (\<lambda>i m. m(x i := y i)) xs m' la"
proof (induction xs arbitrary: m m')
  case (Cons i xs)
  then have "(m(x i := y i)) la = (m'(x i := y i)) la" by simp
  then show ?case unfolding fold_Cons o_apply by (rule Cons.IH)
qed simp

lemma apply_page_cong: "m la = m' la \<Longrightarrow> apply_page pg m la = apply_page pg m' la"
  unfolding apply_page_def by (rule fold_upd_cong)

lemma replay_apply_cong: "m la = m' la \<Longrightarrow> replay f n m la = replay f n m' la"
  by (induction n) (auto intro: apply_page_cong)

lemma used_blocks_cong: "(\<And>la. la < N_LAS \<Longrightarrow> l' la = l la) \<Longrightarrow> used_blocks l' = used_blocks l"
  by (auto simp: used_blocks_def)

lemma table_ok_cong: "(\<And>la. la < N_LAS \<Longrightarrow> l' la = l la) \<Longrightarrow> table_ok l' = table_ok l"
  by (simp add: table_ok_def used_blocks_cong [of l' l])

lemma same_meta_keeps: "same_meta f g \<Longrightarrow> keeps_meta f g"
  by (simp add: same_meta_def keeps_meta_def keeps_def)

text \<open>
  If every synchronised page that is a metadata page or holds a sector of the snapshot keeps its
  contents and stays synchronised, the snapshot is kept.
\<close>

lemma recoverable_frame:
  assumes rec: "recoverable f st"
    and meta: "keeps_meta f g"
    and data: "\<And>la. la < N_LAS \<Longrightarrow> keeps f g (PSA_TO_PBA (stable_l2p f la)) (PSA_TO_IPA (stable_l2p f la))"
  shows "recoverable g st" and "\<And>la. la < N_LAS \<Longrightarrow> stable_l2p g la = stable_l2p f la"
proof -
  have full: "full_synced f" and delta: "delta_synced f"
    and tab: "table_ok (stable_l2p f)" and hold: "holds f (stable_l2p f) st"
    using rec by (simp_all add: recoverable_def)
  note ff = full_frame [OF full meta] and df = delta_frame [OF delta keeps_meta_delta [OF meta]]
  show sl: "stable_l2p g la = stable_l2p f la" if "la < N_LAS" for la
    using df replay_apply_cong [of "chkpt_table g" la "chkpt_table f" f "commit_point f", OF ff(2) [OF that]]
    by (simp add: stable_l2p_def replay_cong [of "commit_point f" g f])
  have "holds g (stable_l2p g) st"
    using hold keepsD [OF data] by (simp add: holds_def sl sector_def)
  then show "recoverable g st"
    using ff(1) df tab sl by (simp add: recoverable_def table_ok_cong [of "stable_l2p g" "stable_l2p f"])
qed

lemma keeps_crashed: "crashed f g \<Longrightarrow> keeps f g b p"
  by (simp add: crashed_def keeps_def)

lemma recoverable_crash: "recoverable f st \<Longrightarrow> crashed f g \<Longrightarrow> recoverable g st"
  by (rule recoverable_frame) (auto simp: keeps_meta_def intro: keeps_crashed)

lemma env_ok_crash: "env_ok f \<Longrightarrow> crashed f g \<Longrightarrow> env_ok g"
  by (simp add: env_ok_def crashed_def)

lemma env_ok_guard: "env_ok f \<Longrightarrow> crash_sim f \<longrightarrow> crash_ratio f \<noteq> 0"
  by (simp add: env_ok_def)

lemma crash_inv_crash: "crash_inv s st \<Longrightarrow> crashed (fl s) g \<Longrightarrow> crash_inv (s\<lparr>fl := g\<rparr>) st"
  by (auto simp: crash_inv_def intro: recoverable_crash env_ok_crash)

section \<open>Delta pages as partial maps\<close>

text \<open>A delta page overwrites an entry with a fixed value or leaves it.\<close>

lemma fold_upd_override:
  "(\<exists>v. \<forall>m. fold (\<lambda>i m. m(x i := y i)) xs m la = v) \<or> (\<forall>m. fold (\<lambda>i m. m(x i := y i)) xs m la = m la)"
proof (induction xs rule: rev_induct)
  case (snoc i xs)
  then show ?case by (cases "la = x i") auto
qed simp

lemma apply_page_override:
  "(\<exists>v. \<forall>m. apply_page pg m la = v) \<or> (\<forall>m. apply_page pg m la = m la)"
  unfolding apply_page_def by (rule fold_upd_override)

lemma replay_override:
  "(\<exists>v. \<forall>m. replay f n m la = v) \<or> (\<forall>m. replay f n m la = m la)"
proof (induction n)
  case (Suc n)
  then show ?case using apply_page_override [of "delta_page f n" la] by auto
qed simp

text \<open>Replaying the log over a table it was already applied to changes nothing.\<close>

lemma replay_idem: "m' la = replay f n m la \<Longrightarrow> replay f n m' la = replay f n m la"
  using replay_override [of f n la] by auto

lemma apply_page_flag [simp]: "apply_page (pg(0 := v)) m = apply_page pg m"
  by (simp add: apply_page_def macros)

lemma fold_upd_other: "(\<And>i. i \<in> set xs \<Longrightarrow> x i \<noteq> la) \<Longrightarrow> fold (\<lambda>i m. m(x i := y i)) xs m la = m la"
proof (induction xs arbitrary: m)
  case (Cons i xs)
  then have "fold (\<lambda>i m. m(x i := y i)) xs (m(x i := y i)) la = (m(x i := y i)) la"
    by (intro Cons.IH) simp
  moreover have "(m(x i := y i)) la = m la" using Cons.prems [of i] by auto
  ultimately show ?case unfolding fold_Cons o_apply by (rule trans)
qed simp

lemma apply_page_prefix:
  assumes "n \<le> N_DELTA_PAIR" "\<And>i. n \<le> i \<Longrightarrow> i < N_DELTA_PAIR \<Longrightarrow> pg (i + OFFSET_LAS) = N_LAS" "la < N_LAS"
  shows "apply_page pg m la = fold (\<lambda>i m. m(pg (i + OFFSET_LAS) := pg (i + OFFSET_PAS))) [0..<n] m la"
proof -
  have "[0..<N_DELTA_PAIR] = [0..<n] @ [n..<N_DELTA_PAIR]"
    using upt_add_eq_append [of 0 n "N_DELTA_PAIR - n"] assms(1) by simp
  then show ?thesis
    using assms(2,3) by (simp only: apply_page_def fold_append o_apply) (rule fold_upd_other, auto)
qed

lemma apply_page_empty:
  assumes "\<And>i. i < N_DELTA_PAIR \<Longrightarrow> pg (i + OFFSET_LAS) = N_LAS" "la < N_LAS"
  shows "apply_page pg m la = m la"
  using apply_page_prefix [of 0 pg la m] assms by simp

lemma apply_page_append:
  assumes "delta_buf_ok db n" "n < N_DELTA_PAIR" "la < N_LAS"
  shows "apply_page (db(n + OFFSET_LAS := a, n + OFFSET_PAS := b)) m la
    = ((apply_page db m)(a := b)) la" (is "apply_page ?db m la = _")
proof -
  have db: "db (i + OFFSET_LAS) = N_LAS" if "n \<le> i" "i < N_DELTA_PAIR" for i
    using assms(1) that by (simp add: delta_buf_ok_def)
  have "apply_page ?db m la = fold (\<lambda>i m. m(?db (i + OFFSET_LAS) := ?db (i + OFFSET_PAS))) [0..<Suc n] m la"
    using assms(2,3) db by (intro apply_page_prefix) (auto simp: macros)
  moreover have "fold (\<lambda>i m. m(?db (i + OFFSET_LAS) := ?db (i + OFFSET_PAS))) [0..<n] m
      = fold (\<lambda>i m. m(db (i + OFFSET_LAS) := db (i + OFFSET_PAS))) [0..<n] m"
    using assms(2) by (intro fold_cong) (auto simp: macros)
  moreover have "apply_page db m la = fold (\<lambda>i m. m(db (i + OFFSET_LAS) := db (i + OFFSET_PAS))) [0..<n] m la"
    using assms(2,3) db by (intro apply_page_prefix) (auto simp: macros)
  ultimately show ?thesis by (simp add: macros)
qed

section \<open>Appending a delta page\<close>

lemma delta_page_prog:
  assumes "j div PAGES_PER_BLOCK = b" "j mod PAGES_PER_BLOCK = p"
  shows "delta_page (prog_page b p d sy f) i = (if i = j then d else delta_page f i)"
  using assms page_no_eq_iff [of i j] by (auto simp: delta_page_def cells)

lemma delta_page_prog_other:
  assumes "BLOCKS_DELTA \<le> b" "j < N_DELTA_PAGES"
  shows "delta_page (prog_page b p d sy f) j = delta_page f j"
  using delta_block_less [OF assms(2)] assms(1) by (auto simp: delta_page_def cells)

lemma delta_ok_wrap: "delta_ok f pd PAGES_PER_BLOCK \<Longrightarrow> delta_ok f (Suc pd) 0"
  by (simp add: delta_ok_def delta_count_def algebra_simps)

lemma delta_ok_count:
  assumes "delta_ok f pd ip" "ip < PAGES_PER_BLOCK"
  shows "delta_count pd ip div PAGES_PER_BLOCK = pd" "delta_count pd ip mod PAGES_PER_BLOCK = ip"
  using assms(2) by (simp_all add: delta_count_def)

lemma delta_ok_erased:
  assumes "delta_ok f pd ip" "delta_count pd ip \<le> j" "j < N_DELTA_PAGES"
  shows "delta_page f j 0 \<noteq> 0"
proof -
  have "flash f (j div PAGES_PER_BLOCK) (j mod PAGES_PER_BLOCK) = None"
    using assms by (auto simp: delta_ok_def)
  then show ?thesis by (simp add: delta_page_def)
qed

lemma delta_ok_commit:
  assumes "delta_ok f pd ip"
  shows "commit_point f = last_commit f (delta_count pd ip)"
proof -
  have "last_commit f N_DELTA_PAGES = last_commit f (delta_count pd ip)"
  proof (rule last_commit_skip)
    show "delta_count pd ip \<le> N_DELTA_PAGES" using assms by (simp add: delta_ok_def)
  qed (rule delta_ok_erased [OF assms])
  then show ?thesis using assms by (simp add: commit_point_def delta_ok_def)
qed

lemma delta_ok_commit_le: "delta_ok f pd ip \<Longrightarrow> commit_point f \<le> delta_count pd ip"
  by (simp add: delta_ok_commit last_commit_le)

lemma delta_append:
  assumes ok: "delta_ok f pd ip" and ip: "ip < PAGES_PER_BLOCK" and n: "delta_count pd ip < N_DELTA_PAGES"
    and d: "\<And>i. i < N_DELTA_PAIR \<Longrightarrow> d (i + OFFSET_LAS) \<le> N_LAS"
  defines "g \<equiv> prog_page pd ip d True f"
  shows "delta_ok g pd (Suc ip)"
    and "\<And>m. m \<le> delta_count pd ip \<Longrightarrow> replay g m = replay f m"
    and "commit_point g = (if d 0 = 0 then Suc (delta_count pd ip) else commit_point f)"
proof -
  note no = delta_ok_count [OF ok ip]
  let ?n = "delta_count pd ip"
  have pg: "delta_page g j = (if j = ?n then d else delta_page f j)" for j
    unfolding g_def by (rule delta_page_prog [OF no])
  have cell: "(flash g (j div PAGES_PER_BLOCK) (j mod PAGES_PER_BLOCK) = None \<longleftrightarrow> Suc ?n \<le> j)
      \<and> synced g (j div PAGES_PER_BLOCK) (j mod PAGES_PER_BLOCK)" if "j < N_DELTA_PAGES" for j
    using ok that page_no_eq_iff [of j ?n] no unfolding g_def delta_ok_def by (auto simp: cells)
  have pos: "1 \<le> ?n" using ok by (simp add: delta_ok_def)
  then have pg0: "delta_page g 0 = delta_page f 0" by (simp add: pg)
  have "delta_count pd (Suc ip) = Suc ?n" by (simp add: delta_count_def)
  then show ok': "delta_ok g pd (Suc ip)"
    using ok cell n ip d by (simp add: delta_ok_def pg0) (auto simp: pg less_Suc_eq)
  show "\<And>m. m \<le> ?n \<Longrightarrow> replay g m = replay f m"
    by (rule ext) (rule replay_cong, simp add: pg)
  have "last_commit g ?n = last_commit f ?n" using pg by (intro last_commit_cong) simp
  then show "commit_point g = (if d 0 = 0 then Suc ?n else commit_point f)"
    using delta_ok_commit [OF ok] delta_ok_commit [OF ok'] pg by (simp add: delta_count_def)
qed

text \<open>Metadata outside the delta region.\<close>

lemma full_prog_delta:
  assumes "b < BLOCKS_DELTA"
  shows "chkpt_table (prog_page b p d sy f) = chkpt_table f"
    "full_synced (prog_page b p d sy f) = full_synced f"
    "full_ok (prog_page b p d sy f) k = full_ok f k"
proof -
  have "full_base k \<noteq> b" "full_base k + BLOCKS_FULL \<noteq> b" for k
    using assms by (simp_all add: full_base_def macros)
  then have "flash (prog_page b p d sy f) (full_base k) q = flash f (full_base k) q"
    "flash (prog_page b p d sy f) (full_base k + BLOCKS_FULL) q = flash f (full_base k + BLOCKS_FULL) q"
    "synced (prog_page b p d sy f) (full_base k) q = synced f (full_base k) q"
    "synced (prog_page b p d sy f) (full_base k + BLOCKS_FULL) q = synced f (full_base k + BLOCKS_FULL) q" for k q
    by (simp_all add: cells)
  note c = this
  have t: "full_table (prog_page b p d sy f) = full_table f"
    "full_committed (prog_page b p d sy f) = full_committed f"
    by (intro ext, simp add: full_table_def full_committed_def c)+
  then show "chkpt_table (prog_page b p d sy f) = chkpt_table f" by (simp add: chkpt_table_def)
  show "full_synced (prog_page b p d sy f) = full_synced f"
    "full_ok (prog_page b p d sy f) k = full_ok f k"
    by (simp_all add: full_synced_def full_ok_def t c)
qed

lemma delta_ok_synced: "delta_ok f pd ip \<Longrightarrow> delta_synced f"
  using delta_ok_commit_le [of f pd ip]
  by (auto simp: delta_synced_def delta_log_ok_def delta_ok_def dest: spec [of _ 0])

section \<open>The crash oracle is irrelevant\<close>

text \<open>The random number counter changes at every synchronous command; nothing depends on it.\<close>

lemma nrand_push [simp]:
  "prog_page b p d sy (f\<lparr>nrand := n\<rparr>) = (prog_page b p d sy f)\<lparr>nrand := n\<rparr>"
  "erase_blocks b c sy (f\<lparr>nrand := n\<rparr>) = (erase_blocks b c sy f)\<lparr>nrand := n\<rparr>"
  "prog_block b data (f\<lparr>nrand := n\<rparr>) = (prog_block b data f)\<lparr>nrand := n\<rparr>"
  "sync_all (f\<lparr>nrand := n\<rparr>) = (sync_all f)\<lparr>nrand := n\<rparr>"
  by (simp_all add: prog_page_def erase_blocks_def prog_block_def sync_all_def)

lemma nrand_crashed [simp]: "crashed (f\<lparr>nrand := n\<rparr>) g = crashed f g"
  by (simp add: crashed_def)

lemma nrand_pages [simp]:
  "delta_page (f\<lparr>nrand := n\<rparr>) = delta_page f"
  "full_table (f\<lparr>nrand := n\<rparr>) = full_table f"
  "full_committed (f\<lparr>nrand := n\<rparr>) = full_committed f"
  "sector (f\<lparr>nrand := n\<rparr>) = sector f"
  by (auto simp: fun_eq_iff delta_page_def full_table_def full_committed_def sector_def)

lemma nrand_log [simp]:
  "replay (f\<lparr>nrand := n\<rparr>) k m = replay f k m"
  "last_commit (f\<lparr>nrand := n\<rparr>) k = last_commit f k"
  by (induction k) simp_all

lemma nrand_tables [simp]:
  "chkpt_table (f\<lparr>nrand := n\<rparr>) = chkpt_table f"
  "commit_point (f\<lparr>nrand := n\<rparr>) = commit_point f"
  "stable_l2p (f\<lparr>nrand := n\<rparr>) = stable_l2p f"
  by (auto simp: fun_eq_iff chkpt_table_def commit_point_def stable_l2p_def)

lemma nrand_preds [simp]:
  "full_synced (f\<lparr>nrand := n\<rparr>) = full_synced f"
  "delta_log_ok (f\<lparr>nrand := n\<rparr>) = delta_log_ok f"
  "delta_synced (f\<lparr>nrand := n\<rparr>) = delta_synced f"
  "holds (f\<lparr>nrand := n\<rparr>) l st = holds f l st"
  "recoverable (f\<lparr>nrand := n\<rparr>) st = recoverable f st"
  "delta_ok (f\<lparr>nrand := n\<rparr>) pd ip = delta_ok f pd ip"
  "full_ok (f\<lparr>nrand := n\<rparr>) pf = full_ok f pf"
  "logged l db (f\<lparr>nrand := n\<rparr>) k = logged l db f k"
  "stable_free (f\<lparr>nrand := n\<rparr>) bl u i = stable_free f bl u i"
  "env_ok (f\<lparr>nrand := n\<rparr>) = env_ok f"
  by (simp_all add: full_synced_def delta_log_ok_def delta_synced_def holds_def recoverable_def
      delta_ok_def full_ok_def logged_def stable_free_def env_ok_def)

lemma nrand_chkpt_ok [simp]:
  "chkpt_ok (f\<lparr>nrand := k\<rparr>) pd ip db n pf l st = chkpt_ok f pd ip db n pf l st"
  by (simp add: chkpt_ok_def)

section \<open>Changes of the data region\<close>

text \<open>
  A change of the flash that keeps the metadata and the synchronised pages of the snapshot keeps the
  checkpoint invariant.
\<close>

lemma chkpt_ok_data:
  assumes ok: "chkpt_ok f pd ip db n pf l st" and meta: "same_meta f g" and env: "env_ok g"
    and data: "\<And>la. la < N_LAS \<Longrightarrow> keeps f g (PSA_TO_PBA (stable_l2p f la)) (PSA_TO_IPA (stable_l2p f la))"
  shows "chkpt_ok g pd ip db n pf l st"
proof -
  note m = same_meta_simps [OF meta]
  have d: "delta_ok f pd ip" and rec: "recoverable f st" and full: "full_ok f pf"
    and log: "logged l db f (delta_count pd ip)"
    using ok by (simp_all add: chkpt_ok_def)
  have n: "delta_count pd ip \<le> N_DELTA_PAGES" using d by (simp add: delta_ok_def)
  have cell: "flash g b p = flash f b p" "synced f b p \<Longrightarrow> synced g b p" if "b < PBA_DATA" for b p
    using meta that by (auto simp: same_meta_def)
  have dcell: "flash g (j div PAGES_PER_BLOCK) p = flash f (j div PAGES_PER_BLOCK) p"
    "synced f (j div PAGES_PER_BLOCK) p \<Longrightarrow> synced g (j div PAGES_PER_BLOCK) p"
    if "j < N_DELTA_PAGES" for j p
    using delta_block_less [OF that] by (auto intro!: cell simp: macros)
  have n0: "0 < N_DELTA_PAGES" by (simp add: macros)
  have pg: "delta_page g j = delta_page f j" if "j < delta_count pd ip" for j
    using m(1) that n by simp
  have "delta_ok g pd ip"
    using d dcell pg m(1) [OF n0] by (simp add: delta_ok_def)
  moreover have "full_ok g pf"
    using full m(3) cell(1) full_base_less [of pf] by (simp add: full_ok_def)
  moreover have "logged l db g (delta_count pd ip)"
    using log m(4) m(7) [OF n] by (simp add: logged_def)
  moreover have "recoverable g st"
    by (rule recoverable_frame(1) [OF rec same_meta_keeps [OF meta] data])
  ultimately show ?thesis using ok env by (simp add: chkpt_ok_def)
qed

lemma stable_free_meta: "same_meta f g \<Longrightarrow> stable_free g bl u i = stable_free f bl u i"
  by (simp add: stable_free_def same_meta_simps)

section \<open>A delta page from the delta buffer\<close>

definition cleared :: "(nat \<Rightarrow> nat) \<Rightarrow> nat \<Rightarrow> nat" where
  "cleared db i = (if OFFSET_LAS \<le> i \<and> i < OFFSET_LAS + N_DELTA_PAIR then N_LAS else db i)"

lemma cleared_ok: "delta_buf_ok (cleared db) 0"
  by (simp add: delta_buf_ok_def cleared_def macros)

lemma apply_page_cleared: "la < N_LAS \<Longrightarrow> apply_page (cleared db) m la = m la"
  by (rule apply_page_empty) (simp_all add: cleared_def macros)

text \<open>The flash after the delta buffer was written with the given flag as the page after the last one.\<close>

definition put_delta :: "nat \<Rightarrow> (nat \<Rightarrow> nat) \<Rightarrow> nat \<Rightarrow> flashemu \<Rightarrow> flashemu" where
  "put_delta nd db flag f = prog_page (nd div PAGES_PER_BLOCK) (nd mod PAGES_PER_BLOCK) (db(0 := flag)) True f"

lemma put_delta_cells:
  "flash (put_delta nd db flag f) b p = (if b = nd div PAGES_PER_BLOCK \<and> p = nd mod PAGES_PER_BLOCK
     then Some (db(0 := flag)) else flash f b p)"
  "synced (put_delta nd db flag f) b p \<longleftrightarrow> b = nd div PAGES_PER_BLOCK \<and> p = nd mod PAGES_PER_BLOCK \<or> synced f b p"
  by (auto simp: put_delta_def cells)

lemma put_delta_data:
  assumes "nd < N_DELTA_PAGES" "BLOCKS_DELTA \<le> b"
  shows "flash (put_delta nd db flag f) b p = flash f b p" "synced (put_delta nd db flag f) b p = synced f b p"
  using delta_block_less [OF assms(1)] assms(2) by (auto simp: put_delta_cells)

lemma put_delta_ok:
  assumes ok: "chkpt_ok f pd ip db n pf l st" and nd: "nd = delta_count pd ip" "nd < N_DELTA_PAGES"
  shows "delta_ok (put_delta nd db flag f) (nd div PAGES_PER_BLOCK) (Suc (nd mod PAGES_PER_BLOCK))"
    and "full_ok (put_delta nd db flag f) pf" and "full_synced (put_delta nd db flag f)"
    and "env_ok (put_delta nd db flag f)"
    and "\<And>m. m \<le> nd \<Longrightarrow> replay (put_delta nd db flag f) m = replay f m"
    and "commit_point (put_delta nd db flag f) = (if flag = 0 then Suc nd else commit_point f)"
    and "chkpt_table (put_delta nd db flag f) = chkpt_table f"
    and "delta_page (put_delta nd db flag f) nd = db(0 := flag)"
    and "logged l (cleared db') (put_delta nd db flag f) (Suc nd)"
proof -
  have d: "delta_ok f pd ip" and b: "delta_buf_ok db n" and full: "full_ok f pf" "full_synced f"
    and log: "logged l db f nd" and env: "env_ok f"
    using ok by (simp_all add: chkpt_ok_def recoverable_def nd(1))
  let ?P = PAGES_PER_BLOCK
  have cnt: "delta_count (nd div ?P) (nd mod ?P) = nd" by (simp add: delta_count_def)
  have lt: "nd mod ?P < ?P" "nd div ?P < BLOCKS_DELTA" using nd(2) by (simp_all add: macros)
  have d': "delta_ok f (nd div ?P) (nd mod ?P)" using d lt by (simp add: delta_ok_def cnt flip: nd(1))
  have las: "(db(0 := flag)) (i + OFFSET_LAS) \<le> N_LAS" if "i < N_DELTA_PAIR" for i
    using b that by (simp add: delta_buf_ok_def macros)
  note app = delta_append [where d = "db(0 := flag)", OF d' lt(1), unfolded cnt, OF nd(2) las, folded put_delta_def]
  show "delta_ok (put_delta nd db flag f) (nd div ?P) (Suc (nd mod ?P))" by (rule app(1))
  show rep: "\<And>m. m \<le> nd \<Longrightarrow> replay (put_delta nd db flag f) m = replay f m" by (rule app(2))
  show "commit_point (put_delta nd db flag f) = (if flag = 0 then Suc nd else commit_point f)"
    using app(3) by simp
  show tab: "chkpt_table (put_delta nd db flag f) = chkpt_table f"
    and "full_ok (put_delta nd db flag f) pf" and "full_synced (put_delta nd db flag f)"
    using full by (simp_all add: put_delta_def full_prog_delta [OF lt(2)])
  show pg: "delta_page (put_delta nd db flag f) nd = db(0 := flag)"
    unfolding put_delta_def by (subst delta_page_prog [OF refl refl]) simp
  have "replay (put_delta nd db flag f) (Suc nd) (chkpt_table f) = apply_page db (replay f nd (chkpt_table f))"
    using rep [of nd] by (simp add: pg)
  then show "logged l (cleared db') (put_delta nd db flag f) (Suc nd)"
    using log by (simp del: replay.simps add: logged_def apply_page_cleared tab)
  have cell: "flash f (j div ?P) (j mod ?P) = None \<longleftrightarrow> nd \<le> j" if "j < N_DELTA_PAGES" for j
    using d that by (simp add: delta_ok_def nd(1))
  have "flash f (nd div ?P) q \<noteq> None" if "q < nd mod ?P" for q
  proof -
    let ?j = "nd div ?P * ?P + q"
    have "?j < nd" using that by (metis add_less_cancel_left div_mult_mod_eq)
    moreover have "q < ?P" using that lt(1) by linarith
    then have "?j div ?P = nd div ?P" "?j mod ?P = q" by simp_all
    ultimately show ?thesis using cell [of ?j] nd(2) by simp
  qed
  then show "env_ok (put_delta nd db flag f)"
    using env cell [OF nd(2)] by (simp add: env_ok_def put_delta_def cells)
qed

text \<open>A tentative page does not change the snapshot.\<close>

lemma chkpt_ok_tentative:
  assumes ok: "chkpt_ok f pd ip db n pf l st" and nd: "nd = delta_count pd ip" "nd < N_DELTA_PAGES"
    and flag: "flag \<noteq> 0"
  shows "chkpt_ok (put_delta nd db flag f) (nd div PAGES_PER_BLOCK) (Suc (nd mod PAGES_PER_BLOCK))
      (cleared (db(0 := flag))) 0 pf l st"
    and "stable_l2p (put_delta nd db flag f) = stable_l2p f"
proof -
  let ?g = "put_delta nd db flag f"
  note P = put_delta_ok [OF ok nd]
  have d: "delta_ok f pd ip" and rec: "recoverable f st" using ok by (simp_all add: chkpt_ok_def)
  have le: "commit_point f \<le> nd" using delta_ok_commit_le [OF d] nd(1) by simp
  show st: "stable_l2p ?g = stable_l2p f"
    using le flag by (simp add: stable_l2p_def P(5) P(6) P(7))
  have tab: "table_ok (stable_l2p f)" and hold: "holds f (stable_l2p f) st"
    using rec by (simp_all add: recoverable_def)
  have pba: "BLOCKS_DELTA \<le> PSA_TO_PBA (stable_l2p f la)" if "la < N_LAS" for la
    using tab that by (auto simp: table_ok_def PSA_TO_PBA_def macros dest!: spec [of _ la])
  have "holds ?g (stable_l2p f) st"
    using hold pba nd(2) by (simp add: holds_def sector_def put_delta_data)
  then have "recoverable ?g st"
    using tab P(3) delta_ok_synced [OF P(1)] by (simp add: recoverable_def st)
  moreover have "delta_count (nd div PAGES_PER_BLOCK) (Suc (nd mod PAGES_PER_BLOCK)) = Suc nd"
    by (simp add: delta_count_def)
  ultimately show "chkpt_ok ?g (nd div PAGES_PER_BLOCK) (Suc (nd mod PAGES_PER_BLOCK))
      (cleared (db(0 := flag))) 0 pf l st"
    using P(1,2,4,9) by (simp add: chkpt_ok_def cleared_ok)
qed

text \<open>A committed page makes the current table the snapshot.\<close>

lemma chkpt_ok_commit:
  assumes ok: "chkpt_ok f pd ip db n pf l st" and nd: "nd = delta_count pd ip" "nd < N_DELTA_PAGES"
    and tab: "table_ok l" and hold: "holds f l vol"
  shows "chkpt_ok (put_delta nd db 0 f) (nd div PAGES_PER_BLOCK) (Suc (nd mod PAGES_PER_BLOCK))
      (cleared (db(0 := 0))) 0 pf l vol"
    and "\<And>la. la < N_LAS \<Longrightarrow> stable_l2p (put_delta nd db 0 f) la = l la"
proof -
  let ?g = "put_delta nd db 0 f"
  note P = put_delta_ok [OF ok nd, where flag = 0]
  have log: "logged l db f nd" using ok by (simp add: chkpt_ok_def nd(1))
  show st: "stable_l2p ?g la = l la" if "la < N_LAS" for la
    using log that by (simp add: stable_l2p_def P(5) P(6) P(7) P(8) logged_def)
  have pba: "BLOCKS_DELTA \<le> PSA_TO_PBA (l la)" if "la < N_LAS" for la
    using tab that by (auto simp: table_ok_def PSA_TO_PBA_def macros dest!: spec [of _ la])
  have "holds ?g (stable_l2p ?g) vol"
    using hold pba nd(2) by (simp add: holds_def sector_def put_delta_data st)
  then have "recoverable ?g vol"
    using tab P(3) delta_ok_synced [OF P(1)] by (simp add: recoverable_def table_ok_cong [OF st])
  moreover have "delta_count (nd div PAGES_PER_BLOCK) (Suc (nd mod PAGES_PER_BLOCK)) = Suc nd"
    by (simp add: delta_count_def)
  ultimately show "chkpt_ok ?g (nd div PAGES_PER_BLOCK) (Suc (nd mod PAGES_PER_BLOCK))
      (cleared (db(0 := 0))) 0 pf l vol"
    using P(1,2,4,9) by (simp add: chkpt_ok_def cleared_ok)
qed

text \<open>Appending a pair to the delta buffer.\<close>

lemma chkpt_ok_append:
  assumes ok: "chkpt_ok f pd ip db n pf l st" and n: "n < N_DELTA_PAIR" and la: "la < N_LAS"
  shows "chkpt_ok f pd ip (db(n + OFFSET_LAS := la, n + OFFSET_PAS := pa)) (Suc n) pf (l(la := pa)) st"
proof -
  have b: "delta_buf_ok db n" and log: "logged l db f (delta_count pd ip)"
    using ok by (simp_all add: chkpt_ok_def)
  have "delta_buf_ok (db(n + OFFSET_LAS := la, n + OFFSET_PAS := pa)) (Suc n)"
    using b n la by (auto simp: delta_buf_ok_def macros)
  moreover have "logged (l(la := pa)) (db(n + OFFSET_LAS := la, n + OFFSET_PAS := pa)) f (delta_count pd ip)"
    unfolding logged_def using log apply_page_append [OF b n] by (simp add: logged_def)
  ultimately show ?thesis using ok by (simp add: chkpt_ok_def)
qed

end
