(* ===== verification/FtlSteps.thy ===== *)
theory FtlSteps
  imports BlockList Chkpt
begin

text \<open>
  The steps that the host operations and the garbage collector of \<^verbatim>\<open>src/ftl.c\<close> share:
  erasing a block, writing out the merge buffer, moving a logical sector to the head of the log, writing
  a delta page and appending to the delta buffer. Each keeps the invariant.
\<close>

lemmas base_inv_defs = base_inv_def ram_inv_def chkpt_inv_def
lemmas ftl_inv_defs = ftl_inv_def base_inv_defs

text \<open>The variables that block management leaves alone.\<close>

definition kept :: "ftl \<Rightarrow> ftl \<Rightarrow> bool" where
  "kept s t \<longleftrightarrow> l2p t = l2p s \<and> used t = used s \<and> invalid t = invalid s \<and> wcnt t = wcnt s \<and> gcprog t = gcprog s
     \<and> enable_gc t = enable_gc s \<and> pba_gc t = pba_gc s \<and> ipa_gc t = ipa_gc s \<and> isa_gc t = isa_gc s
     \<and> lsa_gc t = lsa_gc s \<and> buf_gc t = buf_gc s"

lemma kept_refl: "kept s s"
  by (simp add: kept_def)

lemma kept_trans: "kept s t \<Longrightarrow> kept t u \<Longrightarrow> kept s u"
  by (simp add: kept_def)

section \<open>Consequences of the invariant\<close>

lemma ftl_invD:
  assumes "ftl_inv s vol st"
  shows "blocks_ok (blk_list s) (usable s) (erasable s) (invalid s) (used s) (active s) (pba_active s)"
    "map_ok (l2p s) (p2l s)" "free_ok (l2p s) (blk_list s) (usable s) (used s)"
    "pages_ok (flash (fl s)) (blk_list s) (usable s) (erasable s) (pba_active s) (ipa_active s)"
    "merge_ok (lsas_merge s) (isa_active s) (l2p s) (mk_psa (pba_active s) (ipa_active s) 0)"
    "stored_ok (l2p s) (lsas_merge s) (flash (fl s))"
    "ipa_active s < PAGES_PER_BLOCK" "space_inv s" "same_view (view s) vol"
    "chkpt_ok (fl s) (pba_delta s) (ipa_delta s) (delta_buf s) (ptr_delta_buf s) (ptr_full s) (l2p s) st"
    "stable_free (fl s) (blk_list s) (usable s) (invalid s)"
    "recoverable (fl s) st" "env_ok (fl s)"
  using assms by (simp_all add: ftl_inv_defs chkpt_ok_def)

lemma ftl_inv_crash_inv: "ftl_inv s vol st \<Longrightarrow> crash_inv s st"
  by (simp add: crash_inv_def ftl_invD)

lemma space_ready:
  assumes "space_inv s"
  shows "0 < rdist (usable s) (invalid s)"
  using assms by (cases "rdist (usable s) (invalid s)") (auto simp: space_inv_def avail_sectors_def macros)

section \<open>Erasing a block\<close>

lemma wp_make_one_erasable_block_free:
  assumes inv: "ftl_inv s vol st" and lt: "rdist (usable s) (erasable s) < rdist (usable s) (invalid s)"
  shows "wp make_one_erasable_block_free
    (\<lambda>t. ftl_inv t vol st \<and> kept s t \<and> usable t = usable s
       \<and> rdist (usable t) (erasable t) = Suc (rdist (usable s) (erasable s))) C s"
proof -
  note I = ftl_invD [OF inv]
  note b = blocks_okD [OF I(1)]
  let ?u = "usable s" and ?e = "erasable s" and ?bl = "blk_list s" and ?l = "l2p s"
  let ?b = "?bl ?e" let ?f = "erase_blocks ?b (Suc ?b) False (fl s)"
  let ?t = "s\<lparr>fl := ?f, erasable := BLK_LIST_NEXT ?e\<rparr>"
  have ring: "?b = ring ?bl ?u (rdist ?u ?e)" using b by simp
  have lt': "rdist ?u ?e < rdist ?u (used s)" "rdist ?u ?e < BLOCKS_DATA - 1"
    using lt b(8) rdist_less [of ?u "used s"] by linarith+
  have bd: "PBA_DATA \<le> ?b" "?b < BLOCKS_TOTAL" using b by simp_all
  have nl: "PSA_TO_PBA (?l la) \<noteq> ?b" if "la < N_LAS" for la
    using I(3) lt'(1) that ring unfolding free_ok_def by metis
  have ns: "PSA_TO_PBA (stable_l2p (fl s) la) \<noteq> ?b" if "la < N_LAS" for la
    using I(11) lt that ring unfolding stable_free_def by metis
  have cell: "flash ?f c p = flash (fl s) c p" "synced ?f c p = synced (fl s) c p" if "c \<noteq> ?b" for c p
    using that by (auto simp: cells)
  have na: "pba_active s \<noteq> ?b" using ring_neq_active [OF I(1) lt'(2)] ring by simp
  have env: "env_ok ?f" using I(13) by (simp add: env_ok_def cells)
  have chk: "chkpt_ok ?f (pba_delta s) (ipa_delta s) (delta_buf s) (ptr_delta_buf s) (ptr_full s) ?l st"
    using bd ns by (intro chkpt_ok_data [OF I(10) _ env]) (auto simp: same_meta_data keeps_def cell)
  have sf: "stable_free ?f ?bl ?u (invalid s)"
    using I(11) bd by (simp add: stable_free_meta [of "fl s"] same_meta_data)
  note blk = blocks_ok_erase [OF I(1) lt]
  have pages: "pages_ok (flash ?f) ?bl ?u (BLK_LIST_NEXT ?e) (pba_active s) (ipa_active s)"
  proof -
    have "flash ?f (ring ?bl ?u k) p = None" if "k < Suc (rdist ?u ?e)" "p < PAGES_PER_BLOCK" for k p
      using I(4) that by (cases "k = rdist ?u ?e") (auto simp: ring [symmetric] pages_ok_def cells)
    then show ?thesis using I(4) cell(1) [OF na] by (simp add: pages_ok_def blk(2))
  qed
  have stored: "stored_ok ?l (lsas_merge s) (flash ?f)"
    using I(6) nl cell(1) by (simp add: stored_ok_def)
  have "view ?t la o' = view s la o'" if "la < N_LAS" for la o'
    using nl [OF that] cell(1) by (simp add: view_def sector_def)
  then have "same_view (view ?t) vol" using I(9) by (simp add: same_view_def)
  then have "ftl_inv ?t vol st"
    using inv blk(1) pages stored chk sf
    by (simp add: ftl_inv_defs space_inv_def avail_sectors_def active_psa_def victim_psa_def)
  then show ?thesis
    using b(2) bd blk(2) by (simp add: make_one_erasable_block_free_def wp_simps kept_def macros)
qed

lemma wp_make_one_erasable_block_free_when_free_blklist_empty:
  assumes inv: "ftl_inv s vol st"
  shows "wp make_one_erasable_block_free_when_free_blklist_empty
    (\<lambda>t. ftl_inv t vol st \<and> kept s t \<and> usable t = usable s \<and> 0 < rdist (usable t) (erasable t)) C s"
proof (cases "usable s = erasable s")
  case True
  note I = ftl_invD [OF inv]
  have lt: "rdist (usable s) (erasable s) < rdist (usable s) (invalid s)"
    using space_ready [OF I(8)] True blocks_okD(1) [OF I(1)] by simp
  have "wp make_one_erasable_block_free
    (\<lambda>t. ftl_inv t vol st \<and> kept s t \<and> usable t = usable s \<and> 0 < rdist (usable t) (erasable t)) C s"
    by (rule wp_mono [OF wp_make_one_erasable_block_free [OF inv lt]]) auto
  then show ?thesis
    using True by (simp add: make_one_erasable_block_free_when_free_blklist_empty_def wp_simps
        free_blklist_empty_def)
next
  case False
  note b = blocks_okD [OF ftl_invD(1) [OF inv]]
  have "0 < rdist (usable s) (erasable s)" using False b rdist_0_iff [of "usable s" "erasable s"] by auto
  then show ?thesis
    using False inv by (simp add: make_one_erasable_block_free_when_free_blklist_empty_def wp_simps
        free_blklist_empty_def kept_refl)
qed

section \<open>Writing out the merge buffer\<close>

lemma merge_psa:
  assumes "merge_ok lm is l (mk_psa pa ip 0)" "la < N_LAS"
  shows "la = lm 1 \<Longrightarrow> l la = mk_psa pa ip 1"
    and "la = lm 0 \<Longrightarrow> la \<noteq> lm 1 \<Longrightarrow> l la = mk_psa pa ip 0"
  using assms by (auto simp: merge_ok_def mk_psa_eq)

text \<open>The first part: program the page at the head of the active block.\<close>

lemma persist_program:
  assumes inv: "base_inv s vol st" and ip: "ipa_active s < PAGES_PER_BLOCK"
    and t: "t = s\<lparr>fl := prog_page (pba_active s) (ipa_active s) (buf_merge s) False (fl s),
        lsas_merge := fill_words LSA_INVALID SECTORS_PER_PAGE (lsas_merge s), isa_active := 0,
        ipa_active := Suc (ipa_active s)\<rparr>"
  shows "base_inv t vol st"
proof -
  have I: "blocks_ok (blk_list s) (usable s) (erasable s) (invalid s) (used s) (active s) (pba_active s)"
      "active_ok (l2p s) (pba_active s) (active_psa s)"
      "pages_ok (flash (fl s)) (blk_list s) (usable s) (erasable s) (pba_active s) (ipa_active s)"
      "merge_ok (lsas_merge s) (isa_active s) (l2p s) (mk_psa (pba_active s) (ipa_active s) 0)"
      "stored_ok (l2p s) (lsas_merge s) (flash (fl s))" "same_view (view s) vol"
      "chkpt_ok (fl s) (pba_delta s) (ipa_delta s) (delta_buf s) (ptr_delta_buf s) (ptr_full s) (l2p s) st"
      "stable_free (fl s) (blk_list s) (usable s) (invalid s)"
    and rec: "recoverable (fl s) st" and env: "env_ok (fl s)"
    using inv by (simp_all add: base_inv_defs chkpt_ok_def)
  let ?pa = "pba_active s" and ?ip = "ipa_active s" and ?l = "l2p s" and ?lm = "lsas_merge s"
  let ?f = "prog_page ?pa ?ip (buf_merge s) False (fl s)"
  have none: "flash (fl s) ?pa ?ip = None" using I(3) ip by (simp add: pages_ok_def)
  have meta: "same_meta (fl s) ?f" using blocks_ok_active(2) [OF I(1)] by (rule same_meta_data)
  have env': "env_ok ?f" using env I(3) ip by (simp add: env_ok_def cells pages_ok_def)
  have keep: "keeps (fl s) ?f (PSA_TO_PBA (stable_l2p (fl s) la)) (PSA_TO_IPA (stable_l2p (fl s) la))"
    if "la < N_LAS" for la
    using rec none that by (auto simp: keeps_def cells recoverable_def holds_def)
  have chk: "chkpt_inv t ?l st"
    using chkpt_ok_data [OF I(7) meta env' keep] I(8) by (simp add: t chkpt_inv_def stable_free_meta [OF meta])
  have sec: "sector ?f (?l la) o' = view s la o' \<and> flash ?f (PSA_TO_PBA (?l la)) (PSA_TO_IPA (?l la)) \<noteq> None"
    if la: "la < N_LAS" for la o'
  proof (cases "la = ?lm 0 \<or> la = ?lm 1")
    case True
    then show ?thesis using merge_psa [OF I(4) la] ip by (auto simp: sector_def view_def cells macros)
  next
    case False
    then have "flash (fl s) (PSA_TO_PBA (?l la)) (PSA_TO_IPA (?l la)) \<noteq> None"
      using I(5) la by (simp add: stored_ok_def)
    then show ?thesis using False none by (auto simp: sector_def view_def cells)
  qed
  have lm: "fill_words LSA_INVALID SECTORS_PER_PAGE ?lm i = N_LAS" if "i < 2" for i
    using that by (simp add: fill_words_apply macros)
  have "view t la o' = view s la o'" if "la < N_LAS" for la o'
    unfolding view_def [of t] using sec [OF that] lm [of 0] lm [of 1] that by (simp add: t)
  then have "same_view (view t) vol" using I(6) by (simp add: same_view_def)
  moreover have "isa_active s \<le> 2" using I(4) by (simp add: merge_ok_def macros)
  then have "active_ok ?l ?pa (mk_psa ?pa (Suc ?ip) 0)"
    using I(2) by (force simp: active_ok_def active_psa_def mk_psa_eq)
  moreover have "ring (blk_list s) (usable s) k \<noteq> ?pa" if "k < rdist (usable s) (erasable s)" for k
    using that rdist_less [of "usable s" "erasable s"] by (intro ring_neq_active [OF I(1)]) linarith
  then have "pages_ok (flash ?f) (blk_list s) (usable s) (erasable s) ?pa (Suc ?ip)"
    using I(3) ip by (auto simp: pages_ok_def cells less_Suc_eq)
  moreover have "merge_ok (fill_words LSA_INVALID SECTORS_PER_PAGE ?lm) 0 ?l b" for b
    using lm by (simp add: merge_ok_def macros)
  moreover have "stored_ok ?l (fill_words LSA_INVALID SECTORS_PER_PAGE ?lm) (flash ?f)"
    using sec by (simp add: stored_ok_def)
  ultimately show ?thesis
    using inv chk by (simp add: base_inv_def ram_inv_def t active_psa_def victim_psa_def)
qed

text \<open>The second part: a full active block is replaced by the first usable one.\<close>

lemma persist_choose:
  assumes inv: "base_inv s vol st" and isa: "isa_active s = 0" and us: "0 < rdist (usable s) (erasable s)"
    and t: "t = s\<lparr>ipa_active := 0, pba_active := blk_list s (usable s), active := usable s,
        usable := BLK_LIST_NEXT (usable s)\<rparr>"
  shows "base_inv t vol st"
proof -
  have I: "blocks_ok (blk_list s) (usable s) (erasable s) (invalid s) (used s) (active s) (pba_active s)"
      "free_ok (l2p s) (blk_list s) (usable s) (used s)"
      "pages_ok (flash (fl s)) (blk_list s) (usable s) (erasable s) (pba_active s) (ipa_active s)"
      "merge_ok (lsas_merge s) 0 (l2p s) (mk_psa (pba_active s) (ipa_active s) 0)"
      "victim_ok (enable_gc s) (pba_gc s) (blk_list s) (usable s) (used s)"
      "same_view (view s) vol"
      "stable_free (fl s) (blk_list s) (usable s) (invalid s)"
    using inv isa by (simp_all add: base_inv_defs)
  let ?bl = "blk_list s" and ?u = "usable s" and ?e = "erasable s" and ?i = "invalid s" and ?d = "used s"
  note b = blocks_okD [OF I(1)]
  have pos: "0 < rdist ?u ?i" "0 < rdist ?u ?d" using us b by linarith+
  have dist: "rdist (BLK_LIST_NEXT ?u) ?e = rdist ?u ?e - 1" "rdist (BLK_LIST_NEXT ?u) ?i = rdist ?u ?i - 1"
    "rdist (BLK_LIST_NEXT ?u) ?d = rdist ?u ?d - 1"
    using b us pos by (simp_all add: rdist_next_left)
  have le: "rdist ?u ?e < BLOCKS_DATA" "rdist ?u ?i < BLOCKS_DATA" "rdist ?u ?d < BLOCKS_DATA" by simp_all
  have shift: "ring ?bl (BLK_LIST_NEXT ?u) k = ring ?bl ?u (Suc k)" if "k < BLOCKS_DATA" for k
    using b(1) that by (rule ring_next)
  have shift': "ring ?bl (BLK_LIST_NEXT ?u) k = ring ?bl ?u (Suc k)" if "k < rdist ?u x - Suc 0" for k x
    using that rdist_less [of ?u x] by (intro shift) linarith
  have r0: "ring ?bl ?u 0 = ?bl ?u" using ring_rdist [OF b(1) b(1), of ?bl] b(1) by simp
  have blk: "blocks_ok ?bl (BLK_LIST_NEXT ?u) ?e ?i ?d ?u (?bl ?u)" by (rule blocks_ok_choose [OF I(1) us])
  have "free_ok (l2p s) ?bl (BLK_LIST_NEXT ?u) ?d"
    using I(2) pos by (auto simp: free_ok_def dist shift')
  moreover have "stable_free (fl s) ?bl (BLK_LIST_NEXT ?u) ?i"
    using I(7) pos by (auto simp: stable_free_def dist shift')
  moreover have "victim_ok (enable_gc s) (pba_gc s) ?bl (BLK_LIST_NEXT ?u) ?d"
  proof -
    have "rdist ?u ?d - Suc 0 < BLOCKS_DATA" using le(3) by linarith
    then have "ring ?bl (BLK_LIST_NEXT ?u) (rdist ?u ?d - Suc 0) = ring ?bl ?u (rdist ?u ?d)"
      using shift pos(2) by simp
    then show ?thesis using I(5) by (auto simp: victim_ok_def dist)
  qed
  moreover have "PSA_TO_PBA (l2p s la) \<noteq> ?bl ?u" if "la < N_LAS" for la
    using I(2) pos(2) that unfolding free_ok_def r0 [symmetric] by metis
  then have "active_ok (l2p s) (?bl ?u) x" for x
    by (simp add: active_ok_def)
  moreover have "pages_ok (flash (fl s)) ?bl (BLK_LIST_NEXT ?u) ?e (?bl ?u) 0"
    using I(3) us by (auto simp: pages_ok_def dist shift' r0 [symmetric])
  moreover have "merge_ok (lsas_merge s) 0 (l2p s) x" for x
    using I(4) by (simp add: merge_ok_def macros)
  moreover have "view t = view s" by (simp add: t view_def fun_eq_iff)
  ultimately show ?thesis
    using inv blk isa by (simp add: base_inv_defs t active_psa_def victim_psa_def)
qed

lemma wp_persist_merge_buffer:
  assumes inv: "ftl_inv s vol st" and us: "0 < rdist (usable s) (erasable s)"
  shows "wp persist_merge_buffer
    (\<lambda>t. base_inv t vol st \<and> ipa_active t < PAGES_PER_BLOCK \<and> kept s t \<and> isa_active t = 0
       \<and> avail_sectors t = avail_sectors s - (SECTORS_PER_PAGE - isa_active s)
       \<and> delta_count (pba_delta t) (ipa_delta t) = delta_count (pba_delta s) (ipa_delta s)
       \<and> ptr_delta_buf t = ptr_delta_buf s
       \<and> rdist (usable t) (used t) * SECTORS_PER_BLOCK + SECTORS_PER_BLOCK - ipa_active t * SECTORS_PER_PAGE
          \<ge> rdist (usable s) (used s) * SECTORS_PER_BLOCK) C s"
proof -
  let ?pa = "pba_active s" and ?ip = "ipa_active s" and ?bl = "blk_list s" and ?u = "usable s"
  let ?t = "s\<lparr>fl := prog_page ?pa ?ip (buf_merge s) False (fl s),
        lsas_merge := fill_words LSA_INVALID SECTORS_PER_PAGE (lsas_merge s), isa_active := 0,
        ipa_active := Suc ?ip\<rparr>"
  let ?v = "?t\<lparr>ipa_active := 0, pba_active := ?bl ?u, active := ?u, usable := BLK_LIST_NEXT ?u\<rparr>"
  have base: "base_inv s vol st" and ip: "?ip < PAGES_PER_BLOCK" using inv by (simp_all add: ftl_inv_def)
  note I = ftl_invD [OF inv]
  note b = blocks_okD [OF I(1)]
  have inv1: "base_inv ?t vol st" by (rule persist_program [OF base ip]) simp
  have inv2: "base_inv ?v vol st" by (rule persist_choose [OF inv1]) (simp_all add: us)
  have isa: "isa_active s \<le> 2" using I(5) by (simp add: merge_ok_def macros)
  have pos: "0 < rdist ?u (invalid s)" "0 < rdist ?u (used s)" using us b by linarith+
  have "?pa < NUM_PHYSICAL_BLOCKS" using blocks_ok_active(3) [OF I(1)] by (simp add: macros)
  then show ?thesis
    using inv1 inv2 ip isa pos b(1,2,3,4)
    by (auto simp: persist_merge_buffer_def invalidate_merge_buffer_def choose_free_block_def wp_simps
        kept_def avail_sectors_def rdist_next_left macros)
qed

lemma wp_persist_merge_buffer_when_full:
  assumes inv: "ftl_inv s vol st" and us: "0 < rdist (usable s) (erasable s)"
  shows "wp persist_merge_buffer_when_full
    (\<lambda>t. ftl_inv t vol st \<and> kept s t \<and> isa_active t < SECTORS_PER_PAGE) C s"
proof (cases "isa_active s = SECTORS_PER_PAGE")
  case True
  have "wp persist_merge_buffer
    (\<lambda>t. ftl_inv t vol st \<and> kept s t \<and> isa_active t < SECTORS_PER_PAGE) C s"
    using ftl_invD(8) [OF inv] True
    by (intro wp_mono [OF wp_persist_merge_buffer [OF inv us]])
       (auto simp: ftl_inv_def space_inv_def kept_def macros)
  then show ?thesis
    using True by (simp add: persist_merge_buffer_when_full_def merge_buf_full_def wp_simps)
next
  case False
  have "isa_active s \<le> SECTORS_PER_PAGE" using ftl_invD(5) [OF inv] by (simp add: merge_ok_def)
  then show ?thesis
    using False inv
    by (simp add: persist_merge_buffer_when_full_def merge_buf_full_def wp_simps kept_refl)
qed

section \<open>Moving a logical sector to the head of the log\<close>

lemma map_ok_remap:
  assumes ok: "map_ok l p" and ap: "PBA_DATA * SECTORS_PER_BLOCK \<le> ap" "ap < N_PAS"
    and new: "\<And>x. x < N_LAS \<Longrightarrow> l x \<noteq> ap" and la: "la < N_LAS"
  shows "map_ok (l(la := ap)) (p(l la := N_LAS, ap := la))"
proof -
  have inj: "l x = pa \<longleftrightarrow> p pa = x" if "x < N_LAS" "pa < N_PAS" for x pa
    using ok that by (simp add: map_ok_def)
  have "(p(l la := N_LAS, ap := la)) pa = x \<longleftrightarrow> (l(la := ap)) x = pa" if "x < N_LAS" "pa < N_PAS" for x pa
    using inj [OF that] inj [OF la that(2)] new [OF that(1)] new [OF la] that by auto
  moreover have "(p(l la := N_LAS, ap := la)) pa \<le> N_LAS" if "pa < N_PAS" for pa
    using ok la that by (auto simp: map_ok_def)
  ultimately show ?thesis using ok ap by (simp add: map_ok_def)
qed

definition block_las :: "(nat \<Rightarrow> nat) \<Rightarrow> nat \<Rightarrow> nat set" where
  "block_las l b = {la. la < N_LAS \<and> PSA_TO_PBA (l la) = b}"

lemma finite_block_las [simp]: "finite (block_las l b)"
  by (simp add: block_las_def)

lemma card_block_las:
  assumes "map_ok l p" "b < BLOCKS_TOTAL"
  shows "card (block_las l b) \<le> SECTORS_PER_BLOCK"
proof -
  have lt: "l la < N_PAS" if "la \<in> block_las l b" for la
    using that assms(2) by (auto simp: block_las_def PSA_TO_PBA_def macros)
  have "inj_on l (block_las l b)"
  proof (rule inj_onI)
    fix x y assume xy: "x \<in> block_las l b" "y \<in> block_las l b" "l x = l y"
    then have "p (l x) = x" "p (l y) = y"
      using assms(1) lt by (auto simp: map_ok_def block_las_def)
    then show "x = y" unfolding xy(3) by (rule box_equals [OF refl])
  qed
  moreover have "l ` block_las l b \<subseteq> {b * 1024..<b * 1024 + 1024}"
    by (auto simp: block_las_def PSA_TO_PBA_def macros)
  ultimately show ?thesis
    using card_inj_on_le [of l "block_las l b" "{b * 1024..<b * 1024 + 1024}"] by (simp add: macros)
qed

lemma block_las_remap:
  assumes "la < N_LAS"
  shows "block_las (l(la := ap)) b =
    (if b = PSA_TO_PBA ap then insert la (block_las l b) else block_las l b - {la})"
  using assms by (auto simp: block_las_def)

lemma vcnt_ok_remap:
  assumes ok: "vcnt_ok l v" and map: "map_ok l p" and la: "la < N_LAS" and ap: "PSA_TO_PBA ap < BLOCKS_TOTAL"
  defines "v' \<equiv> v(PSA_TO_PBA (l la) := dec16 (v (PSA_TO_PBA (l la))))"
  shows "vcnt_ok (l(la := ap)) (v'(PSA_TO_PBA ap := u16 (v' (PSA_TO_PBA ap) + 1)))"
proof -
  have v: "v b = card (block_las l b)" if "PBA_DATA \<le> b" "b < BLOCKS_TOTAL" for b
    using ok that by (simp add: vcnt_ok_def block_las_def)
  have le: "card (block_las l b) \<le> 1024" if "b < BLOCKS_TOTAL" for b
    using card_block_las [OF map that] by (simp add: macros)
  have mem: "la \<in> block_las l b \<longleftrightarrow> PSA_TO_PBA (l la) = b" for b
    using la by (simp add: block_las_def)
  have "(v'(PSA_TO_PBA ap := u16 (v' (PSA_TO_PBA ap) + 1))) b = card (block_las (l(la := ap)) b)"
    if "PBA_DATA \<le> b" "b < BLOCKS_TOTAL" for b
  proof -
    have eq: "v b = card (block_las l b)" and bd: "card (block_las l b) \<le> 1024"
      using v le that by simp_all
    have pos: "0 < card (block_las l b)" if "PSA_TO_PBA (l la) = b"
      using that mem by (auto simp: card_gt_0_iff)
    show ?thesis
    proof (cases "b = PSA_TO_PBA ap"; cases "PSA_TO_PBA (l la) = b")
      assume c: "b = PSA_TO_PBA ap" "PSA_TO_PBA (l la) = b"
      then have "insert la (block_las l b) = block_las l b" using mem by (simp add: insert_absorb)
      then show ?thesis using c eq bd pos by (simp add: v'_def block_las_remap [OF la])
    next
      assume c: "b = PSA_TO_PBA ap" "PSA_TO_PBA (l la) \<noteq> b"
      then have "card (insert la (block_las l b)) = Suc (card (block_las l b))" using mem by simp
      then show ?thesis using c eq bd by (simp add: v'_def block_las_remap [OF la])
    next
      assume c: "b \<noteq> PSA_TO_PBA ap" "PSA_TO_PBA (l la) = b"
      then have "card (block_las l b - {la}) = card (block_las l b) - 1" using mem by simp
      then show ?thesis using c eq bd pos by (simp add: v'_def block_las_remap [OF la])
    next
      assume c: "b \<noteq> PSA_TO_PBA ap" "PSA_TO_PBA (l la) \<noteq> b"
      then have "block_las l b - {la} = block_las l b" using mem by simp
      then show ?thesis using c eq by (simp add: v'_def block_las_remap [OF la])
    qed
  qed
  then show ?thesis by (simp add: vcnt_ok_def block_las_def)
qed

text \<open>The state after the sector \<open>la\<close> with the contents \<open>d\<close> was put into the merge buffer.\<close>

definition remapped :: "nat \<Rightarrow> (nat \<Rightarrow> nat) \<Rightarrow> nat \<Rightarrow> ftl \<Rightarrow> ftl" where
  "remapped la d lg s =
     (let ap = active_psa s; old = l2p s la; v = (vcnts s)(PSA_TO_PBA old := dec16 (vcnts s (PSA_TO_PBA old)))
      in s\<lparr>l2p := (l2p s)(la := ap), p2l := (p2l s)(old := N_LAS, ap := la),
           vcnts := v(PSA_TO_PBA ap := u16 (v (PSA_TO_PBA ap) + 1)), lsa_gc := lg,
           buf_merge := copy_words (isa_active s * N_ENTRIES_PER_SECTOR) d 0 N_ENTRIES_PER_SECTOR (buf_merge s),
           lsas_merge := (lsas_merge s)(isa_active s := la), isa_active := Suc (isa_active s)\<rparr>)"

lemma remapped_fields [simp]:
  "fl (remapped la d lg s) = fl s" "blk_list (remapped la d lg s) = blk_list s"
  "usable (remapped la d lg s) = usable s" "erasable (remapped la d lg s) = erasable s"
  "invalid (remapped la d lg s) = invalid s" "used (remapped la d lg s) = used s"
  "active (remapped la d lg s) = active s" "pba_active (remapped la d lg s) = pba_active s"
  "ipa_active (remapped la d lg s) = ipa_active s" "isa_active (remapped la d lg s) = Suc (isa_active s)"
  "pba_gc (remapped la d lg s) = pba_gc s" "ipa_gc (remapped la d lg s) = ipa_gc s"
  "isa_gc (remapped la d lg s) = isa_gc s" "enable_gc (remapped la d lg s) = enable_gc s"
  "lsa_gc (remapped la d lg s) = lg" "l2p (remapped la d lg s) = (l2p s)(la := active_psa s)"
  "p2l (remapped la d lg s) = (p2l s)(l2p s la := N_LAS, active_psa s := la)"
  "lsas_merge (remapped la d lg s) = (lsas_merge s)(isa_active s := la)"
  "pba_delta (remapped la d lg s) = pba_delta s" "ipa_delta (remapped la d lg s) = ipa_delta s"
  "delta_buf (remapped la d lg s) = delta_buf s" "ptr_delta_buf (remapped la d lg s) = ptr_delta_buf s"
  "ptr_full (remapped la d lg s) = ptr_full s" "wcnt (remapped la d lg s) = wcnt s"
  "gcprog (remapped la d lg s) = gcprog s" "victim_psa (remapped la d lg s) = victim_psa s"
  "active_psa (remapped la d lg s) = Suc (active_psa s)"
  "buf_merge (remapped la d lg s) =
     copy_words (isa_active s * N_ENTRIES_PER_SECTOR) d 0 N_ENTRIES_PER_SECTOR (buf_merge s)"
  by (simp_all add: remapped_def Let_def victim_psa_def active_psa_def mk_psa_eq)

text \<open>What the state must satisfy for a sector to move: the merge buffer has room.\<close>

definition remap_pre :: "ftl \<Rightarrow> nat \<Rightarrow> bool" where
  "remap_pre s la \<longleftrightarrow> ipa_active s < PAGES_PER_BLOCK \<and> isa_active s < SECTORS_PER_PAGE \<and> la < N_LAS"

lemma active_psa_facts:
  assumes inv: "ram_inv s" and pre: "remap_pre s la"
  shows "PBA_DATA * SECTORS_PER_BLOCK \<le> active_psa s" "active_psa s < N_PAS"
    "PSA_TO_PBA (active_psa s) = pba_active s" "\<And>x. x < N_LAS \<Longrightarrow> l2p s x \<noteq> active_psa s"
    "get_active_psa s = active_psa s"
proof -
  note b = blocks_ok_active [of "blk_list s" "usable s" "erasable s" "invalid s" "used s" "active s" "pba_active s"]
  have a: "PBA_DATA \<le> pba_active s" "pba_active s < BLOCKS_TOTAL" "active_ok (l2p s) (pba_active s) (active_psa s)"
    using inv b by (simp_all add: ram_inv_def)
  have p: "ipa_active s < 512" "isa_active s < 2" using pre by (simp_all add: remap_pre_def macros)
  show "PBA_DATA * SECTORS_PER_BLOCK \<le> active_psa s" "active_psa s < N_PAS"
    using a p by (simp_all add: active_psa_def mk_psa_eq macros)
  then show "get_active_psa s = active_psa s"
    by (simp add: get_active_psa_def active_psa_def mk_psa_def macros)
  show pba: "PSA_TO_PBA (active_psa s) = pba_active s" using p by (simp add: active_psa_def)
  show "l2p s x \<noteq> active_psa s" if "x < N_LAS" for x
    using a(3) that pba by (auto simp: active_ok_def)
qed

lemma remapped_view:
  assumes merge: "merge_ok (lsas_merge s) (isa_active s) (l2p s) b" and pre: "remap_pre s la"
    and x: "x < N_LAS" and o': "o' < N_ENTRIES_PER_SECTOR"
  shows "view (remapped la d lg s) x o' = ((view s)(la := d)) x o'"
proof -
  have "isa_active s < 2" using pre by (simp add: remap_pre_def macros)
  then consider "isa_active s = 0" | "isa_active s = 1" by linarith
  then show ?thesis
  proof cases
    case 1
    then have "lsas_merge s 0 = N_LAS" "lsas_merge s 1 = N_LAS" using merge by (simp_all add: merge_ok_def macros)
    then show ?thesis using 1 x o' pre by (simp add: view_def copy_words_apply remap_pre_def)
  next
    case 2
    then have "lsas_merge s 1 = N_LAS" using merge by (simp add: merge_ok_def macros)
    then show ?thesis using 2 x o' by (simp add: view_def copy_words_apply)
  qed
qed

lemma all_less_2: "(\<forall>i<(2 :: nat). P i) \<longleftrightarrow> P 0 \<and> P 1"
  by (auto simp: less_2_cases_iff)

lemma merge_ok_iff:
  "merge_ok lm n l base \<longleftrightarrow> n \<le> 2 \<and> (0 < n \<longrightarrow> lm 0 < N_LAS) \<and> (n = 0 \<longrightarrow> lm 0 = N_LAS)
     \<and> (1 < n \<longrightarrow> lm 1 < N_LAS) \<and> (n \<le> 1 \<longrightarrow> lm 1 = N_LAS)
     \<and> (lm 1 < N_LAS \<longrightarrow> l (lm 1) = base + 1) \<and> (lm 0 < N_LAS \<and> lm 0 \<noteq> lm 1 \<longrightarrow> l (lm 0) = base)"
  by (simp add: merge_ok_def SECTORS_PER_PAGE_def PAGE_SIZE_val SECTOR_SIZE_val all_less_2)

lemma remapped_merge:
  assumes merge: "merge_ok lm n l base" and n: "n < 2" and la: "la < N_LAS"
  shows "merge_ok (lm(n := la)) (Suc n) (l(la := base + n)) base"
    and "stored_ok l lm fb \<Longrightarrow> stored_ok (l(la := base + n)) (lm(n := la)) fb"
proof -
  consider "n = 0" | "n = 1" using n by linarith
  then have "merge_ok (lm(n := la)) (Suc n) (l(la := base + n)) base
    \<and> (stored_ok l lm fb \<longrightarrow> stored_ok (l(la := base + n)) (lm(n := la)) fb)"
  proof cases
    case 1
    then show ?thesis using merge la by (simp add: merge_ok_iff stored_ok_def)
  next
    case 2
    then have m: "lm 0 < N_LAS" "lm 1 = N_LAS" "l (lm 0) = base" using merge by (simp_all add: merge_ok_iff)
    then show ?thesis using 2 la by (simp add: merge_ok_iff stored_ok_def)
  qed
  then show "merge_ok (lm(n := la)) (Suc n) (l(la := base + n)) base"
    "stored_ok l lm fb \<Longrightarrow> stored_ok (l(la := base + n)) (lm(n := la)) fb" by auto
qed

lemma victim_neq_active:
  assumes "ram_inv s" "enable_gc s \<noteq> 0"
  shows "pba_gc s \<noteq> pba_active s"
  using assms ring_neq_active [of "blk_list s" "usable s" "erasable s" "invalid s" "used s" "active s"
      "pba_active s" "rdist (usable s) (used s)"]
  by (simp add: ram_inv_def victim_ok_def)

lemma remapped_ram_inv:
  assumes inv: "ram_inv s" and pre: "remap_pre s la"
  shows "ram_inv (remapped la d lg s)"
proof -
  note A = active_psa_facts [OF inv pre]
  have I: "blocks_ok (blk_list s) (usable s) (erasable s) (invalid s) (used s) (active s) (pba_active s)"
      "map_ok (l2p s) (p2l s)" "vcnt_ok (l2p s) (vcnts s)"
      "free_ok (l2p s) (blk_list s) (usable s) (used s)"
      "active_ok (l2p s) (pba_active s) (active_psa s)"
      "merge_ok (lsas_merge s) (isa_active s) (l2p s) (mk_psa (pba_active s) (ipa_active s) 0)"
      "stored_ok (l2p s) (lsas_merge s) (flash (fl s))"
      "gc_left_ok (enable_gc s) (l2p s) (pba_gc s) (victim_psa s)"
    using inv by (simp_all add: ram_inv_def)
  have la: "la < N_LAS" and isa: "isa_active s < 2" using pre by (simp_all add: remap_pre_def macros)
  have base: "active_psa s = mk_psa (pba_active s) (ipa_active s) 0 + isa_active s"
    by (simp add: active_psa_def mk_psa_eq)
  have na: "ring (blk_list s) (usable s) k \<noteq> pba_active s" if "k < BLOCKS_DATA - 1" for k
    by (rule ring_neq_active [OF I(1) that])
  have nk: "ring (blk_list s) (usable s) k \<noteq> pba_active s" if "k < rdist (usable s) (used s)" for k
    using that rdist_less [of "usable s" "used s"] by (intro na) linarith
  have ap: "PSA_TO_PBA (active_psa s) < BLOCKS_TOTAL" using A(3) blocks_ok_active(3) [OF I(1)] by simp
  have "map_ok (l2p (remapped la d lg s)) (p2l (remapped la d lg s))"
    using map_ok_remap [OF I(2) A(1,2,4) la] by simp
  moreover have "vcnt_ok (l2p (remapped la d lg s)) (vcnts (remapped la d lg s))"
    using vcnt_ok_remap [OF I(3,2) la ap] by (simp add: remapped_def Let_def)
  moreover have "free_ok ((l2p s)(la := active_psa s)) (blk_list s) (usable s) (used s)"
    using I(4) nk A(3) by (simp add: free_ok_def)
  moreover have "active_ok ((l2p s)(la := active_psa s)) (pba_active s) (Suc (active_psa s))"
    using I(5) by (auto simp: active_ok_def less_SucI)
  moreover have "gc_left_ok (enable_gc s) ((l2p s)(la := active_psa s)) (pba_gc s) (victim_psa s)"
    using I(8) victim_neq_active [OF inv] A(3) by (auto simp: gc_left_ok_def)
  ultimately show ?thesis
    using inv remapped_merge [OF I(6) isa la] I(7) base by (simp add: ram_inv_def)
qed

lemma remapped_gc_lsa:
  assumes inv: "ram_inv s" and pre: "remap_pre s la"
    and gc: "gc_lsa_ok (enable_gc s) (lsa_gc s) (p2l s) (victim_psa s)"
  shows "gc_lsa_ok (enable_gc s) (if la = lsa_gc s then N_LAS else lsa_gc s)
    ((p2l s)(l2p s la := N_LAS, active_psa s := la)) (victim_psa s)"
proof (cases "enable_gc s = 0")
  case False
  note A = active_psa_facts [OF inv pre]
  have I: "map_ok (l2p s) (p2l s)" "gc_ptr_ok (pba_gc s) (ipa_gc s) (isa_gc s)"
    using inv by (simp_all add: ram_inv_def)
  have "PSA_TO_PBA (victim_psa s) = pba_gc s"
    using I(2) by (simp add: victim_psa_def gc_ptr_ok_def macros)
  moreover have "pba_gc s \<noteq> pba_active s" by (rule victim_neq_active [OF inv False])
  ultimately have ne: "victim_psa s \<noteq> active_psa s" using A(3) by auto
  have "victim_psa s < N_PAS" using I(2) by (simp add: victim_psa_def gc_ptr_ok_def mk_psa_eq macros)
  then have "p2l s (victim_psa s) = la \<longleftrightarrow> l2p s la = victim_psa s"
    using I(1) pre by (simp add: map_ok_def remap_pre_def)
  then show ?thesis using gc False ne by (auto simp: gc_lsa_ok_def)
qed (simp add: gc_lsa_ok_def)

section \<open>Writing a delta page\<close>

lemma wp_reset_delta_buf [wp_simps]:
  "wp reset_delta_buf Q C = (\<lambda>s. Q (s\<lparr>ptr_delta_buf := 0, idx := OFFSET_LAS + N_DELTA_PAIR,
     delta_buf := cleared (delta_buf s)\<rparr>))"
proof (rule wp_exact)
  fix s
  show "wp reset_delta_buf (\<lambda>t. t = s\<lparr>ptr_delta_buf := 0, idx := OFFSET_LAS + N_DELTA_PAIR,
     delta_buf := cleared (delta_buf s)\<rparr>) (\<lambda>_. False) s"
  proof -
    define F where "F n = s\<lparr>ptr_delta_buf := 0, idx := OFFSET_LAS + n, delta_buf :=
      (\<lambda>i. if OFFSET_LAS \<le> i \<and> i < OFFSET_LAS + n then N_LAS else delta_buf s i)\<rparr>" for n
    have "wp invalidate_delta_buf_loop (\<lambda>t. t = F N_DELTA_PAIR) (\<lambda>_. False) (F 0)"
      unfolding invalidate_delta_buf_loop_def
      by (rule wp_while_iterate [where N = N_DELTA_PAIR])
         (auto simp: F_def invalidate_delta_buf_body_def wp_simps macros fun_eq_iff)
    moreover have "(\<lambda>i. if OFFSET_LAS \<le> i \<and> i < OFFSET_LAS then N_LAS else delta_buf s i) = delta_buf s"
      by auto
    then have "F 0 = s\<lparr>ptr_delta_buf := 0, idx := OFFSET_LAS\<rparr>" by (simp add: F_def)
    moreover have "F N_DELTA_PAIR = s\<lparr>ptr_delta_buf := 0, idx := OFFSET_LAS + N_DELTA_PAIR,
     delta_buf := cleared (delta_buf s)\<rparr>" by (simp add: F_def cleared_def [abs_def])
    ultimately show ?thesis by (simp add: reset_delta_buf_def invalidate_delta_buf_def wp_simps)
  qed
qed

text \<open>
  The state after the delta buffer was written as a delta page. \<open>n\<close> is the number of random
  numbers drawn.
\<close>

definition delta_written :: "nat \<Rightarrow> nat \<Rightarrow> ftl \<Rightarrow> ftl" where
  "delta_written flag n s = (let nd = delta_count (pba_delta s) (ipa_delta s) in
     s\<lparr>pba_delta := nd div PAGES_PER_BLOCK, delta_buf := (delta_buf s)(0 := flag),
       fl := (put_delta nd (delta_buf s) flag (fl s))\<lparr>nrand := n\<rparr>,
       ipa_delta := Suc (nd mod PAGES_PER_BLOCK)\<rparr>)"

lemma wp_create_one_delta_chkpt:
  assumes ok: "delta_ok (fl s) (pba_delta s) (ipa_delta s)" and env: "env_ok (fl s)"
    and nd: "delta_count (pba_delta s) (ipa_delta s) < N_DELTA_PAGES"
    and Q: "\<And>n. Q (delta_written flag n s)"
    and C: "\<And>t. crashed (fl s) (fl t) \<Longrightarrow> C t"
  shows "wp (create_one_delta_chkpt flag) Q C s"
proof -
  let ?nd = "delta_count (pba_delta s) (ipa_delta s)"
  have ip: "ipa_delta s \<le> PAGES_PER_BLOCK" using ok by (simp add: delta_ok_def)
  have prog: "wp (on_flash (\<lambda>s. flash_program (pba_delta s) (ipa_delta s) (delta_buf s) 1))
      (\<lambda>t. Q (t\<lparr>ipa_delta := u32 (ipa_delta t + 1)\<rparr>)) C
      (s\<lparr>ipa_delta := ?nd mod PAGES_PER_BLOCK, pba_delta := ?nd div PAGES_PER_BLOCK,
        delta_buf := (delta_buf s)(0 := flag)\<rparr>)"
  proof -
    have "?nd div PAGES_PER_BLOCK < NUM_PHYSICAL_BLOCKS" "?nd mod PAGES_PER_BLOCK < PAGES_PER_BLOCK"
      using delta_block_less [OF nd] by (simp_all add: macros)
    moreover from this(2) have "u32 (Suc (?nd mod PAGES_PER_BLOCK)) = Suc (?nd mod PAGES_PER_BLOCK)"
      by (simp add: macros)
    ultimately show ?thesis
      using Q C env_ok_guard [OF env] unfolding wp_on_flash
      by (intro wp_flash_program_sync) (simp_all add: delta_written_def put_delta_def Let_def)
  qed
  have nd_eq: "ipa_delta s = PAGES_PER_BLOCK \<Longrightarrow> ?nd div PAGES_PER_BLOCK = Suc (pba_delta s) \<and> ?nd mod PAGES_PER_BLOCK = 0"
    "ipa_delta s < PAGES_PER_BLOCK \<Longrightarrow> ?nd div PAGES_PER_BLOCK = pba_delta s \<and> ?nd mod PAGES_PER_BLOCK = ipa_delta s"
    by (simp_all add: delta_count_def macros)
  have pd: "u32 (Suc (pba_delta s)) = Suc (pba_delta s)"
    using nd by (simp add: delta_count_def macros)
  show ?thesis
  proof (cases "ipa_delta s = PAGES_PER_BLOCK")
    case True
    then show ?thesis
      using prog nd_eq(1) [OF True] pd
      by (simp add: create_one_delta_chkpt_def wp_block wp_only_if wp_assign OFFSET_COMMIT_def)
  next
    case False
    with ip have lt: "ipa_delta s < PAGES_PER_BLOCK" by simp
    have "s\<lparr>ipa_delta := ipa_delta s, pba_delta := pba_delta s, delta_buf := d\<rparr> = s\<lparr>delta_buf := d\<rparr>" for d
      by simp
    then show ?thesis
      using prog nd_eq(2) [OF lt] False
      by (simp add: create_one_delta_chkpt_def wp_block wp_only_if wp_assign OFFSET_COMMIT_def)
  qed
qed

section \<open>Logging a move\<close>

definition same_ram :: "ftl \<Rightarrow> ftl \<Rightarrow> bool" where
  "same_ram s t \<longleftrightarrow> kept s t \<and> p2l t = p2l s \<and> isa_active t = isa_active s \<and> ipa_active t = ipa_active s
     \<and> usable t = usable s \<and> invalid t = invalid s \<and> victim_psa t = victim_psa s \<and> same_view (view t) (view s)"

lemma ram_inv_data:
  assumes inv: "ram_inv s" and same: "\<And>b p. PBA_DATA \<le> b \<Longrightarrow> flash g b p = flash (fl s) b p"
  shows "pages_ok (flash g) (blk_list s) (usable s) (erasable s) (pba_active s) (ipa_active s)"
    and "stored_ok (l2p s) (lsas_merge s) (flash g)"
    and "\<And>la o'. la < N_LAS \<Longrightarrow> sector g (l2p s la) o' = sector (fl s) (l2p s la) o'"
proof -
  have I: "blocks_ok (blk_list s) (usable s) (erasable s) (invalid s) (used s) (active s) (pba_active s)"
      "map_ok (l2p s) (p2l s)"
      "pages_ok (flash (fl s)) (blk_list s) (usable s) (erasable s) (pba_active s) (ipa_active s)"
      "stored_ok (l2p s) (lsas_merge s) (flash (fl s))"
    using inv by (simp_all add: ram_inv_def)
  have r: "PBA_DATA \<le> ring (blk_list s) (usable s) k" if "k < rdist (usable s) (erasable s)" for k
    using that rdist_less [of "usable s" "erasable s"] by (intro ring_range(1) [OF I(1)]) linarith
  have l: "PBA_DATA \<le> PSA_TO_PBA (l2p s la)" if "la < N_LAS" for la
    using I(2) that by (auto simp: map_ok_def PSA_TO_PBA_def macros dest!: spec [of _ la])
  show "pages_ok (flash g) (blk_list s) (usable s) (erasable s) (pba_active s) (ipa_active s)"
    using I(3) r same blocks_ok_active(2) [OF I(1)] by (simp add: pages_ok_def)
  show "stored_ok (l2p s) (lsas_merge s) (flash g)" using I(4) l same by (simp add: stored_ok_def)
  show "\<And>la o'. la < N_LAS \<Longrightarrow> sector g (l2p s la) o' = sector (fl s) (l2p s la) o'"
    using l same by (simp add: sector_def)
qed

lemma crash_inv_crashed: "recoverable f st \<Longrightarrow> env_ok f \<Longrightarrow> crashed f (fl t) \<Longrightarrow> crash_inv t st"
  by (auto simp: crash_inv_def intro: recoverable_crash env_ok_crash)

lemma same_view_trans: "same_view v w \<Longrightarrow> same_view w x \<Longrightarrow> same_view v x"
  by (simp add: same_view_def)

lemma delta_count_next: "delta_count (nd div PAGES_PER_BLOCK) (Suc (nd mod PAGES_PER_BLOCK)) = Suc nd"
  by (simp add: delta_count_def)

lemma delta_space_Suc:
  assumes "delta_space nd N_DELTA_PAIR n"
  shows "delta_space (Suc nd) 0 n"
proof -
  have "Suc nd - WB_PAGES \<le> Suc (nd - WB_PAGES)" by arith
  then have "(Suc nd - WB_PAGES) * N_DELTA_PAIR \<le> Suc (nd - WB_PAGES) * N_DELTA_PAIR" by (rule mult_le_mono1)
  then show ?thesis using assms by (simp add: delta_space_def)
qed

lemma wp_create_one_delta_chkpt_when_delta_buf_full:
  assumes ram: "ram_inv s" and chk: "chkpt_inv s l st"
    and nd: "ptr_delta_buf s = N_DELTA_PAIR \<Longrightarrow> delta_count (pba_delta s) (ipa_delta s) < N_DELTA_PAGES"
  shows "wp create_one_delta_chkpt_when_delta_buf_full
    (\<lambda>t. ram_inv t \<and> chkpt_inv t l st \<and> ptr_delta_buf t < N_DELTA_PAIR \<and> same_ram s t
       \<and> (\<forall>n. delta_space (delta_count (pba_delta s) (ipa_delta s)) (ptr_delta_buf s) n
            \<longrightarrow> delta_space (delta_count (pba_delta t) (ipa_delta t)) (ptr_delta_buf t) n))
    (\<lambda>t. crash_inv t st) s"
proof (cases "ptr_delta_buf s = N_DELTA_PAIR")
  case False
  have "ptr_delta_buf s \<le> N_DELTA_PAIR" using chk by (simp add: chkpt_inv_def chkpt_ok_def delta_buf_ok_def)
  then show ?thesis
    using False ram chk
    by (simp add: create_one_delta_chkpt_when_delta_buf_full_def wp_simps delta_chkpt_buf_full_def
        same_ram_def kept_refl same_view_def)
next
  case True
  let ?nd = "delta_count (pba_delta s) (ipa_delta s)"
  have ok: "chkpt_ok (fl s) (pba_delta s) (ipa_delta s) (delta_buf s) (ptr_delta_buf s) (ptr_full s) l st"
    and sf: "stable_free (fl s) (blk_list s) (usable s) (invalid s)"
    using chk by (simp_all add: chkpt_inv_def)
  have d: "delta_ok (fl s) (pba_delta s) (ipa_delta s)" and env: "env_ok (fl s)" and rec: "recoverable (fl s) st"
    using ok by (simp_all add: chkpt_ok_def)
  note T = chkpt_ok_tentative [OF ok refl nd [OF True], of 1]
  let ?g = "put_delta ?nd (delta_buf s) 1 (fl s)"
  have data: "flash ?g b p = flash (fl s) b p" if "PBA_DATA \<le> b" for b p
    using that by (intro put_delta_data(1) [OF nd [OF True]]) (simp add: macros)
  note R = ram_inv_data [OF ram data]
  have sf': "stable_free ?g (blk_list s) (usable s) (invalid s)"
    using sf T(2) by (simp add: stable_free_def)
  let ?t = "\<lambda>n. (delta_written 1 n s)\<lparr>ptr_delta_buf := 0, idx := OFFSET_LAS + N_DELTA_PAIR,
     delta_buf := cleared (delta_buf (delta_written 1 n s))\<rparr>"
  have "ram_inv (?t n)" for n
    using ram R(1,2) by (simp add: ram_inv_def delta_written_def Let_def active_psa_def victim_psa_def)
  moreover have "chkpt_inv (?t n) l st" for n
    using T(1) sf' by (simp add: chkpt_inv_def delta_written_def Let_def)
  moreover have "same_ram s (?t n)" for n
    using R(3) by (simp add: same_ram_def kept_def delta_written_def Let_def same_view_def view_def victim_psa_def)
  moreover have "delta_space ?nd (ptr_delta_buf s) m \<longrightarrow>
      delta_space (delta_count (pba_delta (?t n)) (ipa_delta (?t n))) (ptr_delta_buf (?t n)) m" for n m
    using True delta_space_Suc [of ?nd m] by (simp add: delta_written_def Let_def delta_count_next)
  moreover have "ptr_delta_buf (?t n) < N_DELTA_PAIR" for n by (simp add: macros)
  ultimately have "wp (create_one_delta_chkpt FLAG_DELTA_TENTATIVE) (wp reset_delta_buf
    (\<lambda>t. ram_inv t \<and> chkpt_inv t l st \<and> ptr_delta_buf t < N_DELTA_PAIR \<and> same_ram s t
       \<and> (\<forall>n. delta_space ?nd (ptr_delta_buf s) n
            \<longrightarrow> delta_space (delta_count (pba_delta t) (ipa_delta t)) (ptr_delta_buf t) n)) C)
    (\<lambda>t. crash_inv t st) s" for C
    unfolding wp_reset_delta_buf FLAG_DELTA_TENTATIVE_def
    by (intro wp_create_one_delta_chkpt [OF d env nd [OF True]] conjI allI)
       (auto intro: crash_inv_crashed [OF rec env])
  then show ?thesis
    using True by (simp add: create_one_delta_chkpt_when_delta_buf_full_def delta_chkpt_buf_full_def
        wp_only_if wp_block)
qed

lemma wp_append_delta_pair:
  assumes "ptr_delta_buf s < N_DELTA_PAIR"
  shows "wp (append_delta_pair la pa) Q C s = Q (s\<lparr>delta_buf := (delta_buf s)
      (ptr_delta_buf s + OFFSET_LAS := la, ptr_delta_buf s + OFFSET_PAS := pa),
      ptr_delta_buf := Suc (ptr_delta_buf s)\<rparr>)"
  using assms by (simp add: append_delta_pair_def wp_simps macros)

text \<open>
  The common end of a write and of a relocation: the new mapping is logged. \<open>l\<close> is the mapping
  table before the move, \<open>n\<close> the number of moves in this epoch so far, \<open>c\<close> the statement that
  appends the pair.
\<close>

lemma wp_log_move:
  assumes ram: "ram_inv s" and chk: "chkpt_inv s l st" and l2p: "l2p s = l(la := pa)" and la: "la < N_LAS"
    and space: "delta_space (delta_count (pba_delta s) (ipa_delta s)) (ptr_delta_buf s) n"
    and n: "n < MAX_WCNT + MAX_GCPROG"
    and c: "\<And>t Q C. same_ram s t \<Longrightarrow> wp c Q C t = wp (append_delta_pair la pa) Q C t"
  shows "wp create_one_delta_chkpt_when_delta_buf_full (wp c
    (\<lambda>t. ram_inv t \<and> chkpt_inv t (l2p t) st \<and> same_ram s t
       \<and> delta_space (delta_count (pba_delta t) (ipa_delta t)) (ptr_delta_buf t) (Suc n)) (\<lambda>t. crash_inv t st))
    (\<lambda>t. crash_inv t st) s"
proof (rule wp_mono [OF wp_create_one_delta_chkpt_when_delta_buf_full [OF ram chk]])
  show "delta_count (pba_delta s) (ipa_delta s) < N_DELTA_PAGES" if "ptr_delta_buf s = N_DELTA_PAIR"
    using space n that by (simp add: delta_space_def macros)
  fix t
  assume A: "ram_inv t \<and> chkpt_inv t l st \<and> ptr_delta_buf t < N_DELTA_PAIR \<and> same_ram s t
       \<and> (\<forall>n. delta_space (delta_count (pba_delta s) (ipa_delta s)) (ptr_delta_buf s) n
            \<longrightarrow> delta_space (delta_count (pba_delta t) (ipa_delta t)) (ptr_delta_buf t) n)"
  let ?t = "t\<lparr>delta_buf := (delta_buf t)(ptr_delta_buf t + OFFSET_LAS := la, ptr_delta_buf t + OFFSET_PAS := pa),
      ptr_delta_buf := Suc (ptr_delta_buf t)\<rparr>"
  have "chkpt_inv ?t (l(la := pa)) st"
    using A chkpt_ok_append [OF _ _ la] by (simp add: chkpt_inv_def)
  moreover have "ram_inv ?t" using A by (simp add: ram_inv_def active_psa_def victim_psa_def)
  moreover have "view ?t = view t" by (simp add: fun_eq_iff view_def)
  then have "same_ram s ?t" "l2p t = l2p s"
    using A by (simp_all add: same_ram_def kept_def victim_psa_def)
  moreover have "delta_space (delta_count (pba_delta t) (ipa_delta t)) (Suc (ptr_delta_buf t)) (Suc n)"
    using A space by (simp add: delta_space_def)
  ultimately show "wp c
    (\<lambda>t. ram_inv t \<and> chkpt_inv t (l2p t) st \<and> same_ram s t
       \<and> delta_space (delta_count (pba_delta t) (ipa_delta t)) (ptr_delta_buf t) (Suc n)) (\<lambda>t. crash_inv t st) t"
    using A l2p by (subst c, simp, subst wp_append_delta_pair) simp_all
qed auto

section \<open>What a move leaves of the victim block\<close>

text \<open>
  The host may write while a victim block is being emptied: the pointers of the garbage collector stay
  and no sector joins the victim block.
\<close>

definition gc_frame :: "ftl \<Rightarrow> ftl \<Rightarrow> bool" where
  "gc_frame s t \<longleftrightarrow> used t = used s \<and> invalid t = invalid s \<and> enable_gc t = enable_gc s \<and> pba_gc t = pba_gc s
     \<and> ipa_gc t = ipa_gc s \<and> isa_gc t = isa_gc s
     \<and> (enable_gc s \<noteq> 0 \<longrightarrow> block_las (l2p t) (pba_gc s) \<subseteq> block_las (l2p s) (pba_gc s))"

lemma gc_frame_kept: "kept s t \<Longrightarrow> gc_frame t u \<Longrightarrow> gc_frame s u"
  by (simp add: gc_frame_def kept_def)

lemma gc_frame_moved:
  assumes ram: "ram_inv s" and pre: "remap_pre s la" and kept: "kept (remapped la d lg s) t"
  shows "gc_frame s t"
proof -
  have "PSA_TO_PBA (active_psa s) \<noteq> pba_gc s" if "enable_gc s \<noteq> 0"
    using active_psa_facts(3) [OF ram pre] victim_neq_active [OF ram that] by simp
  then have "block_las ((l2p s)(la := active_psa s)) (pba_gc s) \<subseteq> block_las (l2p s) (pba_gc s)" if "enable_gc s \<noteq> 0"
    using that by (auto simp: block_las_def split: if_splits)
  then show ?thesis using kept by (simp add: gc_frame_def kept_def)
qed

end
