(* ===== verification/FtlWrite.thy ===== *)
theory FtlWrite
  imports FtlSteps
begin

text \<open>
  \<open>ftl_write\<close> and \<open>ftl_read\<close>: a write changes the volatile contents of exactly one
  sector and keeps the snapshot, at every point where the power may be lost; a read returns the
  volatile contents.
\<close>

section \<open>Write\<close>

lemma get_active_psa_tables:
  "get_active_psa (s\<lparr>p2l := x, vcnts := y\<rparr>) = get_active_psa s"
  by (simp add: get_active_psa_def)

lemma l2p_bounds:
  assumes "map_ok l p" "la < N_LAS"
  shows "l la < N_PAS + 1" "PSA_TO_PBA (l la) < BLOCKS_TOTAL + 1"
  using assms by (auto simp: map_ok_def PSA_TO_PBA_def macros dest!: spec [of _ la])

text \<open>The end of \<open>ftl_write\<close>, once the merge buffer has room.\<close>

lemma wp_write_move:
  assumes inv: "ftl_inv s vol st" and isa: "isa_active s < SECTORS_PER_PAGE" and la: "la < N_LAS"
    and w: "wcnt s < MAX_WCNT"
  shows "wp create_one_delta_chkpt_when_delta_buf_full (wp (block [append_delta_pair la (active_psa s),
        assign (\<lambda>s. s\<lparr>wcnt := u32 (Suc (wcnt s))\<rparr>)])
      (\<lambda>t. ftl_inv t (vol(la := data)) st \<and> wcnt t = Suc (wcnt s) \<and> gcprog t = gcprog s \<and> gc_frame s t \<and> l2p t la < N_PAS)
      (\<lambda>t. crash_inv t st))
      (\<lambda>t. crash_inv t st) (remapped la data (if la = lsa_gc s then N_LAS else lsa_gc s) s)"
proof -
  let ?r = "remapped la data (if la = lsa_gc s then N_LAS else lsa_gc s) s"
  have base: "ram_inv s" "gc_lsa_ok (enable_gc s) (lsa_gc s) (p2l s) (victim_psa s)" "chkpt_inv s (l2p s) st"
      "same_view (view s) vol" "ipa_active s < PAGES_PER_BLOCK" "space_inv s"
    and merge: "merge_ok (lsas_merge s) (isa_active s) (l2p s) (mk_psa (pba_active s) (ipa_active s) 0)"
    using inv by (simp_all add: ftl_inv_def base_inv_def ram_inv_def)
  have pre: "remap_pre s la" using base isa la by (simp add: remap_pre_def)
  have ram: "ram_inv ?r" by (rule remapped_ram_inv [OF base(1) pre])
  have chk: "chkpt_inv ?r (l2p s) st" using base(3) by (simp add: chkpt_inv_def)
  have view: "same_view (view ?r) (vol(la := data))"
    using base(4) remapped_view [OF merge pre] by (simp add: same_view_def)
  have space: "delta_space (delta_count (pba_delta ?r) (ipa_delta ?r)) (ptr_delta_buf ?r) (wcnt s + gcprog s)"
    and n: "wcnt s + gcprog s < MAX_WCNT + MAX_GCPROG"
    using base(6) w by (simp_all add: space_inv_def)
  note gc = remapped_gc_lsa [OF base(1) pre base(2)]
  note L = wp_log_move [OF ram chk remapped_fields(16) la space n refl]
  show ?thesis
    unfolding wp_block wp_assign
  proof (rule wp_mono [OF L], rule wp_mono)
    fix t assume A: "ram_inv t \<and> chkpt_inv t (l2p t) st \<and> same_ram ?r t
      \<and> delta_space (delta_count (pba_delta t) (ipa_delta t)) (ptr_delta_buf t) (Suc (wcnt s + gcprog s))"
    then have S: "kept ?r t" "p2l t = p2l ?r" "isa_active t = Suc (isa_active s)" "ipa_active t = ipa_active s"
      "usable t = usable s" "invalid t = invalid s" "victim_psa t = victim_psa s" "same_view (view t) (view ?r)"
      by (simp_all add: same_ram_def)
    let ?t = "t\<lparr>wcnt := u32 (Suc (wcnt t))\<rparr>"
    have w': "u32 (Suc (wcnt t)) = Suc (wcnt s)" "gcprog t = gcprog s" "enable_gc t = enable_gc s"
        "lsa_gc t = (if la = lsa_gc s then N_LAS else lsa_gc s)"
      using S(1) w by (simp_all add: kept_def macros)
    have "view ?t = view t" by (simp add: fun_eq_iff view_def)
    then have "same_view (view ?t) (vol(la := data))" using same_view_trans [OF S(8) view] by simp
    moreover have "space_inv ?t"
      using A base(5,6) w isa w' S(3,4,5,6)
      by (simp add: space_inv_def avail_sectors_def macros) arith
    moreover have "ram_inv ?t" "chkpt_inv ?t (l2p ?t) st"
      using A by (simp_all add: ram_inv_def chkpt_inv_def active_psa_def victim_psa_def)
    moreover have "gc_lsa_ok (enable_gc ?t) (lsa_gc ?t) (p2l ?t) (victim_psa ?t)"
      using gc w' S(2,7) by (simp add: victim_psa_def)
    moreover have "l2p ?t la < N_PAS"
      using S(1) active_psa_facts(2) [OF base(1) pre] by (simp add: kept_def)
    moreover have "gc_frame s ?t"
      using gc_frame_moved [OF base(1) pre S(1)] by (simp add: gc_frame_def)
    ultimately show "ftl_inv ?t (vol(la := data)) st \<and> wcnt ?t = Suc (wcnt s) \<and> gcprog ?t = gcprog s \<and> gc_frame s ?t \<and> l2p ?t la < N_PAS"
      using S(4) base(5) w' by (simp add: ftl_inv_def base_inv_def)
  qed auto
qed

lemma wp_ftl_write:
  assumes inv: "ftl_inv s vol st" and la: "la < N_LAS" and w: "wcnt s < MAX_WCNT"
  shows "wp (ftl_write la data)
    (\<lambda>t. ftl_inv t (vol(la := data)) st \<and> wcnt t = Suc (wcnt s) \<and> gcprog t = gcprog s \<and> gc_frame s t \<and> l2p t la < N_PAS)
    (\<lambda>t. crash_inv t st) s"
proof -
  let ?Q = "\<lambda>t. ftl_inv t (vol(la := data)) st \<and> wcnt t = Suc (wcnt s) \<and> gcprog t = gcprog s \<and> gc_frame s t \<and> l2p t la < N_PAS" and ?C = "\<lambda>t. crash_inv t st"
  have move: "wp (block [
       rd (N_LAS + 1) l2p (\<lambda>_. la) (\<lambda>psa_prev. block [
         wr (N_PAS + 1) p2l_update (\<lambda>_. psa_prev) (\<lambda>_. LSA_INVALID),
         vcnts_dec (PSA_TO_PBA psa_prev)]),
       local_var get_active_psa (\<lambda>psa. block [
         wr (N_LAS + 1) l2p_update (\<lambda>_. la) (\<lambda>_. psa),
         wr (N_PAS + 1) p2l_update (\<lambda>_. psa) (\<lambda>_. la),
         vcnts_inc (PSA_TO_PBA psa),
         assign (\<lambda>s. s\<lparr>lsa_gc := (if la = lsa_gc s then N_LAS else lsa_gc s)\<rparr>),
         copy_data_to_merge_buf la (\<lambda>_. data) (\<lambda>_. 0) N_ENTRIES_PER_SECTOR,
         create_one_delta_chkpt_when_delta_buf_full,
         append_delta_pair la psa,
         assign (\<lambda>s. s\<lparr>wcnt := u32 (wcnt s + 1)\<rparr>)])]) ?Q ?C t" (is "wp ?M _ _ _")
    if t: "ftl_inv t vol st" "kept s t" "isa_active t < SECTORS_PER_PAGE" for t
  proof -
    have ram: "ram_inv t" and mo: "map_ok (l2p t) (p2l t)" and ip: "ipa_active t < PAGES_PER_BLOCK"
      using t(1) by (simp_all add: ftl_inv_def base_inv_def ram_inv_def)
    have pre: "remap_pre t la" using t(3) ip la by (simp add: remap_pre_def)
    note A = active_psa_facts [OF ram pre]
    have w': "wcnt t < MAX_WCNT" using t(2) w by (simp add: kept_def)
    have b: "active_psa t < N_PAS + 1" "PSA_TO_PBA (active_psa t) < BLOCKS_TOTAL + 1" "la < N_LAS + 1"
      using A(2,3) la by (simp_all add: PSA_TO_PBA_def macros)
    have i: "isa_active t * N_ENTRIES_PER_SECTOR + N_ENTRIES_PER_SECTOR \<le> N_ENTRIES_PER_PAGE"
      "u32 (isa_active t * N_ENTRIES_PER_SECTOR) = isa_active t * N_ENTRIES_PER_SECTOR"
      "u32 (Suc (isa_active t)) = Suc (isa_active t)"
      using t(3) by (simp_all add: macros)
    have Q: "?Q u" if "ftl_inv u (vol(la := data)) st \<and> wcnt u = Suc (wcnt t) \<and> gcprog u = gcprog t \<and> gc_frame t u \<and> l2p u la < N_PAS" for u
      using that t(2) gc_frame_kept [OF t(2)] by (simp add: kept_def)
    have "wp create_one_delta_chkpt_when_delta_buf_full (wp (block [append_delta_pair la (active_psa t),
        assign (\<lambda>s. s\<lparr>wcnt := u32 (Suc (wcnt s))\<rparr>)]) ?Q ?C) ?C
        (remapped la data (if la = lsa_gc t then N_LAS else lsa_gc t) t)"
      by (rule wp_mono [OF wp_write_move [OF t(1,3) la w']], erule wp_mono) (rule Q, assumption+)
    then show ?thesis
      using l2p_bounds [OF mo la] b i t(3)
      by (simp add: vcg vcnts_dec_def vcnts_inc_def copy_data_to_merge_buf_def get_active_psa_tables A(5)
          remapped_def Let_def LSA_INVALID_def cong: wp_cong if_cong split del: if_split)
  qed
  have "wp persist_merge_buffer_when_full (wp ?M ?Q ?C) ?C t"
    if t: "ftl_inv t vol st" "kept s t" "0 < rdist (usable t) (erasable t)" for t
  proof (rule wp_mono [OF wp_persist_merge_buffer_when_full [OF t(1,3)]])
    fix u assume "ftl_inv u vol st \<and> kept t u \<and> isa_active u < SECTORS_PER_PAGE"
    then show "wp ?M ?Q ?C u" using kept_trans [OF t(2)] by (intro move) blast+
  qed
  then have "wp make_one_erasable_block_free_when_free_blklist_empty
      (wp persist_merge_buffer_when_full (wp ?M ?Q ?C) ?C) ?C s"
    by (intro wp_mono [OF wp_make_one_erasable_block_free_when_free_blklist_empty [OF inv]]) blast+
  then show ?thesis
    using la w by (simp only: ftl_write_def wp_cond wp_block not_le [symmetric] simp_thms if_False)
qed

section \<open>Read\<close>

lemma ftl_inv_read:
  "ftl_inv (s\<lparr>buf_read := x, host_data := y\<rparr>) vol st = ftl_inv s vol st"
  "ftl_inv (s\<lparr>buf_read := x\<rparr>) vol st = ftl_inv s vol st"
  "ftl_inv (s\<lparr>host_data := y\<rparr>) vol st = ftl_inv s vol st"
  by (simp_all add: ftl_inv_defs active_psa_def victim_psa_def space_inv_def avail_sectors_def
      same_view_def view_def)

lemma wp_ftl_read:
  assumes inv: "ftl_inv s vol st" and la: "la < N_LAS"
  shows "wp (ftl_read la) (\<lambda>t. ftl_inv t vol st \<and> (\<forall>o'<N_ENTRIES_PER_SECTOR. host_data t o' = vol la o'))
    (\<lambda>_. False) s"
proof -
  have vol: "vol la o' = view s la o'" if "o' < N_ENTRIES_PER_SECTOR" for o'
    using ftl_invD(9) [OF inv] la that by (simp add: same_view_def)
  have "PSA_TO_PBA (l2p s la) < NUM_PHYSICAL_BLOCKS"
    using l2p_bounds(2) [OF ftl_invD(2) [OF inv] la] by (simp add: macros)
  moreover have isa: "PSA_TO_ISA (l2p s la) \<le> Suc 0" using ISA_less [of "l2p s la"] by linarith
  then have "PSA_TO_ISA (l2p s la) * N_ENTRIES_PER_SECTOR + N_ENTRIES_PER_SECTOR \<le> N_ENTRIES_PER_PAGE"
    by (simp add: macros)
  moreover have "u32 (PSA_TO_ISA (l2p s la) * N_ENTRIES_PER_SECTOR) = PSA_TO_ISA (l2p s la) * N_ENTRIES_PER_SECTOR"
    using isa by (simp add: macros)
  moreover have "PSA_TO_IPA (l2p s la) < PAGES_PER_BLOCK" using IPA_less by (simp add: macros)
  moreover have "N_ENTRIES_PER_SECTOR + N_ENTRIES_PER_SECTOR \<le> N_ENTRIES_PER_PAGE" by (simp add: macros)
  ultimately show ?thesis
    using inv la vol
    by (auto simp: ftl_read_def vcg ftl_inv_read copy_words_apply view_def sector_def cong: wp_cong)
qed

lemma ftl_read_out_of_range: "N_LAS \<le> la \<Longrightarrow> ftl_read la s = Done s"
  by (simp add: ftl_read_def cond_def skip_def)

lemma ftl_write_rejected: "N_LAS \<le> la \<or> MAX_WCNT \<le> wcnt s \<Longrightarrow> ftl_write la data s = Done s"
  by (simp add: ftl_write_def cond_def skip_def)

end
