(* ===== verification/FtlGc.thy ===== *)
theory FtlGc
  imports FtlWrite
begin

text \<open>
  Garbage collection. \<open>ftl_gc_copy\<close> chooses a victim block with the fewest valid sectors,
  relocates one of its sectors per call and retires the block after the last one;
  \<open>ftl_gc_erase\<close> erases a retired block. Neither changes the contents of the disk nor the
  snapshot.
\<close>

section \<open>Relocating a sector\<close>

text \<open>The state in the middle of \<open>ftl_gc_copy\<close>: the current victim sector holds nothing any more.\<close>

definition gc_mid :: "ftl \<Rightarrow> (nat \<Rightarrow> nat \<Rightarrow> nat) \<Rightarrow> (nat \<Rightarrow> nat \<Rightarrow> nat) \<Rightarrow> bool" where
  "gc_mid s vol st \<longleftrightarrow> ram_inv s \<and> chkpt_inv s (l2p s) st \<and> same_view (view s) vol
     \<and> ipa_active s < PAGES_PER_BLOCK \<and> space_inv s \<and> enable_gc s \<noteq> 0
     \<and> (\<forall>la<N_LAS. l2p s la \<noteq> victim_psa s)"

text \<open>The number of sectors that the victim block still holds, and the position in it.\<close>

definition victim_left :: "ftl \<Rightarrow> nat" where
  "victim_left s = card (block_las (l2p s) (pba_gc s))"

definition gc_pos :: "ftl \<Rightarrow> nat" where
  "gc_pos s = ipa_gc s * SECTORS_PER_PAGE + isa_gc s"

lemma victim_facts:
  assumes "ram_inv s"
  shows "PSA_TO_PBA (victim_psa s) = pba_gc s" "PSA_TO_IPA (victim_psa s) = ipa_gc s"
    "PSA_TO_ISA (victim_psa s) = isa_gc s" "victim_psa s < N_PAS" "get_victim_psa s = victim_psa s"
proof -
  have g: "gc_ptr_ok (pba_gc s) (ipa_gc s) (isa_gc s)" using assms by (simp add: ram_inv_def)
  then show "PSA_TO_PBA (victim_psa s) = pba_gc s" "PSA_TO_IPA (victim_psa s) = ipa_gc s"
    "PSA_TO_ISA (victim_psa s) = isa_gc s"
    by (simp_all add: victim_psa_def gc_ptr_ok_def macros)
  show "victim_psa s < N_PAS" using g by (simp add: victim_psa_def gc_ptr_ok_def mk_psa_eq macros)
  then show "get_victim_psa s = victim_psa s"
    by (simp add: get_victim_psa_def victim_psa_def mk_psa_def macros)
qed

lemma gc_sector:
  assumes inv: "ftl_inv s vol st" and en: "enable_gc s \<noteq> 0" and lg: "lsa_gc s < N_LAS"
  shows "l2p s (lsa_gc s) = victim_psa s"
    and "\<And>o'. o' < N_ENTRIES_PER_SECTOR \<Longrightarrow>
      page_data (flash (fl s) (pba_gc s) (ipa_gc s)) (isa_gc s * N_ENTRIES_PER_SECTOR + o') = vol (lsa_gc s) o'"
proof -
  have ram: "ram_inv s" using inv by (simp add: ftl_inv_def base_inv_def)
  note V = victim_facts [OF ram]
  have "p2l s (victim_psa s) = lsa_gc s"
    using inv en by (simp add: ftl_inv_def base_inv_def gc_lsa_ok_def)
  then show l: "l2p s (lsa_gc s) = victim_psa s"
    using ftl_invD(2) [OF inv] V(4) lg by (auto simp: map_ok_def)
  have ip: "ipa_active s < 512" using ftl_invD(7) [OF inv] by (simp add: macros)
  have "l2p s (lsa_gc s) \<noteq> mk_psa (pba_active s) (ipa_active s) i" if "i < 2" for i
    using l V(1) victim_neq_active [OF ram en] ip that by (metis PBA_mk_psa)
  then have merge: "lsa_gc s \<noteq> lsas_merge s 1" "lsa_gc s \<noteq> lsas_merge s 0"
    using merge_psa [OF ftl_invD(5) [OF inv] lg] by (metis one_less_numeral_iff semiring_norm(76) zero_less_numeral)+
  show "page_data (flash (fl s) (pba_gc s) (ipa_gc s)) (isa_gc s * N_ENTRIES_PER_SECTOR + o') = vol (lsa_gc s) o'"
    if "o' < N_ENTRIES_PER_SECTOR" for o'
  proof -
    have "view s (lsa_gc s) o' = vol (lsa_gc s) o'"
      using ftl_invD(9) [OF inv] lg that by (simp add: same_view_def)
    then show ?thesis using merge l V by (simp add: view_def sector_def)
  qed
qed

text \<open>One sector of the victim block was relocated.\<close>

definition gc_moved :: "ftl \<Rightarrow> ftl \<Rightarrow> bool" where
  "gc_moved s t \<longleftrightarrow> wcnt t = wcnt s \<and> gcprog t = Suc (gcprog s) \<and> gc_frame s t \<and> victim_left s = Suc (victim_left t)"

lemma gc_moved_kept: "kept s t \<Longrightarrow> gc_moved t u \<Longrightarrow> gc_moved s u"
  using gc_frame_kept [of s t u] by (auto simp: gc_moved_def kept_def victim_left_def)

lemma victim_left_moved:
  assumes ram: "ram_inv s" and pre: "remap_pre s la" and en: "enable_gc s \<noteq> 0" and la: "l2p s la = victim_psa s"
    and kept: "kept (remapped la d lg s) t"
  shows "victim_left s = Suc (victim_left t)"
proof -
  have "PSA_TO_PBA (active_psa s) \<noteq> pba_gc s"
    using active_psa_facts(3) [OF ram pre] victim_neq_active [OF ram en] by simp
  moreover have "la < N_LAS" using pre by (simp add: remap_pre_def)
  ultimately have "block_las (l2p t) (pba_gc t) = block_las (l2p s) (pba_gc s) - {la}"
    using kept by (simp add: kept_def block_las_remap)
  moreover have "la \<in> block_las (l2p s) (pba_gc s)"
    using \<open>la < N_LAS\<close> la victim_facts(1) [OF ram] by (simp add: block_las_def)
  ultimately show ?thesis
    using card_Suc_Diff1 [of "block_las (l2p s) (pba_gc s)" la] by (simp add: victim_left_def)
qed

lemma wp_gc_move:
  assumes inv: "ftl_inv s vol st" and isa: "isa_active s < SECTORS_PER_PAGE" and en: "enable_gc s \<noteq> 0"
    and la: "lsa_gc s < N_LAS" and w: "gcprog s < MAX_GCPROG"
    and d: "\<And>o'. o' < N_ENTRIES_PER_SECTOR \<Longrightarrow> data o' = vol (lsa_gc s) o'"
  shows "wp create_one_delta_chkpt_when_delta_buf_full (wp (block [
        local_var lsa_gc (\<lambda>la. append_delta_pair la (active_psa s)),
        assign (\<lambda>s. s\<lparr>gcprog := u32 (Suc (gcprog s))\<rparr>)])
      (\<lambda>t. gc_mid t vol st \<and> gc_moved s t) (\<lambda>t. crash_inv t st))
      (\<lambda>t. crash_inv t st) (remapped (lsa_gc s) data (lsa_gc s) s)"
proof -
  let ?la = "lsa_gc s" let ?r = "remapped ?la data ?la s"
  have base: "ram_inv s" "chkpt_inv s (l2p s) st" "same_view (view s) vol" "ipa_active s < PAGES_PER_BLOCK"
      "space_inv s"
    and merge: "merge_ok (lsas_merge s) (isa_active s) (l2p s) (mk_psa (pba_active s) (ipa_active s) 0)"
    using inv by (simp_all add: ftl_inv_def base_inv_def ram_inv_def)
  have pre: "remap_pre s ?la" using base isa la by (simp add: remap_pre_def)
  have ram: "ram_inv ?r" by (rule remapped_ram_inv [OF base(1) pre])
  have chk: "chkpt_inv ?r (l2p s) st" using base(2) by (simp add: chkpt_inv_def)
  have view: "same_view (view ?r) vol"
    using base(3) remapped_view [OF merge pre] d by (simp add: same_view_def)
  have space: "delta_space (delta_count (pba_delta ?r) (ipa_delta ?r)) (ptr_delta_buf ?r) (wcnt s + gcprog s)"
    and n: "wcnt s + gcprog s < MAX_WCNT + MAX_GCPROG"
    using base(5) w by (simp_all add: space_inv_def)
  have c: "wp (local_var lsa_gc (\<lambda>la. append_delta_pair la (active_psa s))) Q C t
      = wp (append_delta_pair ?la (active_psa s)) Q C t" if "same_ram ?r t" for t Q C
    using that by (simp add: wp_local_var same_ram_def kept_def)
  note L = wp_log_move [where c = "local_var lsa_gc (\<lambda>la. append_delta_pair la (active_psa s))",
      OF ram chk remapped_fields(16) la space n]
  note A = active_psa_facts [OF base(1) pre]
  have ne: "victim_psa s \<noteq> active_psa s"
    using victim_facts(1) [OF base(1)] A(3) victim_neq_active [OF base(1) en] by auto
  have "p2l s (victim_psa s) = ?la" using inv en by (simp add: ftl_inv_def base_inv_def gc_lsa_ok_def)
  then have only: "l2p s x \<noteq> victim_psa s" if "x < N_LAS" "x \<noteq> ?la" for x
    using ftl_invD(2) [OF inv] victim_facts(4) [OF base(1)] that by (auto simp: map_ok_def)
  show ?thesis
    unfolding wp_block wp_assign
  proof (rule wp_mono [OF L], erule c, rule wp_mono)
    fix t assume A: "ram_inv t \<and> chkpt_inv t (l2p t) st \<and> same_ram ?r t
      \<and> delta_space (delta_count (pba_delta t) (ipa_delta t)) (ptr_delta_buf t) (Suc (wcnt s + gcprog s))"
    then have S: "kept ?r t" "isa_active t = Suc (isa_active s)" "ipa_active t = ipa_active s"
      "usable t = usable s" "invalid t = invalid s" "victim_psa t = victim_psa s" "same_view (view t) (view ?r)"
      by (simp_all add: same_ram_def)
    let ?t = "t\<lparr>gcprog := u32 (Suc (gcprog t))\<rparr>"
    have w': "u32 (Suc (gcprog t)) = Suc (gcprog s)" "wcnt t = wcnt s" "enable_gc t \<noteq> 0"
        "l2p t = (l2p s)(?la := active_psa s)"
      using S(1) w en by (simp_all add: kept_def macros)
    have "view ?t = view t" by (simp add: fun_eq_iff view_def)
    then have "same_view (view ?t) vol" using same_view_trans [OF S(7) view] by simp
    moreover have "space_inv ?t"
      using A base(4,5) w isa w' S(2-5)
      by (simp add: space_inv_def avail_sectors_def macros) arith
    moreover have "ram_inv ?t" "chkpt_inv ?t (l2p ?t) st"
      using A by (simp_all add: ram_inv_def chkpt_inv_def active_psa_def victim_psa_def)
    moreover have "l2p ?t x \<noteq> victim_psa ?t" if "x < N_LAS" for x
      using only [OF that] ne w'(4) S(6) by (simp add: victim_psa_def)
    moreover have "gc_moved s ?t"
      using gc_frame_moved [OF base(1) pre S(1)] w' S(1)
        victim_left_moved [OF base(1) pre en gc_sector(1) [OF inv en la] S(1)]
      by (simp add: gc_moved_def gc_frame_def victim_left_def)
    ultimately show "gc_mid ?t vol st \<and> gc_moved s ?t"
      using S(3) base(4) w'(3) by (simp add: gc_mid_def)
  qed auto
qed

lemma copy_words_offset: "copy_words d src i n dst = copy_words d (\<lambda>o'. src (i + o')) 0 n dst"
  by (simp add: copy_words_def)

lemma ftl_inv_buf_gc: "ftl_inv (s\<lparr>buf_gc := x\<rparr>) vol st = ftl_inv s vol st"
  by (simp add: ftl_inv_defs active_psa_def victim_psa_def space_inv_def avail_sectors_def same_view_def view_def)

lemma wp_gc_copy_sector:
  assumes inv: "ftl_inv s vol st" and en: "enable_gc s \<noteq> 0" and lg: "lsa_gc s < N_LAS"
    and w: "gcprog s < MAX_GCPROG"
  shows "wp gc_copy_sector (\<lambda>t. gc_mid t vol st \<and> gc_moved s t) (\<lambda>t. crash_inv t st) s"
proof -
  let ?Q = "\<lambda>t. gc_mid t vol st \<and> gc_moved s t" and ?C = "\<lambda>t. crash_inv t st"
  let ?s = "s\<lparr>buf_gc := page_data (flash (fl s) (pba_gc s) (ipa_gc s))\<rparr>"
  have inv': "ftl_inv ?s vol st" using inv by (simp add: ftl_inv_buf_gc)
  have move: "wp (block [
     rd (N_LAS + 1) l2p lsa_gc (\<lambda>psa_gc. block [
       wr (N_PAS + 1) p2l_update (\<lambda>_. psa_gc) (\<lambda>_. LSA_INVALID),
       vcnts_dec (PSA_TO_PBA psa_gc)]),
     local_var get_active_psa (\<lambda>psa_active. block [
       wr (N_LAS + 1) l2p_update lsa_gc (\<lambda>_. psa_active),
       wr (N_PAS + 1) p2l_update (\<lambda>_. psa_active) lsa_gc,
       vcnts_inc (PSA_TO_PBA psa_active),
       local_var lsa_gc (\<lambda>la. copy_data_to_merge_buf la buf_gc
         (\<lambda>s. u32 (isa_gc s * N_ENTRIES_PER_SECTOR)) N_ENTRIES_PER_PAGE),
       create_one_delta_chkpt_when_delta_buf_full,
       local_var lsa_gc (\<lambda>la. append_delta_pair la psa_active),
       assign (\<lambda>s. s\<lparr>gcprog := u32 (gcprog s + 1)\<rparr>)])]) ?Q ?C t" (is "wp ?M _ _ _")
    if t: "ftl_inv t vol st" "kept ?s t" "isa_active t < SECTORS_PER_PAGE" for t
  proof -
    have k: "enable_gc t \<noteq> 0" "lsa_gc t < N_LAS" "gcprog t < MAX_GCPROG" "lsa_gc t = lsa_gc s"
        "buf_gc t = page_data (flash (fl s) (pba_gc s) (ipa_gc s))" "isa_gc t = isa_gc s"
      using t(2) en lg w by (simp_all add: kept_def)
    have ram: "ram_inv t" and mo: "map_ok (l2p t) (p2l t)" and ip: "ipa_active t < PAGES_PER_BLOCK"
      and gp: "gc_ptr_ok (pba_gc t) (ipa_gc t) (isa_gc t)"
      using t(1) by (simp_all add: ftl_inv_def base_inv_def ram_inv_def)
    have pre: "remap_pre t (lsa_gc t)" using t(3) ip k(2) by (simp add: remap_pre_def)
    note A = active_psa_facts [OF ram pre]
    have b: "active_psa t < N_PAS + 1" "PSA_TO_PBA (active_psa t) < BLOCKS_TOTAL + 1" "lsa_gc t < N_LAS + 1"
      using A(2,3) k(2) by (simp_all add: PSA_TO_PBA_def macros)
    have i: "isa_active t * N_ENTRIES_PER_SECTOR + N_ENTRIES_PER_SECTOR \<le> N_ENTRIES_PER_PAGE"
      "u32 (isa_active t * N_ENTRIES_PER_SECTOR) = isa_active t * N_ENTRIES_PER_SECTOR"
      "u32 (Suc (isa_active t)) = Suc (isa_active t)"
      "isa_gc t * N_ENTRIES_PER_SECTOR + N_ENTRIES_PER_SECTOR \<le> N_ENTRIES_PER_PAGE"
      "u32 (isa_gc t * N_ENTRIES_PER_SECTOR) = isa_gc t * N_ENTRIES_PER_SECTOR"
      using t(3) gp by (simp_all add: gc_ptr_ok_def macros)
    let ?d = "\<lambda>o'. buf_gc t (isa_gc t * N_ENTRIES_PER_SECTOR + o')"
    have d: "?d o' = vol (lsa_gc t) o'" if "o' < N_ENTRIES_PER_SECTOR" for o'
      using gc_sector(2) [OF inv en lg that] k(4,5,6) by simp
    have "kept ?s t \<Longrightarrow> gc_moved t u \<Longrightarrow> gc_moved s u" for u
      using gc_moved_kept [of ?s t u] by (simp add: gc_moved_def gc_frame_def victim_left_def)
    then have Q: "?Q u" if "gc_mid u vol st \<and> gc_moved t u" for u using that t(2) by blast
    have M: "wp create_one_delta_chkpt_when_delta_buf_full (wp (block [
        local_var lsa_gc (\<lambda>la. append_delta_pair la (active_psa t)),
        assign (\<lambda>s. s\<lparr>gcprog := u32 (Suc (gcprog s))\<rparr>)]) ?Q ?C) ?C (remapped (lsa_gc t) ?d (lsa_gc t) t)"
      by (rule wp_mono [OF wp_gc_move [where data = ?d, OF t(1,3) k(1,2,3) d]], assumption, erule wp_mono)
         (rule Q, assumption+)
    show ?thesis
      using M l2p_bounds [OF mo k(2)] b i t(3)
      by (simp add: vcg vcnts_dec_def vcnts_inc_def copy_data_to_merge_buf_def get_active_psa_tables A(5)
          copy_words_offset [of _ "buf_gc t"]
          remapped_def Let_def LSA_INVALID_def cong: wp_cong if_cong split del: if_split)
  qed
  have "wp persist_merge_buffer_when_full (wp ?M ?Q ?C) ?C t"
    if t: "ftl_inv t vol st" "kept ?s t" "0 < rdist (usable t) (erasable t)" for t
  proof (rule wp_mono [OF wp_persist_merge_buffer_when_full [OF t(1,3)]])
    fix u assume "ftl_inv u vol st \<and> kept t u \<and> isa_active u < SECTORS_PER_PAGE"
    then show "wp ?M ?Q ?C u" using kept_trans [OF t(2)] by (intro move) blast+
  qed
  then have "wp make_one_erasable_block_free_when_free_blklist_empty
      (wp persist_merge_buffer_when_full (wp ?M ?Q ?C) ?C) ?C ?s"
    by (intro wp_mono [OF wp_make_one_erasable_block_free_when_free_blklist_empty [OF inv']]) blast+
  moreover have "pba_gc s < NUM_PHYSICAL_BLOCKS" "ipa_gc s < PAGES_PER_BLOCK"
    using inv by (simp_all add: ftl_inv_def base_inv_def ram_inv_def gc_ptr_ok_def macros)
  ultimately show ?thesis
    by (simp only: gc_copy_sector_def wp_block wp_read_page simp_thms)
qed

section \<open>Advancing to the next sector\<close>

lemma gc_mid_start:
  assumes inv: "ftl_inv s vol st" and en: "enable_gc s \<noteq> 0" and lg: "\<not> lsa_gc s < N_LAS"
  shows "gc_mid s vol st"
proof -
  have ram: "ram_inv s" and p: "p2l s (victim_psa s) = lsa_gc s"
    using inv en by (simp_all add: ftl_inv_def base_inv_def gc_lsa_ok_def)
  have "l2p s la \<noteq> victim_psa s" if "la < N_LAS" for la
    using ftl_invD(2) [OF inv] victim_facts(4) [OF ram] that p lg by (auto simp: map_ok_def)
  then show ?thesis using inv en by (simp add: gc_mid_def ftl_inv_def base_inv_def)
qed

lemma gc_mid_next:
  assumes mid: "gc_mid s vol st" and vp: "mk_psa (pba_gc s) p i = Suc (victim_psa s)"
    and b: "p < PAGES_PER_BLOCK" "i < SECTORS_PER_PAGE"
  shows "ftl_inv (s\<lparr>isa_gc := i, ipa_gc := p, lsa_gc := p2l s (mk_psa (pba_gc s) p i)\<rparr>) vol st"
    (is "ftl_inv ?t vol st")
proof -
  have "view ?t = view s" by (simp add: view_def fun_eq_iff)
  moreover have "gc_left_ok (enable_gc s) (l2p s) (pba_gc s) (victim_psa s)"
      "gc_ptr_ok (pba_gc s) (ipa_gc s) (isa_gc s)"
    using mid by (simp_all add: gc_mid_def ram_inv_def)
  moreover have "Suc (victim_psa s) \<le> l2p s la" if "la < N_LAS" "victim_psa s \<le> l2p s la" for la
    using mid that by (auto simp: gc_mid_def Suc_le_eq le_neq_implies_less)
  ultimately have "view ?t = view s" "gc_left_ok (enable_gc s) (l2p s) (pba_gc s) (Suc (victim_psa s))"
      "gc_ptr_ok (pba_gc s) p i"
    using b by (simp_all add: gc_left_ok_def gc_ptr_ok_def)
  then show ?thesis
    using mid vp
    by (simp add: gc_mid_def ftl_inv_defs active_psa_def victim_psa_def space_inv_def avail_sectors_def
        gc_lsa_ok_def)
qed

text \<open>After its last sector the victim block joins the invalid blocks.\<close>

lemma gc_mid_empty:
  assumes mid: "gc_mid s vol st" and vp: "Suc (victim_psa s) = mk_psa (Suc (pba_gc s)) 0 0"
  shows "block_las (l2p s) (pba_gc s) = {}"
proof -
  have "PSA_TO_PBA (l2p s la) \<noteq> pba_gc s" if la: "la < N_LAS" for la
  proof
    assume pb: "PSA_TO_PBA (l2p s la) = pba_gc s"
    then have "victim_psa s \<le> l2p s la" "l2p s la \<noteq> victim_psa s"
      using mid la by (simp_all add: gc_left_ok_def gc_mid_def ram_inv_def)
    moreover have "l2p s la < (pba_gc s + 1) * 1024" using pb by (simp add: PSA_TO_PBA_eq)
    ultimately show False using vp by (simp add: mk_psa_eq)
  qed
  then show ?thesis by (auto simp: block_las_def)
qed

lemma gc_mid_done:
  assumes mid: "gc_mid s vol st" and vp: "Suc (victim_psa s) = mk_psa (Suc (pba_gc s)) 0 0"
  shows "ftl_inv (s\<lparr>isa_gc := 0, used := BLK_LIST_NEXT (used s), ipa_gc := 0, enable_gc := 0, lsa_gc := x\<rparr>) vol st"
    (is "ftl_inv ?t vol st")
proof -
  have I: "blocks_ok (blk_list s) (usable s) (erasable s) (invalid s) (used s) (active s) (pba_active s)"
      "free_ok (l2p s) (blk_list s) (usable s) (used s)"
      "victim_ok (enable_gc s) (pba_gc s) (blk_list s) (usable s) (used s)"
      "gc_left_ok (enable_gc s) (l2p s) (pba_gc s) (victim_psa s)" "gc_ptr_ok (pba_gc s) (ipa_gc s) (isa_gc s)"
    and en: "enable_gc s \<noteq> 0"
    using mid by (simp_all add: gc_mid_def ram_inv_def)
  have v: "rdist (usable s) (used s) < BLOCKS_DATA - 1"
      "pba_gc s = ring (blk_list s) (usable s) (rdist (usable s) (used s))"
    using I(3) en by (simp_all add: victim_ok_def)
  note R = blocks_ok_retire [OF I(1) v(1)]
  have none: "PSA_TO_PBA (l2p s la) \<noteq> pba_gc s" if "la < N_LAS" for la
    using gc_mid_empty [OF mid vp] that by (auto simp: block_las_def)
  have "ring (blk_list s) (usable s) k \<noteq> PSA_TO_PBA (l2p s la)"
    if "la < N_LAS" "k < Suc (rdist (usable s) (used s))" for la k
    using I(2) none [OF that(1)] that v(2) by (cases "k = rdist (usable s) (used s)") (auto simp: free_ok_def)
  then have "free_ok (l2p s) (blk_list s) (usable s) (BLK_LIST_NEXT (used s))"
    by (simp add: free_ok_def R(2))
  moreover have "view ?t = view s" by (simp add: view_def fun_eq_iff)
  moreover have "gc_ptr_ok (pba_gc s) 0 0" using I(5) by (simp add: gc_ptr_ok_def macros)
  ultimately show ?thesis
    using mid R(1)
    by (simp add: gc_mid_def ftl_inv_defs active_psa_def victim_psa_def space_inv_def avail_sectors_def
        gc_lsa_ok_def victim_ok_def gc_left_ok_def)
qed

lemma get_victim_psa_eq:
  assumes "pba_gc s < BLOCKS_TOTAL" "ipa_gc s < PAGES_PER_BLOCK" "isa_gc s < SECTORS_PER_PAGE"
  shows "get_victim_psa s = mk_psa (pba_gc s) (ipa_gc s) (isa_gc s)"
    and "mk_psa (pba_gc s) (ipa_gc s) (isa_gc s) < N_PAS + 1"
  using assms by (simp_all add: get_victim_psa_def mk_psa_eq macros)

lemma wp_load_lsa_gc:
  assumes "pba_gc t < BLOCKS_TOTAL" "ipa_gc t < PAGES_PER_BLOCK" "isa_gc t < SECTORS_PER_PAGE"
  shows "wp load_lsa_gc Q C t = Q (t\<lparr>lsa_gc := p2l t (mk_psa (pba_gc t) (ipa_gc t) (isa_gc t))\<rparr>)"
  using get_victim_psa_eq [OF assms] by (simp add: load_lsa_gc_def vcg)

text \<open>The position moves on, or the block is empty and joins the invalid ones.\<close>

definition gc_advanced :: "ftl \<Rightarrow> ftl \<Rightarrow> bool" where
  "gc_advanced s t \<longleftrightarrow> wcnt t = wcnt s \<and> gcprog t = gcprog s \<and> l2p t = l2p s \<and> invalid t = invalid s \<and> pba_gc t = pba_gc s
     \<and> (if enable_gc t = 0 then used t = BLK_LIST_NEXT (used s) \<and> victim_left t = 0
        else used t = used s \<and> gc_pos t = Suc (gc_pos s))"

lemma wp_gc_advance:
  assumes mid: "gc_mid s vol st"
  shows "wp gc_advance (\<lambda>t. ftl_inv t vol st \<and> gc_advanced s t) C s"
proof -
  have g: "pba_gc s < 1604" "ipa_gc s < 512" "isa_gc s < 2"
    using mid by (simp_all add: gc_mid_def ram_inv_def gc_ptr_ok_def macros)
  have vp: "victim_psa s = mk_psa (pba_gc s) (ipa_gc s) (isa_gc s)" by (simp add: victim_psa_def)
  have en: "enable_gc s \<noteq> 0" using mid by (simp add: gc_mid_def)
  consider (sector) "isa_gc s = 0" | (page) "isa_gc s = 1" "Suc (ipa_gc s) < 512"
    | (last) "isa_gc s = 1" "ipa_gc s = 511" using g by linarith
  then show ?thesis
  proof cases
    case sector
    then have "mk_psa (pba_gc s) (ipa_gc s) 1 = Suc (victim_psa s)" by (simp add: vp mk_psa_eq)
    from gc_mid_next [OF mid this] show ?thesis
      using sector g en
      by (simp add: gc_advance_def wp_load_lsa_gc vcg macros gc_advanced_def gc_pos_def cong: wp_cong)
  next
    case page
    then have "mk_psa (pba_gc s) (Suc (ipa_gc s)) 0 = Suc (victim_psa s)" by (simp add: vp mk_psa_eq)
    from gc_mid_next [OF mid this] show ?thesis
      using page g en
      by (simp add: gc_advance_def wp_load_lsa_gc vcg macros gc_advanced_def gc_pos_def cong: wp_cong)
  next
    case last
    then have "Suc (victim_psa s) = mk_psa (Suc (pba_gc s)) 0 0" by (simp add: vp mk_psa_eq)
    from gc_mid_done [OF mid this] gc_mid_empty [OF mid this] show ?thesis
      using last g
      by (simp add: gc_advance_def wp_load_lsa_gc make_victim_block_invalid_def vcg macros gc_advanced_def
          victim_left_def cong: wp_cong)
  qed
qed

section \<open>Choosing a victim\<close>

text \<open>
  The loop visits the used blocks, from position \<open>rdist u (used s)\<close> of the ring to the one
  before the active block, and keeps the index of a block with the fewest valid sectors.
\<close>

definition victim_choice :: "ftl \<Rightarrow> nat \<Rightarrow> nat \<Rightarrow> bool" where
  "victim_choice s iv hi \<longleftrightarrow> iv < BLOCKS_DATA \<and> iv \<noteq> active s \<and> rdist (usable s) (used s) \<le> rdist (usable s) iv
     \<and> (\<forall>k. rdist (usable s) (used s) \<le> k \<and> k < hi \<longrightarrow>
          vcnts s (blk_list s iv) \<le> vcnts s (ring (blk_list s) (usable s) k))"

lemma wp_find_index_of_victim_block_loop:
  assumes blk: "blocks_ok (blk_list s) (usable s) (erasable s) (invalid s) (used s) (active s) (pba_active s)"
    and d: "used s \<noteq> active s"
    and Q: "\<And>iv. victim_choice s iv (BLOCKS_DATA - 1) \<Longrightarrow>
      Q (s\<lparr>idx_victim := iv, min_vcnt := vcnts s (blk_list s iv), idx := active s\<rparr>)"
  shows "wp find_index_of_victim_block_loop Q C
    (s\<lparr>idx := used s, idx_victim := used s, min_vcnt := vcnts s (blk_list s (used s))\<rparr>)"
proof -
  note b = blocks_okD [OF blk]
  let ?u = "usable s" and ?bl = "blk_list s" and ?D = "rdist (usable s) (used s)"
  let ?st = "\<lambda>ix iv. s\<lparr>idx_victim := iv, min_vcnt := vcnts s (?bl iv), idx := ix\<rparr>"
  have start: "s\<lparr>idx := used s, idx_victim := used s, min_vcnt := vcnts s (?bl (used s))\<rparr> = ?st (used s) (used s)"
    by (cases s) simp
  let ?I = "\<lambda>n t. \<exists>ix iv. t = ?st ix iv \<and> ix < BLOCKS_DATA \<and> rdist ?u ix = ?D + n \<and> victim_choice s iv (?D + n)"
  have act: "rdist ?u (active s) = BLOCKS_DATA - 1" using rdist_active [OF b(5)] b(6) by simp
  have "?D \<noteq> BLOCKS_DATA - 1" using rdist_inj [OF b(1,4,5)] d act by auto
  moreover have "?D < BLOCKS_DATA" by simp
  ultimately have D: "?D < BLOCKS_DATA - 1" by linarith
  show ?thesis
    unfolding find_index_of_victim_block_loop_def start
  proof (rule wp_while_count [where I = ?I and N = "BLOCKS_DATA - 1 - ?D"])
    have "victim_choice s (used s) (?D + 0)" using b(4) d by (simp add: victim_choice_def)
    then show "?I 0 (?st (used s) (used s))"
      using b(4) by (intro exI [of _ "used s"]) simp
  next
    fix n t assume n: "n < BLOCKS_DATA - 1 - ?D" and "?I n t"
    then obtain ix iv where t: "t = ?st ix iv" and ix: "ix < BLOCKS_DATA" "rdist ?u ix = ?D + n"
      and v: "victim_choice s iv (?D + n)" by blast
    have ne: "ix \<noteq> active s" using ix n act by auto
    have bd: "?bl ix < BLOCKS_TOTAL + 1" using b(11) [OF ix(1)] by simp
    have lt: "rdist ?u ix < BLOCKS_DATA - 1" using ix(2) n by linarith
    have nx: "rdist ?u (BLK_LIST_NEXT ix) = ?D + Suc n" "BLK_LIST_NEXT ix < BLOCKS_DATA"
      using rdist_next [OF b(1) ix(1) lt] ix by simp_all
    have rg: "ring ?bl ?u (?D + n) = ?bl ix" using ring_rdist [OF b(1) ix(1), of ?bl] ix(2) by simp
    have keep: "victim_choice s iv (?D + Suc n)" if "\<not> vcnts s (?bl ix) < vcnts s (?bl iv)"
      using v that rg by (auto simp: victim_choice_def less_Suc_eq)
    have new: "victim_choice s ix (?D + Suc n)" if less: "vcnts s (?bl ix) < vcnts s (?bl iv)"
    proof -
      have "vcnts s (?bl ix) \<le> vcnts s (ring ?bl ?u k)" if k: "?D \<le> k" "k < ?D + Suc n" for k
      proof (cases "k = ?D + n")
        case False
        then have "vcnts s (?bl iv) \<le> vcnts s (ring ?bl ?u k)" using v k by (simp add: victim_choice_def)
        then show ?thesis using less by linarith
      qed (simp add: rg)
      then show ?thesis using ix ne by (simp add: victim_choice_def)
    qed
    show "idx t \<noteq> active t \<and> wp find_index_of_victim_block_body (?I (Suc n)) C t"
    proof (cases "vcnts s (?bl ix) < vcnts s (?bl iv)")
      case True
      then have "?I (Suc n) (?st (BLK_LIST_NEXT ix) ix)" using nx new by blast
      then show ?thesis
        using True ne ix(1) bd by (simp add: t find_index_of_victim_block_body_def vcg cong: wp_cong)
    next
      case False
      then have "?I (Suc n) (?st (BLK_LIST_NEXT ix) iv)" using nx keep by blast
      then show ?thesis
        using False ne ix(1) bd by (simp add: t find_index_of_victim_block_body_def vcg cong: wp_cong)
    qed
  next
    fix t assume "?I (BLOCKS_DATA - 1 - ?D) t"
    then obtain ix iv where t: "t = ?st ix iv" and ix: "ix < BLOCKS_DATA" "rdist ?u ix = BLOCKS_DATA - 1"
      and v: "victim_choice s iv (BLOCKS_DATA - 1)" using D by auto
    have "ix = active s" using rdist_inj [OF b(1) ix(1) b(5)] ix act by simp
    then show "\<not> idx t \<noteq> active t \<and> Q t" using Q [OF v] by (simp add: t)
  qed
qed

lemma wp_choose_victim_block:
  assumes blk: "blocks_ok (blk_list s) (usable s) (erasable s) (invalid s) (used s) (active s) (pba_active s)"
    and d: "used s \<noteq> active s"
    and Q: "\<And>iv. victim_choice s iv (BLOCKS_DATA - 1) \<Longrightarrow>
      Q (s\<lparr>idx_victim := iv, min_vcnt := vcnts s (blk_list s iv), idx := active s,
        blk_list := (blk_list s)(iv := blk_list s (used s), used s := blk_list s iv),
        pba_gc := blk_list s iv\<rparr>)"
  shows "wp choose_victim_block Q C s"
proof -
  note b = blocks_okD [OF blk]
  let ?R = "wp (block [rd BLOCKS_DATA blk_list idx_victim (\<lambda>pba_victim. block [
       rd BLOCKS_DATA blk_list used (\<lambda>b. wr BLOCKS_DATA blk_list_update idx_victim (\<lambda>_. b)),
       wr BLOCKS_DATA blk_list_update used (\<lambda>_. pba_victim)])])
      (wp (block [rd BLOCKS_DATA blk_list used (\<lambda>b. assign (\<lambda>s. s\<lparr>pba_gc := b\<rparr>))]) Q C) C"
  have "wp find_index_of_victim_block_loop ?R C
    (s\<lparr>idx := used s, idx_victim := used s, min_vcnt := vcnts s (blk_list s (used s))\<rparr>)"
  proof (rule wp_find_index_of_victim_block_loop [OF blk d])
    fix iv assume v: "victim_choice s iv (BLOCKS_DATA - 1)"
    then have "iv < BLOCKS_DATA" by (simp add: victim_choice_def)
    then show "?R (s\<lparr>idx_victim := iv, min_vcnt := vcnts s (blk_list s iv), idx := active s\<rparr>)"
      using Q [OF v] b(4) by (simp add: vcg cong: wp_cong)
  qed
  moreover have "blk_list s (used s) < BLOCKS_TOTAL + 1" using b(11) [OF b(4)] by simp
  ultimately show ?thesis
    using b(4) by (simp add: choose_victim_block_def swap_victim_block_to_head_def vcg cong: wp_cong)
qed

lemma gc_started:
  assumes inv: "ftl_inv s vol st" and iv: "victim_choice s iv n" and d: "used s \<noteq> active s"
  defines "bl \<equiv> (blk_list s)(iv := blk_list s (used s), used s := blk_list s iv)"
  shows "ftl_inv (s\<lparr>ipa_gc := 0, isa_gc := 0, enable_gc := 1, idx_victim := iv, min_vcnt := mv, idx := ix,
      blk_list := bl, pba_gc := blk_list s iv, lsa_gc := p2l s (mk_psa (blk_list s iv) 0 0)\<rparr>) vol st"
    (is "ftl_inv ?t vol st")
proof -
  note I = ftl_invD [OF inv]
  note b = blocks_okD [OF I(1)]
  let ?u = "usable s" and ?d = "used s"
  have v: "iv < BLOCKS_DATA" "iv \<noteq> active s" "rdist ?u ?d \<le> rdist ?u iv"
    using iv by (simp_all add: victim_choice_def)
  note S = blocks_ok_swap [OF I(1) v(3,1,2) d, folded bl_def]
  have act: "rdist ?u (active s) = BLOCKS_DATA - 1" using rdist_active [OF b(5)] b(6) by simp
  have "rdist ?u ?d \<noteq> BLOCKS_DATA - 1" using rdist_inj [OF b(1,4,5)] d act by auto
  moreover have "rdist ?u ?d < BLOCKS_DATA" by simp
  ultimately have lt: "rdist ?u ?d < BLOCKS_DATA - 1" by linarith
  have r: "ring bl ?u k = ring (blk_list s) ?u k" if "k < rdist ?u ?d" for k by (rule S(2) [OF that])
  have le: "rdist ?u (erasable s) \<le> rdist ?u ?d" "rdist ?u (invalid s) \<le> rdist ?u ?d" using b(7,8) by linarith+
  have "blocks_ok bl ?u (erasable s) (invalid s) ?d (active s) (pba_active s)" by (rule S(1))
  moreover have "free_ok (l2p s) bl ?u ?d" using I(3) r by (simp add: free_ok_def)
  moreover have "pages_ok (flash (fl s)) bl ?u (erasable s) (pba_active s) (ipa_active s)"
    using I(4) r le(1) by (simp add: pages_ok_def)
  moreover have "stable_free (fl s) bl ?u (invalid s)" using I(11) r le(2) by (simp add: stable_free_def)
  moreover have "gc_ptr_ok (blk_list s iv) 0 0" using b(11) [OF v(1)] by (simp add: gc_ptr_ok_def macros)
  moreover have "victim_ok 1 (blk_list s iv) bl ?u ?d"
    using lt ring_rdist [OF b(1,4), of bl] by (simp add: victim_ok_def bl_def)
  moreover have "gc_left_ok 1 (l2p s) (blk_list s iv) (mk_psa (blk_list s iv) 0 0)"
    by (auto simp: gc_left_ok_def mk_psa_eq PSA_TO_PBA_eq)
  moreover have "view ?t = view s" by (simp add: view_def fun_eq_iff)
  ultimately show ?thesis
    using inv by (simp add: ftl_inv_defs active_psa_def victim_psa_def space_inv_def avail_sectors_def gc_lsa_ok_def)
qed

text \<open>
  The victim has at most as many valid sectors as the average block: with \<open>N_LAS\<close> logical
  sectors and at least \<open>THRESHOLD_GC\<close> used blocks that is 748.
\<close>

definition VICTIM_MAX :: nat where
  "VICTIM_MAX = N_LAS div THRESHOLD_GC"

lemma VICTIM_MAX_val [macros]: "VICTIM_MAX = 748"
  by (simp add: VICTIM_MAX_def macros)

lemma victim_choice_le:
  assumes blk: "blocks_ok (blk_list s) (usable s) (erasable s) (invalid s) (used s) (active s) (pba_active s)"
    and vc: "vcnt_ok (l2p s) (vcnts s)" and v: "victim_choice s iv (BLOCKS_DATA - 1)"
    and n: "THRESHOLD_GC \<le> BLOCKS_DATA - 1 - rdist (usable s) (used s)"
  shows "card (block_las (l2p s) (blk_list s iv)) \<le> VICTIM_MAX"
proof -
  note b = blocks_okD [OF blk]
  let ?K = "{rdist (usable s) (used s)..<BLOCKS_DATA - 1}" and ?r = "ring (blk_list s) (usable s)"
  let ?A = "\<lambda>k. block_las (l2p s) (?r k)" and ?m = "card (block_las (l2p s) (blk_list s iv))"
  have cnt: "vcnts s x = card (block_las (l2p s) x)" if "PBA_DATA \<le> x" "x < BLOCKS_TOTAL" for x
    using vc that by (simp add: vcnt_ok_def block_las_def)
  have iv: "iv < BLOCKS_DATA" using v by (simp add: victim_choice_def)
  have rg: "PBA_DATA \<le> ?r k" "?r k < BLOCKS_TOTAL" if "k \<in> ?K" for k
  proof -
    have "k < BLOCKS_DATA" using that by auto
    then show "PBA_DATA \<le> ?r k" "?r k < BLOCKS_TOTAL" by (rule ring_range [OF blk])+
  qed
  have min: "?m \<le> card (?A k)" if "k \<in> ?K" for k
    using v that cnt [of "?r k"] cnt [of "blk_list s iv"] rg [of k] b(11) [OF iv]
    unfolding victim_choice_def by (metis atLeastLessThan_iff)
  have disj: "?A j \<inter> ?A k = {}" if "j \<in> ?K" "k \<in> ?K" "j \<noteq> k" for j k
  proof -
    have "j < BLOCKS_DATA" "k < BLOCKS_DATA" using that(1,2) by auto
    then show ?thesis using ring_inj [OF b(10,1), of j k] that(3) by (auto simp: block_las_def)
  qed
  have "card ?K * ?m = (\<Sum>k\<in>?K. ?m)" by simp
  also have "\<dots> \<le> (\<Sum>k\<in>?K. card (?A k))" by (intro sum_mono min)
  also have "\<dots> = card (\<Union>k\<in>?K. ?A k)" using disj by (intro card_UN_disjoint [symmetric]) auto
  also have "\<dots> \<le> card {..<N_LAS}" by (intro card_mono) (auto simp: block_las_def)
  finally have "card ?K * ?m \<le> N_LAS" by simp
  moreover have "THRESHOLD_GC * ?m \<le> card ?K * ?m" using n by (intro mult_le_mono1) simp
  ultimately have "THRESHOLD_GC * ?m \<le> N_LAS" by linarith
  then show ?thesis by (simp add: VICTIM_MAX_def macros)
qed

section \<open>The garbage collector\<close>

text \<open>
  The steps of the garbage collector: nothing to do or the budget of the epoch is used up; a victim is
  chosen; a sector of the victim is relocated if it is still in use; the last sector of the victim is
  passed and the block is retired.
\<close>

inductive gc_step :: "ftl \<Rightarrow> ftl \<Rightarrow> bool" where
  idle: "gc_step s s" if "enable_gc s = 0 \<and> \<not> reach_gc_threshold s \<or> enable_gc s \<noteq> 0 \<and> MAX_GCPROG \<le> gcprog s"
| start: "gc_step s t" if "enable_gc s = 0" "reach_gc_threshold s" "enable_gc t \<noteq> 0" "gc_pos t = 0"
    "wcnt t = wcnt s" "gcprog t = gcprog s" "invalid t = invalid s" "used t = used s" "victim_left t \<le> VICTIM_MAX"
| work: "gc_step s t" if "enable_gc s \<noteq> 0" "gcprog s < MAX_GCPROG" "enable_gc t \<noteq> 0" "gc_pos t = Suc (gc_pos s)"
    "wcnt t = wcnt s" "invalid t = invalid s" "used t = used s" "gcprog s \<le> gcprog t"
    "gcprog t + victim_left t = gcprog s + victim_left s"
| retire: "gc_step s t" if "enable_gc s \<noteq> 0" "gcprog s < MAX_GCPROG" "enable_gc t = 0"
    "wcnt t = wcnt s" "invalid t = invalid s" "used t = BLK_LIST_NEXT (used s)"
    "gcprog t = gcprog s + victim_left s"

inductive_cases gc_stepE: "gc_step s t"

lemma gc_step_wcnt: "gc_step s t \<Longrightarrow> wcnt t = wcnt s" "gc_step s t \<Longrightarrow> invalid t = invalid s"
  by (auto elim: gc_stepE)

lemma gc_step_advanced:
  assumes en: "enable_gc s \<noteq> 0" "gcprog s < MAX_GCPROG" and m: "gc_moved s t \<or> t = s" and a: "gc_advanced t u"
  shows "gc_step s u"
proof -
  have t: "wcnt t = wcnt s" "invalid t = invalid s" "used t = used s" "gc_pos t = gc_pos s"
    "gcprog s \<le> gcprog t" "gcprog t + victim_left t = gcprog s + victim_left s"
    using m by (auto simp: gc_moved_def gc_frame_def gc_pos_def)
  have u: "wcnt u = wcnt t" "gcprog u = gcprog t" "invalid u = invalid t" "victim_left u = victim_left t"
    using a by (simp_all add: gc_advanced_def victim_left_def)
  show ?thesis
  proof (cases "enable_gc u = 0")
    case True
    then show ?thesis using a t u en by (intro gc_step.retire) (simp_all add: gc_advanced_def)
  next
    case False
    then show ?thesis using a t u en by (intro gc_step.work) (simp_all add: gc_advanced_def)
  qed
qed

lemma reach_gc_threshold_iff:
  assumes "blocks_ok (blk_list s) (usable s) (erasable s) (invalid s) (used s) (active s) (pba_active s)"
  shows "reach_gc_threshold s \<longleftrightarrow> THRESHOLD_GC \<le> BLOCKS_DATA - 1 - rdist (usable s) (used s)"
proof -
  note b = blocks_okD [OF assms]
  show ?thesis
    using b(4,5,6) by (auto simp: reach_gc_threshold_def rdist_eq BLK_LIST_NEXT_eq macros)
qed

lemma wp_ftl_gc_copy:
  assumes inv: "ftl_inv s vol st"
  shows "wp ftl_gc_copy (\<lambda>t. ftl_inv t vol st \<and> gc_step s t) (\<lambda>t. crash_inv t st) s"
proof -
  note b = blocks_okD [OF ftl_invD(1) [OF inv]]
  let ?Q = "\<lambda>t. ftl_inv t vol st \<and> gc_step s t" and ?C = "\<lambda>t. crash_inv t st"
  let ?s = "s\<lparr>ipa_gc := 0, isa_gc := 0, enable_gc := Suc 0\<rparr>"
  have ram: "ram_inv s" using inv by (simp add: ftl_inv_def base_inv_def)
  have start: "wp choose_victim_block (wp (block [load_lsa_gc]) ?Q ?C) ?C ?s"
    if d: "used s \<noteq> active s" and th: "reach_gc_threshold s" and en: "enable_gc s = 0"
  proof (rule wp_choose_victim_block)
    fix iv assume "victim_choice ?s iv (BLOCKS_DATA - 1)"
    then have v: "victim_choice s iv (BLOCKS_DATA - 1)" by (simp add: victim_choice_def)
    then have lt: "blk_list s iv < BLOCKS_TOTAL" using b(11) by (simp add: victim_choice_def)
    have "card (block_las (l2p s) (blk_list s iv)) \<le> VICTIM_MAX"
      using th ram by (intro victim_choice_le [OF ftl_invD(1) [OF inv] _ v])
        (simp_all add: reach_gc_threshold_iff [OF ftl_invD(1) [OF inv]] ram_inv_def)
    then have "gc_step s (?s\<lparr>idx_victim := iv, min_vcnt := x, idx := y, blk_list := z, pba_gc := blk_list s iv, lsa_gc := w\<rparr>)" for x y z w
      using en th by (intro gc_step.start) (simp_all add: gc_pos_def victim_left_def)
    then show "wp (block [load_lsa_gc]) ?Q ?C (?s\<lparr>idx_victim := iv, min_vcnt := vcnts ?s (blk_list ?s iv),
        idx := active ?s, blk_list := (blk_list ?s)(iv := blk_list ?s (used ?s), used ?s := blk_list ?s iv),
        pba_gc := blk_list ?s iv\<rparr>)"
      using gc_started [OF inv v d] lt by (simp add: vcg wp_load_lsa_gc macros cong: wp_cong)
  qed (use ftl_invD(1) [OF inv] d in simp_all)
  have th: "reach_gc_threshold s \<Longrightarrow> used s \<noteq> active s" by (auto simp: reach_gc_threshold_def macros)
  have adv: "wp gc_advance ?Q ?C t" if "gc_mid t vol st" "enable_gc s \<noteq> 0" "gcprog s < MAX_GCPROG" "gc_moved s t \<or> t = s" for t
    by (rule wp_mono [OF wp_gc_advance [OF that(1)]]) (use gc_step_advanced that in blast)+
  have copy: "wp gc_copy_sector (wp (block [gc_advance]) ?Q ?C) ?C s"
    if "enable_gc s \<noteq> 0" "lsa_gc s < N_LAS" "gcprog s < MAX_GCPROG"
    by (rule wp_mono [OF wp_gc_copy_sector [OF inv that]]) (use adv that in \<open>auto simp: vcg\<close>)
  have idle: "gc_step s s" if "enable_gc s = 0 \<and> \<not> reach_gc_threshold s \<or> enable_gc s \<noteq> 0 \<and> MAX_GCPROG \<le> gcprog s"
    using that by (rule gc_step.idle)
  show ?thesis
    using inv start th copy adv [OF gc_mid_start [OF inv]] idle
    by (auto simp: ftl_gc_copy_def vcg not_le cong: wp_cong)
qed

lemma wp_ftl_gc_erase:
  assumes inv: "ftl_inv s vol st"
  shows "wp ftl_gc_erase (\<lambda>t. ftl_inv t vol st \<and> kept s t) (\<lambda>t. crash_inv t st) s"
proof (cases "erasable s = invalid s")
  case False
  note b = blocks_okD [OF ftl_invD(1) [OF inv]]
  have "rdist (usable s) (erasable s) \<noteq> rdist (usable s) (invalid s)" using rdist_inj [OF b(1,2,3)] False by simp
  then have "rdist (usable s) (erasable s) < rdist (usable s) (invalid s)" using b(7) by simp
  from wp_make_one_erasable_block_free [OF inv this]
  have "wp make_one_erasable_block_free (\<lambda>t. ftl_inv t vol st \<and> kept s t) (\<lambda>t. crash_inv t st) s"
    by (rule wp_mono) auto
  then show ?thesis
    using False by (simp add: ftl_gc_erase_def make_one_erasable_block_unless_erasable_blklist_empty_def
        erasable_blklist_empty_def wp_only_if)
qed (use inv in \<open>simp add: ftl_gc_erase_def make_one_erasable_block_unless_erasable_blklist_empty_def
        erasable_blklist_empty_def wp_only_if kept_refl\<close>)

end
