(* ===== verification/FullChkpt.thy ===== *)
theory FullChkpt
  imports FtlSteps
begin

text \<open>
  Writing a full checkpoint, deleting one, and emptying the delta region: the part that
  \<open>ftl_flush\<close> and \<open>ftl_recovery\<close> of \<^verbatim>\<open>src/ftl.c\<close> share. The flash goes
  through a sequence of states; in each of them, and after a power loss in any of them, recovery
  finds the same table and the same snapshot (\<open>meta_inv\<close>).
\<close>

section \<open>The stages on flash\<close>

definition meta_inv :: "flashemu \<Rightarrow> (nat \<Rightarrow> nat) \<Rightarrow> (nat \<Rightarrow> nat \<Rightarrow> nat) \<Rightarrow> bool" where
  "meta_inv f l st \<longleftrightarrow> recoverable f st \<and> env_ok f \<and> (\<forall>la<N_LAS. stable_l2p f la = l la)"

lemma meta_invD:
  assumes "meta_inv f l st"
  shows "recoverable f st" "env_ok f" "\<And>la. la < N_LAS \<Longrightarrow> stable_l2p f la = l la"
    "full_synced f" "delta_synced f" "table_ok l" "holds f l st"
proof -
  show 1: "recoverable f st" "env_ok f" and s: "\<And>la. la < N_LAS \<Longrightarrow> stable_l2p f la = l la"
    using assms by (simp_all add: meta_inv_def)
  show "full_synced f" "delta_synced f" using 1 by (simp_all add: recoverable_def)
  show "table_ok l" using 1 table_ok_cong [of "stable_l2p f" l, OF s] by (simp add: recoverable_def)
  show "holds f l st" using 1 s by (simp add: recoverable_def holds_def)
qed

lemma meta_invI:
  assumes "full_synced f" "delta_synced f" "table_ok l" "holds f l st" "env_ok f"
    and s: "\<And>la. la < N_LAS \<Longrightarrow> stable_l2p f la = l la"
  shows "meta_inv f l st"
  using assms table_ok_cong [of "stable_l2p f" l, OF s]
  by (simp add: meta_inv_def recoverable_def holds_def)

lemma meta_inv_nrand [simp]: "meta_inv (f\<lparr>nrand := n\<rparr>) l st = meta_inv f l st"
  by (simp add: meta_inv_def)

lemma meta_inv_crash: "meta_inv f l st \<Longrightarrow> crashed f (fl t) \<Longrightarrow> crash_inv t st"
  by (auto simp: meta_inv_def intro: crash_inv_crashed)

lemma full_base_neq:
  assumes "k < 2" "k' < 2" "k \<noteq> k'"
  shows "full_base k \<noteq> full_base k'" "full_base k \<noteq> full_base k' + BLOCKS_FULL"
    "full_base k + BLOCKS_FULL \<noteq> full_base k'" "full_base k + BLOCKS_FULL \<noteq> full_base k' + BLOCKS_FULL"
  using assms by (auto simp: full_base_def macros less_2_cases_iff)

lemma full_base_range: "BLOCKS_DELTA \<le> full_base k" "full_base k + BLOCKS_FULL < PBA_DATA"
  by (simp_all add: full_base_def macros)

lemma holds_cong:
  assumes "table_ok l" "\<And>b p. PBA_DATA \<le> b \<Longrightarrow> flash g b p = flash f b p \<and> (synced f b p \<longrightarrow> synced g b p)"
    "holds f l st"
  shows "holds g l st"
proof -
  have "PBA_DATA \<le> PSA_TO_PBA (l la)" if "la < N_LAS" for la
    using assms(1) that by (auto simp: table_ok_def PSA_TO_PBA_def macros dest!: spec [of _ la])
  then show ?thesis using assms(2,3) by (simp add: holds_def sector_def)
qed

text \<open>A change of one of the two full checkpoints.\<close>

lemma meta_full_change:
  assumes m: "meta_inv f l st" and pf: "pf < 2" and env: "env_ok g"
    and cell: "\<And>b p. b \<noteq> full_base pf \<Longrightarrow> b \<noteq> full_base pf + BLOCKS_FULL \<Longrightarrow>
      flash g b p = flash f b p \<and> (synced f b p \<longrightarrow> synced g b p)"
    and cs: "synced g (full_base pf + BLOCKS_FULL) 0"
    and new: "if full_committed g pf
      then (\<forall>p<PAGES_PER_BLOCK. synced g (full_base pf) p) \<and> (\<forall>la<N_LAS. full_table g pf la = l la)
      else full_committed f (1 - pf) \<and> (\<forall>la<N_LAS. replay f (commit_point f) (full_table f (1 - pf)) la = l la)"
  shows "meta_inv g l st"
proof -
  note M = meta_invD [OF m]
  let ?o = "1 - pf"
  have o: "?o < 2" "?o \<noteq> pf" using pf by (auto simp: less_2_cases_iff)
  note ne = full_base_neq [OF o(1) pf o(2)]
  have tab: "full_table g ?o = full_table f ?o" and com: "full_committed g ?o = full_committed f ?o"
    using cell [OF ne(1,2)] cell [OF ne(3,4)] by (simp_all add: full_table_def [abs_def] full_committed_def)
  have os: "synced g (full_base ?o + BLOCKS_FULL) 0"
    "full_committed f ?o \<Longrightarrow> p < PAGES_PER_BLOCK \<Longrightarrow> synced g (full_base ?o) p" for p
    using M(4) o(1) cell [OF ne(1,2)] cell [OF ne(3,4)] by (simp_all add: full_synced_def)
  have two: "(\<forall>k<2. P k) \<longleftrightarrow> P pf \<and> P ?o" "P 0 \<or> P 1 \<longleftrightarrow> P pf \<or> P ?o" for P :: "nat \<Rightarrow> bool"
    using pf by (auto simp: less_2_cases_iff)
  have full: "full_synced g"
    unfolding full_synced_def two using new cs os com by (auto split: if_splits)
  have lo: "flash g b p = flash f b p \<and> (synced f b p \<longrightarrow> synced g b p)" if "b < BLOCKS_DELTA \<or> PBA_DATA \<le> b" for b p
    using that full_base_range [of pf] by (intro cell) auto
  have "keeps_delta f g" using lo by (simp add: keeps_delta_def keeps_def)
  note df = delta_frame [OF M(5) this]
  then have cp: "commit_point g = commit_point f" and pages: "\<And>j. j < commit_point f \<Longrightarrow> delta_page g j = delta_page f j"
    by simp_all
  have "delta_synced g" using df by simp
  moreover have "holds g l st" by (rule holds_cong [OF M(6) _ M(7)]) (use lo in simp)
  moreover have "stable_l2p g la = l la" if la: "la < N_LAS" for la
  proof -
    have rep: "stable_l2p g la = replay f (commit_point f) (chkpt_table g) la"
      using pages by (simp add: stable_l2p_def cp replay_cong [of _ g f])
    have idem: "m la = l la \<Longrightarrow> replay f (commit_point f) m la = l la" for m
      using M(3) [OF la] replay_idem [of m la f "commit_point f" "chkpt_table f"] by (simp add: stable_l2p_def)
    show ?thesis
    proof (cases "full_committed g pf")
      case True
      then have t: "full_table g pf la = l la" using new la by simp
      have "chkpt_table g la = l la \<or> chkpt_table g = chkpt_table f"
        using True t pf com tab by (auto simp: chkpt_table_def less_2_cases_iff)
      then show ?thesis
      proof
        assume "chkpt_table g la = l la"
        then show ?thesis unfolding rep by (rule idem)
      next
        assume "chkpt_table g = chkpt_table f"
        then show ?thesis unfolding rep using M(3) [OF la] by (simp add: stable_l2p_def)
      qed
    next
      case False
      then have "chkpt_table g = full_table f ?o"
        using new pf com tab by (auto simp: chkpt_table_def less_2_cases_iff)
      then show ?thesis using False new la rep by simp
    qed
  qed
  ultimately show ?thesis using full M(6) env by (intro meta_invI)
qed

lemma meta_sync:
  assumes m: "meta_inv f l st"
  shows "meta_inv (sync_all f) l st"
proof -
  note M = meta_invD [OF m]
  have sm: "same_meta f (sync_all f)" by (rule same_meta_data)
  have "keeps f (sync_all f) b p" for b p by (simp add: keeps_def cells)
  then have "recoverable (sync_all f) st"
    by (intro recoverable_frame(1) [OF M(1) same_meta_keeps [OF sm]])
  then show ?thesis
    using M(2,3) same_meta_simps(6) [OF sm] by (simp add: meta_inv_def env_ok_def cells)
qed

text \<open>The other full checkpoint is committed when this one is not, and then it is the one in use.\<close>

lemma other_full:
  assumes m: "meta_inv f l st" and pf: "pf < 2" and nc: "\<not> full_committed f pf"
  shows "full_committed f (1 - pf)" "chkpt_table f = full_table f (1 - pf)"
    "\<And>la. la < N_LAS \<Longrightarrow> replay f (commit_point f) (full_table f (1 - pf)) la = l la"
proof -
  note M = meta_invD [OF m]
  show "full_committed f (1 - pf)" and c: "chkpt_table f = full_table f (1 - pf)"
    using M(4) pf nc by (auto simp: full_synced_def chkpt_table_def less_2_cases_iff)
  show "replay f (commit_point f) (full_table f (1 - pf)) la = l la" if "la < N_LAS" for la
    using M(3) [OF that] by (simp add: stable_l2p_def c)
qed

text \<open>Deleting a full checkpoint: first its commit page, then the table.\<close>

definition uncommitted :: "nat \<Rightarrow> flashemu \<Rightarrow> flashemu" where
  "uncommitted pf f = erase_blocks (full_base pf + BLOCKS_FULL) (Suc (full_base pf + BLOCKS_FULL)) True f"

definition deleted_full :: "nat \<Rightarrow> flashemu \<Rightarrow> flashemu" where
  "deleted_full pf f = erase_blocks (full_base pf) (Suc (full_base pf)) False (uncommitted pf f)"

lemma uncommitted_inv:
  assumes m: "meta_inv f l st" and pf: "pf < 2" and c: "full_committed f (1 - pf)"
    and r: "\<And>la. la < N_LAS \<Longrightarrow> replay f (commit_point f) (full_table f (1 - pf)) la = l la"
  shows "meta_inv (uncommitted pf f) l st" "\<not> full_committed (uncommitted pf f) pf"
proof -
  show nc: "\<not> full_committed (uncommitted pf f) pf"
    by (simp add: full_committed_def uncommitted_def cells macros)
  have env: "env_ok (uncommitted pf f)" using meta_invD(2) [OF m] by (simp add: env_ok_def uncommitted_def cells)
  show "meta_inv (uncommitted pf f) l st"
    by (rule meta_full_change [OF m pf env]) (use c r nc in \<open>auto simp: uncommitted_def cells macros\<close>)
qed

lemma deleted_full_inv:
  assumes m: "meta_inv f l st" and pf: "pf < 2" and c: "full_committed f (1 - pf)"
    and r: "\<And>la. la < N_LAS \<Longrightarrow> replay f (commit_point f) (full_table f (1 - pf)) la = l la"
  shows "meta_inv (deleted_full pf f) l st" "full_ok (deleted_full pf f) pf"
proof -
  note U = uncommitted_inv [OF m pf c r]
  note O = other_full [OF U(1) pf U(2)]
  have env: "env_ok (deleted_full pf f)"
    using meta_invD(2) [OF U(1)] by (simp add: env_ok_def deleted_full_def cells)
  have ne: "full_base pf \<noteq> full_base pf + BLOCKS_FULL" by (simp add: macros)
  have nc: "\<not> full_committed (deleted_full pf f) pf"
    using U(2) by (simp add: full_committed_def deleted_full_def cells macros)
  have cs: "synced (uncommitted pf f) (full_base pf + BLOCKS_FULL) 0" by (simp add: uncommitted_def cells macros)
  show m': "meta_inv (deleted_full pf f) l st"
    by (rule meta_full_change [OF U(1) pf env]) (use nc O cs in \<open>auto simp: deleted_full_def cells macros\<close>)
  show "full_ok (deleted_full pf f) pf"
    using pf other_full(1) [OF m' pf nc]
    by (auto simp: full_ok_def deleted_full_def uncommitted_def cells macros)
qed

text \<open>Creating a full checkpoint: the table, a synchronisation, the commit page.\<close>

definition written_full :: "nat \<Rightarrow> (nat \<Rightarrow> nat) \<Rightarrow> flashemu \<Rightarrow> flashemu" where
  "written_full pf l f = prog_block (full_base pf) l f"

definition created_full :: "nat \<Rightarrow> (nat \<Rightarrow> nat) \<Rightarrow> page \<Rightarrow> flashemu \<Rightarrow> flashemu" where
  "created_full pf l d f = prog_page (full_base pf + BLOCKS_FULL) 0 d True (sync_all (written_full pf l f))"

lemma full_table_written:
  "la < N_LAS \<Longrightarrow> full_table (written_full pf l f) pf la = l la"
proof -
  assume la: "la < N_LAS"
  then have p: "la div 2048 < 512" by (simp add: macros)
  have "la div 2048 * 2048 + la mod 2048 = la" by simp
  then show ?thesis
    using p by (simp add: full_table_def written_full_def cells N_ENTRIES_PER_PAGE_def PAGE_SIZE_val PAGES_PER_BLOCK_val)
qed

lemma written_full_inv:
  assumes m: "meta_inv f l st" and ok: "full_ok f pf"
  shows "meta_inv (written_full pf l' f) l st" "\<not> full_committed (written_full pf l' f) pf"
proof -
  have pf: "pf < 2" and none: "\<And>p. p < PAGES_PER_BLOCK \<Longrightarrow> flash f (full_base pf) p = None"
    "\<And>p. p < PAGES_PER_BLOCK \<Longrightarrow> flash f (full_base pf + BLOCKS_FULL) p = None"
    using ok by (simp_all add: full_ok_def)
  have nc: "\<not> full_committed f pf" using none(2) [of 0] by (simp add: full_committed_def macros)
  note O = other_full [OF m pf nc]
  show nc': "\<not> full_committed (written_full pf l' f) pf"
    using nc by (simp add: full_committed_def written_full_def cells macros)
  have env: "env_ok (written_full pf l' f)"
    using meta_invD(2) [OF m] none by (simp add: env_ok_def written_full_def cells)
  have cs: "synced f (full_base pf + BLOCKS_FULL) 0"
    using meta_invD(4) [OF m] pf by (simp add: full_synced_def)
  show "meta_inv (written_full pf l' f) l st"
    by (rule meta_full_change [OF m pf env]) (use nc' O cs in \<open>auto simp: written_full_def cells macros\<close>)
qed

lemma created_full_inv:
  assumes m: "meta_inv f l st" and ok: "full_ok f pf" and d: "d 0 = 0"
    and l': "\<And>la. la < N_LAS \<Longrightarrow> l' la = l la"
  shows "meta_inv (created_full pf l' d f) l st"
    and "full_committed (created_full pf l' d f) pf" "full_committed (created_full pf l' d f) (1 - pf)"
    and "\<And>la. la < N_LAS \<Longrightarrow> full_table (created_full pf l' d f) pf la = l la"
proof -
  let ?w = "sync_all (written_full pf l' f)" and ?g = "created_full pf l' d f"
  have pf: "pf < 2" and none: "flash f (full_base pf + BLOCKS_FULL) 0 = None"
    using ok by (simp_all add: full_ok_def macros)
  note W = written_full_inv [OF m ok, of l']
  have w: "meta_inv ?w l st" by (rule meta_sync [OF W(1)])
  have cells_g: "flash ?g b p = (if b = full_base pf + BLOCKS_FULL \<and> p = 0 then Some d else flash ?w b p)"
    "synced ?g b p \<longleftrightarrow> b = full_base pf + BLOCKS_FULL \<and> p = 0 \<or> synced ?w b p" for b p
    by (auto simp: created_full_def cells)
  show c: "full_committed ?g pf" using d by (simp add: full_committed_def cells_g)
  have tab: "full_table ?g pf la = l la" if "la < N_LAS" for la
    using full_table_written [OF that, of pf l' f] l' [OF that] by (simp add: full_table_def cells_g macros cells)
  then show "\<And>la. la < N_LAS \<Longrightarrow> full_table ?g pf la = l la" .
  have env: "env_ok ?g"
    using meta_invD(2) [OF w] none by (simp add: env_ok_def created_full_def written_full_def cells macros)
  have sy: "synced ?g (full_base pf) p" if "p < PAGES_PER_BLOCK" for p
    using that full_base_less(1) [of pf] by (simp add: cells_g cells macros)
  show "meta_inv ?g l st"
    by (rule meta_full_change [OF w pf env]) (use c tab sy in \<open>auto simp: cells_g\<close>)
  have o: "1 - pf < 2" "1 - pf \<noteq> pf" using pf by (auto simp: less_2_cases_iff)
  have "full_committed (written_full pf l' f) (1 - pf)" by (rule other_full(1) [OF W(1) pf W(2)])
  then show "full_committed ?g (1 - pf)"
    using full_base_neq(4) [OF o(1) pf o(2)] by (simp add: full_committed_def cells_g cells)
qed

text \<open>Emptying the delta region; the last command programs an empty committed page.\<close>

definition deltas_erased :: "flashemu \<Rightarrow> flashemu" where
  "deltas_erased f = erase_blocks 1 BLOCKS_DELTA False (erase_blocks 0 1 True f)"

lemma erased_first_inv:
  assumes m: "meta_inv f l st" and t: "\<And>la. la < N_LAS \<Longrightarrow> chkpt_table f la = l la" and env: "env_ok g"
    and z: "flash g 0 0 = None" "synced g 0 0"
    and cell: "\<And>b p. BLOCKS_DELTA \<le> b \<Longrightarrow> flash g b p = flash f b p \<and> (synced f b p \<longrightarrow> synced g b p)"
  shows "meta_inv g l st" "chkpt_table g = chkpt_table f"
proof -
  note M = meta_invD [OF m]
  have full: "flash g (full_base k) p = flash f (full_base k) p"
      "flash g (full_base k + BLOCKS_FULL) p = flash f (full_base k + BLOCKS_FULL) p"
      "synced f (full_base k) p \<Longrightarrow> synced g (full_base k) p"
      "synced f (full_base k + BLOCKS_FULL) p \<Longrightarrow> synced g (full_base k + BLOCKS_FULL) p" for k p
    using cell [of "full_base k"] cell [of "full_base k + BLOCKS_FULL"] full_base_range(1) [of k] by simp_all
  have tab: "full_table g = full_table f" "full_committed g = full_committed f"
    by (simp_all add: full_table_def [abs_def] full_committed_def [abs_def] full)
  then show ct: "chkpt_table g = chkpt_table f" by (simp add: chkpt_table_def)
  have fs: "full_synced g" using M(4) full by (simp add: full_synced_def tab)
  have dp: "delta_page g 0 0 \<noteq> 0" "delta_page g 0 0 \<noteq> 1" using z(1) by (simp_all add: delta_page_def)
  then have "delta_synced g" using z(2) by (simp add: delta_synced_def)
  moreover have "commit_point g = 0" using dp by (simp add: commit_point_def)
  then have "stable_l2p g la = l la" if "la < N_LAS" for la using t [OF that] by (simp add: stable_l2p_def ct)
  moreover have "holds g l st"
    by (rule holds_cong [OF M(6) _ M(7)]) (use cell in \<open>simp add: macros\<close>)
  ultimately show "meta_inv g l st" using fs M(6) env by (intro meta_invI)
qed

lemma deltas_reset_inv:
  assumes m: "meta_inv f l st" and t: "\<And>la. la < N_LAS \<Longrightarrow> chkpt_table f la = l la"
    and e: "\<And>b p. b < BLOCKS_DELTA \<Longrightarrow> p < PAGES_PER_BLOCK \<Longrightarrow> flash f b p = None \<and> synced f b p"
    and d: "d 0 = 0" "\<And>i. i < N_DELTA_PAIR \<Longrightarrow> d (i + OFFSET_LAS) = N_LAS"
  defines "g \<equiv> prog_page 0 0 d True f"
  shows "meta_inv g l st" "delta_ok g 0 1" "chkpt_table g = chkpt_table f" "full_ok g pf = full_ok f pf"
    "logged l (cleared db) g 1"
proof -
  note M = meta_invD [OF m]
  have b0: "0 < BLOCKS_DELTA" by (simp add: macros)
  note F = full_prog_delta [OF b0, where f = f and p = 0 and d = d and sy = True, folded g_def]
  show ct: "chkpt_table g = chkpt_table f" and "full_ok g pf = full_ok f pf" by (simp_all add: F)
  have pg: "delta_page g j = (if j = 0 then d else delta_page f j)" for j
    unfolding g_def by (rule delta_page_prog) simp_all
  have cell: "(flash g (j div PAGES_PER_BLOCK) (j mod PAGES_PER_BLOCK) = None \<longleftrightarrow> 1 \<le> j)
      \<and> synced g (j div PAGES_PER_BLOCK) (j mod PAGES_PER_BLOCK)" if "j < N_DELTA_PAGES" for j
  proof -
    have "j div PAGES_PER_BLOCK < BLOCKS_DELTA" "j mod PAGES_PER_BLOCK < PAGES_PER_BLOCK"
      using delta_block_less [OF that] zero_page_less(1) by simp_all
    then show ?thesis using e page_no_eq_iff [of j 0] by (auto simp: g_def cells)
  qed
  have c1: "delta_count 0 1 = 1" by (simp add: delta_count_def)
  show ok: "delta_ok g 0 1"
    unfolding delta_ok_def c1 using cell d pg by (simp add: macros)
  have cp: "commit_point g = 1" using delta_ok_commit [OF ok, unfolded c1] d(1) pg by simp
  have rep: "replay g 1 m la = m la" if "la < N_LAS" for m la
    using apply_page_empty [of d la, OF d(2) that] pg by simp
  have env: "env_ok g" using M(2) e [OF b0 zero_page_less(1)] by (simp add: env_ok_def g_def cells)
  have "holds g l st" by (rule holds_cong [OF M(6) _ M(7)]) (auto simp: g_def cells macros)
  moreover have "stable_l2p g la = l la" if "la < N_LAS" for la
    using t [OF that] rep [OF that] by (simp add: stable_l2p_def cp ct del: replay.simps)
  moreover have "full_synced g" using M(4) by (simp add: F)
  ultimately show "meta_inv g l st"
    using M(6) env delta_ok_synced [OF ok] by (intro meta_invI)
  show "logged l (cleared db) g 1"
    using t rep by (simp add: logged_def apply_page_cleared ct del: replay.simps)
qed

section \<open>The functions\<close>

lemma pba_full_base: "pba_full s = full_base (ptr_full s)"
  by (simp add: pba_full_def full_base_def)

lemma full_base_bounds: "full_base k < NUM_PHYSICAL_BLOCKS" "full_base k + BLOCKS_FULL < NUM_PHYSICAL_BLOCKS"
  "full_base k + 1 \<le> NUM_PHYSICAL_BLOCKS"
  by (simp_all add: full_base_def macros)

text \<open>The synchronous flash commands as the translation layer issues them.\<close>

lemma wp_on_erase_sync:
  assumes "env_ok (fl s)" "c s = flash_erase b 1" "b < NUM_PHYSICAL_BLOCKS"
    and "\<And>n. Q (s\<lparr>fl := (erase_blocks b (Suc b) True (fl s))\<lparr>nrand := n\<rparr>\<rparr>)"
    and "\<And>t. crash_sim (fl s) \<Longrightarrow> crashed (fl s) (fl t) \<Longrightarrow> C t"
  shows "wp (on_flash c) Q C s"
  unfolding wp_on_flash assms(2)
  by (rule wp_flash_erase_sync [OF env_ok_guard [OF assms(1)] assms(3) refl]) (use assms(4,5) in auto)

lemma wp_on_program_sync:
  assumes "env_ok (fl s)" "c s = flash_program b p d 1" "b < NUM_PHYSICAL_BLOCKS" "p < PAGES_PER_BLOCK"
    and "\<And>n. Q (s\<lparr>fl := (prog_page b p d True (fl s))\<lparr>nrand := n\<rparr>\<rparr>)"
    and "\<And>t. crash_sim (fl s) \<Longrightarrow> crashed (fl s) (fl t) \<Longrightarrow> C t"
  shows "wp (on_flash c) Q C s"
  unfolding wp_on_flash assms(2)
  by (rule wp_flash_program_sync [OF env_ok_guard [OF assms(1)] assms(3,4) refl]) (use assms(5,6) in auto)

lemma wp_on_sync:
  assumes "env_ok (fl s)" "\<And>n. Q (s\<lparr>fl := (sync_all (fl s))\<lparr>nrand := n\<rparr>\<rparr>)"
    and "\<And>t. crash_sim (fl s) \<Longrightarrow> crashed (fl s) (fl t) \<Longrightarrow> C t"
  shows "wp (on_flash (\<lambda>_. flash_sync)) Q C s"
  unfolding wp_on_flash
  by (rule wp_flash_sync [OF env_ok_guard [OF assms(1)]]) (use assms(2,3) in auto)

lemma wp_on_program_full:
  assumes "b < NUM_PHYSICAL_BLOCKS"
  shows "wp (on_flash (\<lambda>s. flash_program_bulk b BLOCKS_FULL (g s))) Q C s = Q (s\<lparr>fl := prog_block b (g s) (fl s)\<rparr>)"
  unfolding wp_on_flash BLOCKS_FULL_def wp_flash_program_bulk1 [OF assms] by (rule refl)

lemma wp_delete_full_chkpt:
  assumes m: "meta_inv (fl s) l st" and Q: "\<And>n. Q (s\<lparr>fl := (deleted_full (ptr_full s) (fl s))\<lparr>nrand := n\<rparr>\<rparr>)"
    and C: "\<And>t. crash_inv t st \<Longrightarrow> C t"
  shows "wp delete_full_chkpt Q C s"
  unfolding delete_full_chkpt_def wp_local_var wp_block pba_full_base
proof (rule wp_on_erase_sync [OF meta_invD(2) [OF m] refl full_base_bounds(2)])
  show "wp (on_flash (\<lambda>_. flash_erase_bulk (full_base (ptr_full s)) BLOCKS_FULL)) Q C
      (s\<lparr>fl := (erase_blocks (full_base (ptr_full s) + BLOCKS_FULL) (Suc (full_base (ptr_full s) + BLOCKS_FULL))
        True (fl s))\<lparr>nrand := n\<rparr>\<rparr>)" for n
    using Q [of n] full_base_bounds(3) [of "ptr_full s"]
    by (simp add: wp_on_flash wp_flash_erase_bulk deleted_full_def uncommitted_def BLOCKS_FULL_def)
qed (intro C meta_inv_crash [OF m])

lemma wp_create_full_chkpt:
  assumes m: "meta_inv (fl s) l st" and ok: "full_ok (fl s) (ptr_full s)"
    and Q: "\<And>n. Q (s\<lparr>buf_commit := (buf_commit s)(0 := 0),
      fl := (created_full (ptr_full s) (l2p s) ((buf_commit s)(0 := 0)) (fl s))\<lparr>nrand := n\<rparr>\<rparr>)"
    and C: "\<And>t. crash_inv t st \<Longrightarrow> C t"
  shows "wp create_full_chkpt Q C s"
proof -
  let ?b = "full_base (ptr_full s)" let ?w = "written_full (ptr_full s) (l2p s) (fl s)"
  note W = written_full_inv [OF m ok, of "l2p s"]
  note S = meta_sync [OF W(1)]
  let ?t = "\<lambda>n. s\<lparr>fl := (sync_all ?w)\<lparr>nrand := n\<rparr>, buf_commit := (buf_commit s)(0 := 0)\<rparr>"
  have prog: "wp (on_flash (\<lambda>s. flash_program (?b + BLOCKS_FULL) 0 (buf_commit s) 1)) Q C (?t n)" for n
  proof (rule wp_on_program_sync [OF _ refl full_base_bounds(2) zero_page_less(1)])
    show "C t" if "crashed (fl (?t n)) (fl t)" for t
      using that by (intro C meta_inv_crash [OF S]) simp
    show "Q ((?t n)\<lparr>fl := (prog_page (?b + BLOCKS_FULL) 0 (buf_commit (?t n)) True (fl (?t n)))\<lparr>nrand := k\<rparr>\<rparr>)" for k
      using Q [of k] by (simp add: created_full_def)
  qed (use meta_invD(2) [OF S] in simp)
  have "wp (on_flash (\<lambda>_. flash_sync)) (\<lambda>t. wp (on_flash (\<lambda>s. flash_program (?b + BLOCKS_FULL) 0 (buf_commit s) 1)) Q C
      (t\<lparr>buf_commit := (buf_commit t)(0 := 0)\<rparr>)) C (s\<lparr>fl := ?w\<rparr>)"
    by (rule wp_on_sync) (use prog meta_invD(2) [OF W(1)] in \<open>auto intro: C meta_inv_crash [OF W(1)]\<close>)
  then show ?thesis
    by (simp add: create_full_chkpt_def wp_local_var wp_block pba_full_base
        wp_on_program_full full_base_bounds(1) written_full_def wp_assign)
qed

text \<open>The delta region is emptied once the full checkpoint holds the whole table.\<close>

definition deltas_reset :: "page \<Rightarrow> flashemu \<Rightarrow> flashemu" where
  "deltas_reset d f = prog_page 0 0 d True (sync_all (deltas_erased f))"

lemma deltas_erased_inv:
  assumes m: "meta_inv f l st" and t: "\<And>la. la < N_LAS \<Longrightarrow> chkpt_table f la = l la"
  shows "meta_inv (erase_blocks 0 1 True f) l st" "meta_inv (deltas_erased f) l st"
    "meta_inv (sync_all (deltas_erased f)) l st" "chkpt_table (sync_all (deltas_erased f)) = chkpt_table f"
proof -
  have env: "env_ok f" by (rule meta_invD(2) [OF m])
  show "meta_inv (erase_blocks 0 1 True f) l st"
    by (rule erased_first_inv(1) [OF m t]) (use env in \<open>auto simp: env_ok_def cells macros\<close>)
  show d: "meta_inv (deltas_erased f) l st"
    by (rule erased_first_inv(1) [OF m t]) (use env in \<open>auto simp: env_ok_def deltas_erased_def cells macros\<close>)
  show "meta_inv (sync_all (deltas_erased f)) l st" by (rule meta_sync [OF d])
  show "chkpt_table (sync_all (deltas_erased f)) = chkpt_table f"
    by (rule erased_first_inv(2) [OF m t]) (use env in \<open>auto simp: env_ok_def deltas_erased_def cells macros\<close>)
qed

lemma deltas_reset_state:
  assumes m: "meta_inv f l st" and t: "\<And>la. la < N_LAS \<Longrightarrow> chkpt_table f la = l la"
    and d: "d 0 = 0" "\<And>i. i < N_DELTA_PAIR \<Longrightarrow> d (i + OFFSET_LAS) = N_LAS"
  shows "meta_inv (deltas_reset d f) l st" "delta_ok (deltas_reset d f) 0 1"
    "full_ok (deltas_reset d f) pf = full_ok f pf" "logged l (cleared db) (deltas_reset d f) 1"
proof -
  note E = deltas_erased_inv [OF m t]
  let ?e = "sync_all (deltas_erased f)"
  have t': "chkpt_table ?e la = l la" if "la < N_LAS" for la using E(4) t [OF that] by simp
  have e: "flash ?e b p = None \<and> synced ?e b p" if "b < BLOCKS_DELTA" "p < PAGES_PER_BLOCK" for b p
    using that by (auto simp: deltas_erased_def cells macros)
  note R = deltas_reset_inv [OF E(3) t' e d, folded deltas_reset_def]
  show "meta_inv (deltas_reset d f) l st" "delta_ok (deltas_reset d f) 0 1"
    "logged l (cleared db) (deltas_reset d f) 1" using R(1,2,5) by simp_all
  have "flash ?e (full_base k) p = flash f (full_base k) p"
    "flash ?e (full_base k + BLOCKS_FULL) p = flash f (full_base k + BLOCKS_FULL) p" for k p
    using full_base_range(1) [of k] by (auto simp: deltas_erased_def cells macros)
  then have "full_ok ?e pf = full_ok f pf" by (simp add: full_ok_def full_committed_def)
  then show "full_ok (deltas_reset d f) pf = full_ok f pf" using R(4) by simp
qed

lemma wp_delete_all_delta_chkpts:
  assumes m: "meta_inv (fl s) l st" and t: "\<And>la. la < N_LAS \<Longrightarrow> chkpt_table (fl s) la = l la"
    and Q: "\<And>n. Q (s\<lparr>delta_buf := (delta_buf s)(0 := 0),
      fl := (deltas_reset ((delta_buf s)(0 := 0)) (fl s))\<lparr>nrand := n\<rparr>, ipa_delta := 1, pba_delta := 0\<rparr>)"
    and C: "\<And>t. crash_inv t st \<Longrightarrow> C t"
  shows "wp delete_all_delta_chkpts Q C s"
proof -
  note E = deltas_erased_inv [OF m t]
  let ?K = "wp (on_flash (\<lambda>s. flash_program PBA_DELTA 0 (delta_buf s) 1))
      (\<lambda>t. Q (t\<lparr>ipa_delta := 1, pba_delta := 0\<rparr>)) C"
  let ?t = "\<lambda>n. s\<lparr>fl := (sync_all (deltas_erased (fl s)))\<lparr>nrand := n\<rparr>, delta_buf := (delta_buf s)(0 := 0)\<rparr>"
  have b0: "0 < NUM_PHYSICAL_BLOCKS" by (simp add: macros)
  have prog: "?K (?t n)" for n
  proof (rule wp_on_program_sync [where b = 0, OF _ _ b0 zero_page_less(1)])
    show "C t" if "crashed (fl (?t n)) (fl t)" for t
      using that by (intro C meta_inv_crash [OF E(3)]) simp_all
    show "Q ((?t n)\<lparr>fl := (prog_page 0 0 (delta_buf (?t n)) True (fl (?t n)))\<lparr>nrand := k\<rparr>, ipa_delta := 1, pba_delta := 0\<rparr>)" for k
      using Q [of k] by (simp add: deltas_reset_def)
  qed (use meta_invD(2) [OF E(3)] in \<open>simp_all add: PBA_DELTA_def\<close>)
  have sync: "wp (on_flash (\<lambda>_. flash_sync)) (\<lambda>t. ?K (t\<lparr>delta_buf := (delta_buf t)(0 := 0)\<rparr>)) C
      (s\<lparr>fl := (deltas_erased (fl s))\<lparr>nrand := n\<rparr>\<rparr>)" for n
    by (rule wp_on_sync)
       (use prog meta_invD(2) [OF E(2)] in \<open>auto intro: C meta_inv_crash [OF E(2)]\<close>)
  have "wp (on_flash (\<lambda>_. flash_erase PBA_DELTA 1)) (wp (on_flash (\<lambda>_. flash_erase_bulk (PBA_DELTA + 1) (BLOCKS_DELTA - 1)))
      (wp (on_flash (\<lambda>_. flash_sync)) (\<lambda>t. ?K (t\<lparr>delta_buf := (delta_buf t)(0 := 0)\<rparr>)) C) C) C s"
    by (rule wp_on_erase_sync [where b = 0, OF meta_invD(2) [OF m] _ b0])
       (use sync in \<open>auto intro: C meta_inv_crash [OF m] simp: wp_on_flash [of "\<lambda>_. flash_erase_bulk _ _"]
          wp_flash_erase_bulk deltas_erased_def macros\<close>)
  then show ?thesis
    by (simp add: delete_all_delta_chkpts_def wp_block wp_assign OFFSET_COMMIT_def)
qed

section \<open>Replacing the checkpoints\<close>

text \<open>
  The sequence \<open>create_full_chkpt(); toggle_full_chkpt(); delete_full_chkpt();
  delete_all_delta_chkpts();\<close>: the new full checkpoint holds the whole table and the log is empty.
\<close>

lemma replaced_full:
  assumes m: "meta_inv f l st" and ok: "full_ok f pf" and d: "d 0 = 0"
    and l': "\<And>la. la < N_LAS \<Longrightarrow> l' la = l la"
  defines "g \<equiv> created_full pf l' d f"
  shows "meta_inv g l st" "meta_inv (deleted_full (1 - pf) g) l st" "full_ok (deleted_full (1 - pf) g) (1 - pf)"
    "\<And>la. la < N_LAS \<Longrightarrow> chkpt_table (deleted_full (1 - pf) g) la = l la"
    "\<And>b p. PBA_DATA \<le> b \<Longrightarrow> flash (deleted_full (1 - pf) g) b p = flash f b p"
proof -
  have pf: "pf < 2" using ok by (simp add: full_ok_def)
  then have o: "1 - pf < 2" "pf \<noteq> 1 - pf" "1 - (1 - pf) = pf" by (auto simp: less_2_cases_iff)
  note G = created_full_inv [of f l st pf d l', OF m ok d l', folded g_def]
  show g: "meta_inv g l st" using G(1) by simp
  have r: "replay g (commit_point g) (full_table g (1 - (1 - pf))) la = l la" if "la < N_LAS" for la
    unfolding o(3) using meta_invD(3) [OF g that] G(4) [OF _ that]
      replay_idem [of "full_table g pf" la g "commit_point g" "chkpt_table g"]
    by (simp add: stable_l2p_def)
  have c: "full_committed g (1 - (1 - pf))" unfolding o(3) using G(2) by simp
  note D = deleted_full_inv [OF g o(1) c r]
  show mD: "meta_inv (deleted_full (1 - pf) g) l st" and fD: "full_ok (deleted_full (1 - pf) g) (1 - pf)"
    using D by simp_all
  have nc: "\<not> full_committed (deleted_full (1 - pf) g) (1 - pf)"
    using fD by (simp add: full_ok_def full_committed_def macros)
  have "full_table (deleted_full (1 - pf) g) pf = full_table g pf"
    using full_base_neq [OF pf o(1,2)]
    by (auto simp: full_table_def [abs_def] deleted_full_def uncommitted_def cells fun_eq_iff)
  then show "\<And>la. la < N_LAS \<Longrightarrow> chkpt_table (deleted_full (1 - pf) g) la = l la"
    using other_full(2) [OF mD o(1) nc, unfolded o(3)] G(4) by simp
  show "flash (deleted_full (1 - pf) g) b p = flash f b p" if "PBA_DATA \<le> b" for b p
    using that full_base_range(2) [of pf] full_base_range(2) [of "1 - pf"]
    by (auto simp: deleted_full_def uncommitted_def g_def created_full_def written_full_def cells)
qed

lemma wp_replace_chkpts:
  assumes m: "meta_inv (fl s) l st" and ok: "full_ok (fl s) (ptr_full s)"
    and l': "\<And>la. la < N_LAS \<Longrightarrow> l2p s la = l la"
    and db: "\<And>i. i < N_DELTA_PAIR \<Longrightarrow> delta_buf s (i + OFFSET_LAS) = N_LAS"
    and C: "\<And>t. crash_inv t st \<Longrightarrow> C t"
    and Q: "\<And>f. meta_inv f l st \<Longrightarrow> delta_ok f 0 1 \<Longrightarrow> full_ok f (1 - ptr_full s) \<Longrightarrow> (\<And>b. logged l (cleared b) f 1) \<Longrightarrow>
      (\<And>b p. PBA_DATA \<le> b \<Longrightarrow> flash f b p = flash (fl s) b p) \<Longrightarrow>
      Q (s\<lparr>buf_commit := (buf_commit s)(0 := 0), ptr_full := 1 - ptr_full s, delta_buf := (delta_buf s)(0 := 0),
        fl := f, ipa_delta := 1, pba_delta := 0\<rparr>)"
  shows "wp create_full_chkpt (wp toggle_full_chkpt (wp delete_full_chkpt (wp delete_all_delta_chkpts Q C) C) C) C s"
proof (rule wp_create_full_chkpt [OF m ok])
  let ?d = "(buf_commit s)(0 := 0)" and ?pf = "ptr_full s"
  let ?g = "created_full ?pf (l2p s) ?d (fl s)" let ?e = "deleted_full (1 - ?pf) ?g"
  let ?db = "(delta_buf s)(0 := 0)"
  have pf: "?pf < 2" using ok by (simp add: full_ok_def)
  then have tog: "u32 (Suc ?pf) mod 2 = 1 - ?pf" by (auto simp: less_2_cases_iff u32_def)
  have R: "meta_inv ?g l st" "meta_inv ?e l st" "full_ok ?e (1 - ?pf)"
    "\<And>la. la < N_LAS \<Longrightarrow> chkpt_table ?e la = l la" "\<And>b p. PBA_DATA \<le> b \<Longrightarrow> flash ?e b p = flash (fl s) b p"
    using replaced_full [OF m ok _ l', of ?d] by simp_all
  have db': "?db 0 = 0" "\<And>i. i < N_DELTA_PAIR \<Longrightarrow> ?db (i + OFFSET_LAS) = N_LAS"
    using db by (simp_all add: macros)
  have S: "meta_inv (deltas_reset ?db ?e) l st" "delta_ok (deltas_reset ?db ?e) 0 1"
    "full_ok (deltas_reset ?db ?e) (1 - ?pf)" "logged l (cleared b) (deltas_reset ?db ?e) 1" for b
    using deltas_reset_state [of ?e l st ?db, OF R(2,4) db'] R(3) by simp_all
  have data: "flash (deltas_reset ?db ?e) b p = flash (fl s) b p" if "PBA_DATA \<le> b" for b p
    using R(5) [OF that] that by (auto simp: deltas_reset_def deltas_erased_def cells macros)
  fix n
  have del: "wp delete_all_delta_chkpts Q C (s\<lparr>buf_commit := ?d, ptr_full := 1 - ?pf, fl := ?e\<lparr>nrand := k\<rparr>\<rparr>)" for k
  proof (rule wp_delete_all_delta_chkpts [where l = l and st = st])
    fix j
    show "Q (s\<lparr>buf_commit := ?d, ptr_full := 1 - ?pf, fl := ?e\<lparr>nrand := k\<rparr>,
      delta_buf := (delta_buf (s\<lparr>buf_commit := ?d, ptr_full := 1 - ?pf, fl := ?e\<lparr>nrand := k\<rparr>\<rparr>))(0 := 0),
      fl := (deltas_reset ((delta_buf (s\<lparr>buf_commit := ?d, ptr_full := 1 - ?pf, fl := ?e\<lparr>nrand := k\<rparr>\<rparr>))(0 := 0))
        (fl (s\<lparr>buf_commit := ?d, ptr_full := 1 - ?pf, fl := ?e\<lparr>nrand := k\<rparr>\<rparr>)))\<lparr>nrand := j\<rparr>,
      ipa_delta := 1, pba_delta := 0\<rparr>)"
      using Q [of "(deltas_reset ?db ?e)\<lparr>nrand := j\<rparr>"] S data
      by (simp add: deltas_reset_def deltas_erased_def)
  qed (use R C in simp_all)
  have "wp delete_full_chkpt (wp delete_all_delta_chkpts Q C) C (s\<lparr>buf_commit := ?d, fl := ?g\<lparr>nrand := n\<rparr>, ptr_full := 1 - ?pf\<rparr>)"
    by (rule wp_delete_full_chkpt [where l = l and st = st])
       (use R C del in \<open>simp_all add: deleted_full_def uncommitted_def\<close>)
  then show "wp toggle_full_chkpt (wp delete_full_chkpt (wp delete_all_delta_chkpts Q C) C) C
      (s\<lparr>buf_commit := ?d, fl := ?g\<lparr>nrand := n\<rparr>\<rparr>)"
    using tog by (simp add: toggle_full_chkpt_def wp_assign)
qed (rule C)

end
