(* ===== verification/FtlFlush.thy ===== *)
theory FtlFlush
  imports FullChkpt
begin

text \<open>
  \<open>ftl_flush\<close>: after a flush the snapshot is the contents of the disk; a power loss during the
  flush leaves the old snapshot or the new one.
\<close>

section \<open>The table that is committed\<close>

lemma used_blocks_card:
  assumes blk: "blocks_ok bl u e i d a pa" and free: "free_ok l bl u d"
  shows "card (used_blocks l) \<le> BLOCKS_DATA - rdist u d"
proof -
  have "used_blocks l \<subseteq> ring bl u ` {rdist u d..<BLOCKS_DATA}"
  proof
    fix b assume "b \<in> used_blocks l"
    then obtain la where la: "PBA_DATA \<le> b" "b < BLOCKS_TOTAL" "la < N_LAS" "PSA_TO_PBA (l la) = b"
      by (auto simp: used_blocks_def)
    obtain k where k: "k < BLOCKS_DATA" "b = ring bl u k" by (rule block_cases [OF blk la(1,2)])
    have "\<not> k < rdist u d" using free la(3,4) k(2) unfolding free_ok_def by metis
    then show "b \<in> ring bl u ` {rdist u d..<BLOCKS_DATA}" using k by auto
  qed
  then have "card (used_blocks l) \<le> card {rdist u d..<BLOCKS_DATA}"
    by (meson card_image_le card_mono finite_atLeastLessThan finite_imageI le_trans)
  then show ?thesis by simp
qed

lemma table_ok_l2p:
  assumes blk: "blocks_ok bl u e i d a pa" and free: "free_ok l bl u d" and map: "map_ok l p"
    and n: "36 \<le> rdist u d"
  shows "table_ok l"
proof -
  have "la = la'" if "la < N_LAS" "la' < N_LAS" "l la = l la'" "l la \<noteq> N_PAS" for la la'
  proof -
    have lt: "l la < N_PAS" using map that(1,4) by (auto simp: map_ok_def le_neq_implies_less)
    then have "p (l la) = la" "p (l la') = la'" using map that(1,2,3) by (auto simp: map_ok_def)
    then show ?thesis using that(3) by metis
  qed
  moreover have "card (used_blocks l) \<le> BLOCKS_DATA - 36"
    using used_blocks_card [OF blk free] n by linarith
  ultimately show ?thesis using map by (auto simp: table_ok_def map_ok_def)
qed

text \<open>Once the merge buffer is empty and the flash synchronised, the flash holds the contents of the disk.\<close>

lemma holds_synced:
  assumes map: "map_ok l p" and st: "stored_ok l lm (flash f)" and lm: "lm 0 = N_LAS" "lm 1 = N_LAS"
    and v: "\<And>la o'. la < N_LAS \<Longrightarrow> o' < N_ENTRIES_PER_SECTOR \<Longrightarrow> sector f (l la) o' = vol la o'"
  shows "holds (sync_all f) l vol"
proof -
  have "PSA_TO_PBA (l la) < NUM_PHYSICAL_BLOCKS" if "la < N_LAS" for la
    using map that by (auto simp: map_ok_def PSA_TO_PBA_def macros dest!: spec [of _ la])
  moreover have "PSA_TO_IPA (l la) < PAGES_PER_BLOCK" for la using IPA_less by (simp add: macros)
  ultimately show ?thesis
    using st lm v by (simp add: holds_def stored_ok_def sector_def cells)
qed

section \<open>The steps\<close>

text \<open>The state once the current table is committed.\<close>

definition flush_mid :: "ftl \<Rightarrow> (nat \<Rightarrow> nat \<Rightarrow> nat) \<Rightarrow> bool" where
  "flush_mid s vol \<longleftrightarrow> ram_inv s \<and> gc_lsa_ok (enable_gc s) (lsa_gc s) (p2l s) (victim_psa s)
     \<and> chkpt_ok (fl s) (pba_delta s) (ipa_delta s) (delta_buf s) 0 (ptr_full s) (l2p s) vol
     \<and> (\<forall>la<N_LAS. stable_l2p (fl s) la = l2p s la) \<and> ptr_delta_buf s = 0
     \<and> same_view (view s) vol \<and> ipa_active s < PAGES_PER_BLOCK \<and> isa_active s = 0
     \<and> 36 * SECTORS_PER_BLOCK \<le> rdist (usable s) (used s) * SECTORS_PER_BLOCK + SECTORS_PER_BLOCK
          - ipa_active s * SECTORS_PER_PAGE"

text \<open>A flush leaves the garbage collector where it is.\<close>

definition same_gc :: "ftl \<Rightarrow> ftl \<Rightarrow> bool" where
  "same_gc s t \<longleftrightarrow> used t = used s \<and> enable_gc t = enable_gc s \<and> pba_gc t = pba_gc s \<and> ipa_gc t = ipa_gc s
     \<and> isa_gc t = isa_gc s \<and> l2p t = l2p s"

lemma same_gc_refl: "same_gc s s"
  by (simp add: same_gc_def)

lemma same_gc_trans: "same_gc s t \<Longrightarrow> same_gc t u \<Longrightarrow> same_gc s u"
  by (simp add: same_gc_def)

lemma same_gc_kept: "kept s t \<Longrightarrow> same_gc s t"
  by (simp add: same_gc_def kept_def)

lemma wp_flush_commit:
  assumes inv: "base_inv s vol st" and isa: "isa_active s = 0" and tab: "table_ok (l2p s)"
    and nd: "delta_count (pba_delta s) (ipa_delta s) < N_DELTA_PAGES" and ip: "ipa_active s < PAGES_PER_BLOCK"
    and av: "36 * SECTORS_PER_BLOCK \<le> rdist (usable s) (used s) * SECTORS_PER_BLOCK + SECTORS_PER_BLOCK
          - ipa_active s * SECTORS_PER_PAGE"
  shows "wp (on_flash (\<lambda>_. flash_sync)) (wp (create_one_delta_chkpt FLAG_DELTA_COMMITTED)
      (wp reset_delta_buf (\<lambda>t. flush_mid t vol \<and> same_gc s t) (\<lambda>t. crash_inv t st)) (\<lambda>t. crash_inv t st))
    (\<lambda>t. crash_inv t st) s"
proof -
  have ram: "ram_inv s" and gc: "gc_lsa_ok (enable_gc s) (lsa_gc s) (p2l s) (victim_psa s)"
    and view: "same_view (view s) vol" and map: "map_ok (l2p s) (p2l s)"
    and st: "stored_ok (l2p s) (lsas_merge s) (flash (fl s))"
    and merge: "merge_ok (lsas_merge s) 0 (l2p s) (mk_psa (pba_active s) (ipa_active s) 0)"
    and chk: "chkpt_ok (fl s) (pba_delta s) (ipa_delta s) (delta_buf s) (ptr_delta_buf s) (ptr_full s) (l2p s) st"
    and rec: "recoverable (fl s) st" and env: "env_ok (fl s)"
    using inv isa by (simp_all add: base_inv_defs chkpt_ok_def)
  let ?nd = "delta_count (pba_delta s) (ipa_delta s)" and ?f = "sync_all (fl s)"
  let ?g = "put_delta ?nd (delta_buf s) 0 ?f"
  have env': "env_ok ?f" using env by (simp add: env_ok_def cells)
  have chk': "chkpt_ok ?f (pba_delta s) (ipa_delta s) (delta_buf s) (ptr_delta_buf s) (ptr_full s) (l2p s) st"
    by (rule chkpt_ok_data [OF chk same_meta_data(3) env']) (simp add: keeps_def cells)
  have lm: "lsas_merge s 0 = N_LAS" "lsas_merge s 1 = N_LAS" using merge by (simp_all add: merge_ok_iff)
  have sec: "sector (fl s) (l2p s la) o' = vol la o'" if "la < N_LAS" "o' < N_ENTRIES_PER_SECTOR" for la o'
    using view lm that by (auto simp: same_view_def view_def)
  have hold: "holds ?f (l2p s) vol" by (rule holds_synced [OF map st lm sec])
  note K = chkpt_ok_commit [OF chk' refl nd tab hold]
  have data: "flash ?g b p = flash (fl s) b p" if "PBA_DATA \<le> b" for b p
    using that put_delta_data(1) [OF nd, of b] by (simp add: cells macros)
  note R = ram_inv_data [OF ram data]
  let ?t = "\<lambda>k n. (delta_written 0 k (s\<lparr>fl := ?f\<lparr>nrand := n\<rparr>\<rparr>))\<lparr>ptr_delta_buf := 0,
      idx := OFFSET_LAS + N_DELTA_PAIR, delta_buf := cleared (delta_buf (delta_written 0 k (s\<lparr>fl := ?f\<lparr>nrand := n\<rparr>\<rparr>)))\<rparr>"
  have mid: "flush_mid (?t k n) vol \<and> same_gc s (?t k n)" for k n
  proof -
    have "ram_inv (?t k n)"
      using ram R(1,2) by (simp add: ram_inv_def delta_written_def Let_def active_psa_def victim_psa_def put_delta_def)
    moreover have "same_view (view (?t k n)) vol"
      using sec R(3) lm by (simp add: delta_written_def Let_def same_view_def view_def put_delta_def)
    ultimately show ?thesis
      using K gc ip isa av
      by (simp add: flush_mid_def same_gc_def delta_written_def Let_def victim_psa_def put_delta_def)
  qed
  show ?thesis
    unfolding wp_reset_delta_buf FLAG_DELTA_COMMITTED_def
  proof (rule wp_on_sync [OF env])
    fix n
    show "wp (create_one_delta_chkpt 0) (\<lambda>t. flush_mid (t\<lparr>ptr_delta_buf := 0, idx := OFFSET_LAS + N_DELTA_PAIR,
      delta_buf := cleared (delta_buf t)\<rparr>) vol \<and> same_gc s (t\<lparr>ptr_delta_buf := 0, idx := OFFSET_LAS + N_DELTA_PAIR,
      delta_buf := cleared (delta_buf t)\<rparr>)) (\<lambda>t. crash_inv t st) (s\<lparr>fl := ?f\<lparr>nrand := n\<rparr>\<rparr>)"
      using chk' env' nd mid
      by (intro wp_create_one_delta_chkpt) (auto simp: chkpt_ok_def intro: crash_inv_crashed)
  qed (rule crash_inv_crashed [OF rec env])
qed

lemma flush_mid_meta: "flush_mid s vol \<Longrightarrow> meta_inv (fl s) (l2p s) vol"
  by (simp add: flush_mid_def meta_inv_def chkpt_ok_def)

lemma wp_flush_full:
  assumes mid: "flush_mid s vol"
  shows "wp create_full_chkpt (wp toggle_full_chkpt (wp delete_full_chkpt (wp delete_all_delta_chkpts
      (\<lambda>t. flush_mid t vol \<and> delta_count (pba_delta t) (ipa_delta t) = 1 \<and> same_gc s t) (\<lambda>t. crash_inv t vol))
      (\<lambda>t. crash_inv t vol)) (\<lambda>t. crash_inv t vol)) (\<lambda>t. crash_inv t vol) s"
proof (rule wp_replace_chkpts [OF flush_mid_meta [OF mid]])
  have chk: "chkpt_ok (fl s) (pba_delta s) (ipa_delta s) (delta_buf s) 0 (ptr_full s) (l2p s) vol"
    and ram: "ram_inv s"
    using mid by (simp_all add: flush_mid_def)
  show ok: "full_ok (fl s) (ptr_full s)" using chk by (simp add: chkpt_ok_def)
  have db: "delta_buf_ok (delta_buf s) 0" using chk by (simp add: chkpt_ok_def)
  then show las: "\<And>i. i < N_DELTA_PAIR \<Longrightarrow> delta_buf s (i + OFFSET_LAS) = N_LAS" by (simp add: delta_buf_ok_def)
  fix f
  assume f: "meta_inv f (l2p s) vol" "delta_ok f 0 1" "full_ok f (1 - ptr_full s)" "\<And>b. logged (l2p s) (cleared b) f 1"
    "\<And>b p. PBA_DATA \<le> b \<Longrightarrow> flash f b p = flash (fl s) b p"
  let ?t = "s\<lparr>buf_commit := (buf_commit s)(0 := 0), ptr_full := 1 - ptr_full s, delta_buf := (delta_buf s)(0 := 0),
        fl := f, ipa_delta := 1, pba_delta := 0\<rparr>"
  note R = ram_inv_data [OF ram f(5)]
  have "cleared ((delta_buf s)(0 := 0)) = (delta_buf s)(0 := 0)"
  proof
    fix i
    have "delta_buf s i = N_LAS" if "OFFSET_LAS \<le> i" "i < OFFSET_LAS + N_DELTA_PAIR"
      using las [of "i - OFFSET_LAS"] that by simp
    then show "cleared ((delta_buf s)(0 := 0)) i = ((delta_buf s)(0 := 0)) i"
      by (auto simp: cleared_def macros)
  qed
  then have "logged (l2p s) ((delta_buf s)(0 := 0)) f 1" using f(4) [of "(delta_buf s)(0 := 0)"] by simp
  moreover have "delta_buf_ok ((delta_buf s)(0 := 0)) 0" using db by (simp add: delta_buf_ok_def macros)
  ultimately have "chkpt_ok f 0 1 ((delta_buf s)(0 := 0)) 0 (1 - ptr_full s) (l2p s) vol"
    using f meta_invD(1,2) [OF f(1)] by (simp add: chkpt_ok_def delta_count_def)
  moreover have "ram_inv ?t"
    using ram R(1,2) by (simp add: ram_inv_def active_psa_def victim_psa_def)
  moreover have "same_view (view ?t) (view s)"
    using R(3) by (simp add: same_view_def view_def)
  then have "same_view (view ?t) vol" using mid by (auto simp: flush_mid_def intro: same_view_trans)
  ultimately show "flush_mid ?t vol \<and> delta_count (pba_delta ?t) (ipa_delta ?t) = 1 \<and> same_gc s ?t"
    using mid meta_invD(3) [OF f(1)]
    by (simp add: flush_mid_def victim_psa_def delta_count_def same_gc_def)
qed simp_all

lemma flush_done:
  assumes mid: "flush_mid s vol" and nd: "delta_count (pba_delta s) (ipa_delta s) \<le> WB_PAGES"
  shows "ftl_inv (s\<lparr>invalid := used s, gcprog := 0, wcnt := 0\<rparr>) vol vol" (is "ftl_inv ?t vol vol")
proof -
  have ram: "ram_inv s" and st: "\<And>la. la < N_LAS \<Longrightarrow> stable_l2p (fl s) la = l2p s la"
    using mid by (simp_all add: flush_mid_def)
  have I: "blocks_ok (blk_list s) (usable s) (erasable s) (invalid s) (used s) (active s) (pba_active s)"
    "free_ok (l2p s) (blk_list s) (usable s) (used s)" using ram by (simp_all add: ram_inv_def)
  have sf: "stable_free (fl s) (blk_list s) (usable s) (used s)"
    using I(2) st by (simp add: stable_free_def free_ok_def)
  have "ram_inv ?t"
    using ram blocks_ok_release [OF I(1)] by (simp add: ram_inv_def active_psa_def victim_psa_def)
  moreover have "space_inv ?t"
    using mid nd by (simp add: flush_mid_def space_inv_def delta_space_def avail_sectors_def macros)
  moreover have "view ?t = view s" by (simp add: view_def fun_eq_iff)
  ultimately show ?thesis
    using mid sf by (simp add: flush_mid_def ftl_inv_def base_inv_def chkpt_inv_def victim_psa_def)
qed

section \<open>Flush\<close>

lemma ftl_inv_failed: "ftl_inv (s\<lparr>failed := x\<rparr>) vol st = ftl_inv s vol st"
  by (simp add: ftl_inv_defs active_psa_def victim_psa_def space_inv_def avail_sectors_def same_view_def view_def)

lemma wp_persist_merge_buffer_unless_empty:
  assumes inv: "ftl_inv s vol st" and us: "0 < rdist (usable s) (erasable s)"
    and ready: "36 \<le> rdist (usable s) (used s)"
  shows "wp persist_merge_buffer_unless_empty (\<lambda>t. base_inv t vol st \<and> isa_active t = 0 \<and> table_ok (l2p t)
      \<and> delta_count (pba_delta t) (ipa_delta t) < N_DELTA_PAGES \<and> ipa_active t < PAGES_PER_BLOCK
      \<and> 36 * SECTORS_PER_BLOCK \<le> rdist (usable t) (used t) * SECTORS_PER_BLOCK + SECTORS_PER_BLOCK
          - ipa_active t * SECTORS_PER_PAGE \<and> kept s t) C s"
proof -
  note I = ftl_invD [OF inv]
  have tab: "table_ok (l2p s)" by (rule table_ok_l2p [OF I(1,3,2) ready])
  have nd: "delta_count (pba_delta s) (ipa_delta s) < N_DELTA_PAGES"
    using I(8) by (auto simp: space_inv_def delta_space_def macros)
  show ?thesis
  proof (cases "isa_active s = 0")
    case True
    then show ?thesis
      using inv tab nd ready I(7)
      by (auto simp: persist_merge_buffer_unless_empty_def wp_only_if merge_buf_empty_def ftl_inv_def kept_refl macros)
  next
    case False
    have "wp persist_merge_buffer (\<lambda>t. base_inv t vol st \<and> isa_active t = 0 \<and> table_ok (l2p t)
      \<and> delta_count (pba_delta t) (ipa_delta t) < N_DELTA_PAGES \<and> ipa_active t < PAGES_PER_BLOCK
      \<and> 36 * SECTORS_PER_BLOCK \<le> rdist (usable t) (used t) * SECTORS_PER_BLOCK + SECTORS_PER_BLOCK
          - ipa_active t * SECTORS_PER_PAGE \<and> kept s t) C s"
      by (rule wp_mono [OF wp_persist_merge_buffer [OF inv us]])
         (use tab nd ready in \<open>auto simp: kept_def macros\<close>)
    then show ?thesis
      using False by (simp add: persist_merge_buffer_unless_empty_def wp_only_if merge_buf_empty_def)
  qed
qed

definition flushed :: "ftl \<Rightarrow> ftl \<Rightarrow> bool" where
  "flushed s t \<longleftrightarrow> same_gc s t \<and> invalid t = used t \<and> gcprog t = 0 \<and> wcnt t = 0"

lemma flushed_end: "same_gc s t \<Longrightarrow> flushed s (t\<lparr>invalid := used t, gcprog := 0, wcnt := 0\<rparr>)"
  by (simp add: flushed_def same_gc_def)

lemma wp_flush_end:
  assumes mid: "flush_mid s vol"
  shows "wp (block [
     only_if delta_chkpt_region_almost_full (block [
       create_full_chkpt, toggle_full_chkpt, delete_full_chkpt, delete_all_delta_chkpts]),
     make_all_invalid_blocks_erasable,
     assign (\<lambda>s. s\<lparr>gcprog := 0\<rparr>),
     assign (\<lambda>s. s\<lparr>wcnt := 0\<rparr>)]) (\<lambda>t. ftl_inv t vol vol \<and> flushed s t) (\<lambda>t. crash_inv t vol) s"
proof -
  let ?F = "\<lambda>t. ftl_inv (t\<lparr>invalid := used t, gcprog := 0, wcnt := 0\<rparr>) vol vol
    \<and> flushed s (t\<lparr>invalid := used t, gcprog := 0, wcnt := 0\<rparr>)"
  have full: "wp create_full_chkpt (wp toggle_full_chkpt (wp delete_full_chkpt (wp delete_all_delta_chkpts
      ?F (\<lambda>t. crash_inv t vol)) (\<lambda>t. crash_inv t vol)) (\<lambda>t. crash_inv t vol)) (\<lambda>t. crash_inv t vol) s"
  proof -
    have F: "?F t" if "flush_mid t vol \<and> delta_count (pba_delta t) (ipa_delta t) = 1 \<and> same_gc s t" for t
      using that by (intro conjI flush_done flushed_end) (simp_all add: macros)
    show ?thesis by (rule wp_mono [OF wp_flush_full [OF mid]], (erule wp_mono)+) (erule F, assumption+)
  qed
  have small: "?F s" if "\<not> delta_chkpt_region_almost_full s"
  proof (intro conjI flushed_end same_gc_refl flush_done [OF mid])
    have "delta_ok (fl s) (pba_delta s) (ipa_delta s)" using mid by (simp add: flush_mid_def chkpt_ok_def)
    then show "delta_count (pba_delta s) (ipa_delta s) \<le> WB_PAGES"
      using that by (auto simp: delta_ok_def delta_chkpt_region_almost_full_def delta_count_def macros)
  qed
  show ?thesis
    using full small by (simp add: wp_block wp_only_if make_all_invalid_blocks_erasable_def wp_assign)
qed

lemma wp_ftl_flush:
  assumes inv: "ftl_inv s vol st" and pre: "ftl_flush_precond_holds s"
  shows "wp ftl_flush (\<lambda>t. ftl_inv t vol vol \<and> flushed s t) (\<lambda>t. crash_inv t st \<or> crash_inv t vol) s"
proof -
  let ?C = "\<lambda>t. crash_inv t st \<or> crash_inv t vol" and ?Q = "\<lambda>t. ftl_inv t vol vol \<and> flushed s t"
  note b = blocks_okD [OF ftl_invD(1) [OF inv]]
  have ready: "36 \<le> rdist (usable s) (used s)"
    using pre n_ready_blks_rdist [OF b(1,4)] by (simp add: ftl_flush_precond_holds_def)
  have inv': "ftl_inv (s\<lparr>failed := 0\<rparr>) vol st" using inv by (simp add: ftl_inv_failed)
  let ?E = "block [
     only_if delta_chkpt_region_almost_full (block [
       create_full_chkpt, toggle_full_chkpt, delete_full_chkpt, delete_all_delta_chkpts]),
     make_all_invalid_blocks_erasable,
     assign (\<lambda>s. s\<lparr>gcprog := 0\<rparr>),
     assign (\<lambda>s. s\<lparr>wcnt := 0\<rparr>)]"
  let ?K = "wp (on_flash (\<lambda>_. flash_sync)) (wp (create_one_delta_chkpt FLAG_DELTA_COMMITTED)
      (wp reset_delta_buf (wp ?E ?Q ?C) ?C) ?C) ?C"
  have fin: "wp ?E ?Q ?C t" if "flush_mid t vol" "same_gc s t" for t
    by (rule wp_mono [OF wp_flush_end [OF that(1)]])
       (use that(2) in \<open>auto simp: flushed_def intro: same_gc_trans\<close>)
  have K: "?K t" if "base_inv t vol st \<and> isa_active t = 0 \<and> table_ok (l2p t)
      \<and> delta_count (pba_delta t) (ipa_delta t) < N_DELTA_PAGES \<and> ipa_active t < PAGES_PER_BLOCK
      \<and> 36 * SECTORS_PER_BLOCK \<le> rdist (usable t) (used t) * SECTORS_PER_BLOCK + SECTORS_PER_BLOCK
          - ipa_active t * SECTORS_PER_PAGE" "same_gc s t" for t
    using that(1) fin same_gc_trans [OF that(2)]
    by (elim conjE) (rule wp_mono [OF wp_flush_commit], assumption+, (erule wp_mono)+, auto)
  have P: "wp persist_merge_buffer_unless_empty ?K ?C t"
    if "ftl_inv t vol st \<and> kept (s\<lparr>failed := 0\<rparr>) t \<and> usable t = usable (s\<lparr>failed := 0\<rparr>)
      \<and> 0 < rdist (usable t) (erasable t)" for t
  proof (rule wp_mono [OF wp_persist_merge_buffer_unless_empty [where vol = vol and st = st]])
    have k: "kept s t" "usable t = usable s" using that by (simp_all add: kept_def)
    show "ftl_inv t vol st" "0 < rdist (usable t) (erasable t)" "36 \<le> rdist (usable t) (used t)"
      using that k ready by (simp_all add: kept_def)
    show "?K u" if "base_inv u vol st \<and> isa_active u = 0 \<and> table_ok (l2p u)
      \<and> delta_count (pba_delta u) (ipa_delta u) < N_DELTA_PAGES \<and> ipa_active u < PAGES_PER_BLOCK
      \<and> 36 * SECTORS_PER_BLOCK \<le> rdist (usable u) (used u) * SECTORS_PER_BLOCK + SECTORS_PER_BLOCK
          - ipa_active u * SECTORS_PER_PAGE \<and> kept t u" for u
      using that kept_trans [OF k(1)] by (intro K) (auto intro: same_gc_kept)
  qed auto
  have "wp make_one_erasable_block_free_when_free_blklist_empty (wp persist_merge_buffer_unless_empty ?K ?C) ?C (s\<lparr>failed := 0\<rparr>)"
    by (intro wp_mono [OF wp_make_one_erasable_block_free_when_free_blklist_empty [OF inv']] P) auto
  then show ?thesis
    using pre by (simp only: ftl_flush_def wp_block check_sufficient_ready_blocks_def wp_cond wp_assign
        ftl_flush_precond_holds_def if_True)
qed

end
