(* ===== verification/FtlRecovery.thy ===== *)
theory FtlRecovery
  imports FtlFlush
begin

text \<open>
  \<open>ftl_recovery\<close> and \<open>ftl_format\<close> of \<^verbatim>\<open>src/ftl.c\<close>. Recovery starts with
  arbitrary contents of the memory and a flash that holds a snapshot; it rebuilds the tables, replaces
  the checkpoints and establishes the invariant with the snapshot as the contents of the disk. A power
  loss during recovery keeps the snapshot.
\<close>

section \<open>Finding the last committed delta page\<close>

text \<open>The position \<open>(pba, ipa)\<close> after the first \<open>c\<close> delta pages, as the code stores it.\<close>

definition position :: "nat \<Rightarrow> nat \<Rightarrow> nat \<Rightarrow> bool" where
  "position pc ic c \<longleftrightarrow> (c = 0 \<and> pc = 0 \<and> ic = 0)
     \<or> (1 \<le> ic \<and> ic \<le> PAGES_PER_BLOCK \<and> c = pc * PAGES_PER_BLOCK + ic)"

lemma position_after:
  assumes "position pc ic c" "p < PAGES_PER_BLOCK"
  shows "(pc < b \<or> b = pc \<and> ic \<le> p) \<longleftrightarrow> c \<le> b * PAGES_PER_BLOCK + p"
proof -
  consider "pc < b" | "b = pc" | "b < pc" by linarith
  then show ?thesis
  proof cases
    case 1
    then have "pc * PAGES_PER_BLOCK + PAGES_PER_BLOCK \<le> b * PAGES_PER_BLOCK"
      using mult_le_mono1 [of "Suc pc" b PAGES_PER_BLOCK] by simp
    then show ?thesis using assms 1 by (auto simp: position_def)
  next
    case 3
    then have "b * PAGES_PER_BLOCK + PAGES_PER_BLOCK \<le> pc * PAGES_PER_BLOCK"
      using mult_le_mono1 [of "Suc b" pc PAGES_PER_BLOCK] by simp
    then show ?thesis using assms 3 by (auto simp: position_def)
  qed (use assms in \<open>auto simp: position_def\<close>)
qed

lemma wp_find_last_committed_delta_chkpt:
  assumes "\<And>t. position (pba_committed t) (ipa_committed t) (last_commit (fl s) N_DELTA_PAGES) \<Longrightarrow>
    fl t = fl s \<Longrightarrow> ptr_full t = ptr_full s \<Longrightarrow> l2p t = l2p s \<Longrightarrow> Q t"
  shows "wp find_last_committed_delta_chkpt Q C s"
proof -
  let ?P = PAGES_PER_BLOCK
  let ?I = "\<lambda>n (t :: ftl). blkid t = n div ?P \<and> pgid t = n mod ?P \<and> fl t = fl s \<and> ptr_full t = ptr_full s \<and> l2p t = l2p s
      \<and> position (pba_committed t) (ipa_committed t) (last_commit (fl s) n)"
  have "wp find_last_committed_delta_chkpt_loop Q C
      (s\<lparr>pba_committed := 0, ipa_committed := 0, blkid := 0, pgid := 0\<rparr>)"
    unfolding find_last_committed_delta_chkpt_loop_def
  proof (rule wp_while_count [where I = ?I and N = N_DELTA_PAGES])
    fix n t assume n: "n < N_DELTA_PAGES" and I: "?I n t"
    have b: "n div ?P < BLOCKS_DELTA" "n mod ?P < ?P" using delta_block_less [OF n] zero_page_less(1) by simp_all
    have u: "u32 (Suc (n mod ?P)) = Suc (n mod ?P)" "u32 (Suc (n div ?P)) = Suc (n div ?P)"
      using b by (simp_all add: macros)
    have pos: "position (n div ?P) (Suc (n mod ?P)) (Suc n)"
      using b(2) by (simp add: position_def)
    then have pos': "Suc (n mod ?P) = ?P \<Longrightarrow> position (n div ?P) ?P (Suc n)" by simp
    have nb: "n div ?P < NUM_PHYSICAL_BLOCKS" using b(1) by (simp add: macros)
    show "blkid t \<noteq> BLOCKS_DELTA \<and> wp find_last_committed_delta_chkpt_body (?I (Suc n)) C t"
      using I b nb u pos pos'
      by (simp add: find_last_committed_delta_chkpt_body_def vcg div_Suc mod_Suc delta_page_def cong: wp_cong)
  qed (use assms in \<open>auto simp: position_def N_DELTA_PAGES_def zero_page_less\<close>)
  then show ?thesis
    by (simp add: find_last_committed_delta_chkpt_def reset_committed_point_def vcg cong: wp_cong)
qed

lemma wp_reset_committed_point_when_first_delta_page_erased:
  assumes "position (pba_committed s) (ipa_committed s) (last_commit (fl s) N_DELTA_PAGES)"
    and "\<And>t. position (pba_committed t) (ipa_committed t) (commit_point (fl s)) \<Longrightarrow>
    fl t = fl s \<Longrightarrow> ptr_full t = ptr_full s \<Longrightarrow> l2p t = l2p s \<Longrightarrow> Q t"
  shows "wp reset_committed_point_when_first_delta_page_erased Q C s"
proof -
  have "delta_page (fl s) 0 = page_data (flash (fl s) 0 0)" by (simp add: delta_page_def)
  then show ?thesis
    using assms
    by (simp add: reset_committed_point_when_first_delta_page_erased_def first_delta_page_erased_def
        reset_committed_point_def vcg commit_point_def position_def macros cong: wp_cong)
qed

section \<open>Applying the delta pages\<close>

definition entry :: "flashemu \<Rightarrow> nat \<Rightarrow> nat \<Rightarrow> (nat \<Rightarrow> nat) \<Rightarrow> nat \<Rightarrow> nat" where
  "entry f j i m = m(delta_page f j (i + OFFSET_LAS) := delta_page f j (i + OFFSET_PAS))"

text \<open>The table after the first \<open>i\<close> entries of page \<open>j\<close>, when the first \<open>c\<close> pages count.\<close>

definition partial_replay :: "flashemu \<Rightarrow> nat \<Rightarrow> nat \<Rightarrow> nat \<Rightarrow> (nat \<Rightarrow> nat) \<Rightarrow> nat \<Rightarrow> nat" where
  "partial_replay f c j i m = (if j < c then fold (entry f j) [0..<i] (replay f j m) else replay f c m)"

lemma partial_replay_Suc:
  "partial_replay f c j (Suc i) m = (if j < c then entry f j i (partial_replay f c j i m) else partial_replay f c j i m)"
  by (simp add: partial_replay_def)

lemma partial_replay_page: "partial_replay f c j N_DELTA_PAIR m = partial_replay f c (Suc j) 0 m"
proof -
  have F: "fold (entry f j) [0..<N_DELTA_PAIR] (replay f j m) = replay f (Suc j) m"
    by (simp add: apply_page_def entry_def [abs_def])
  consider "Suc j < c" | "c = Suc j" | "c \<le> j" by linarith
  then show ?thesis
  proof cases
    case 1
    then show ?thesis unfolding partial_replay_def F by simp
  next
    case 2
    then show ?thesis unfolding partial_replay_def F by simp
  next
    case 3
    then show ?thesis by (simp add: partial_replay_def)
  qed
qed

lemma wp_apply_delta_chkpt:
  assumes pos: "position (pba_committed s) (ipa_committed s) c" and c: "c \<le> N_DELTA_PAGES"
    and las: "\<And>j i. j < c \<Longrightarrow> i < N_DELTA_PAIR \<Longrightarrow> delta_page (fl s) j (i + OFFSET_LAS) \<le> N_LAS"
    and Q: "\<And>t. l2p t = replay (fl s) c (l2p s) \<Longrightarrow> fl t = fl s \<Longrightarrow> ptr_full t = ptr_full s \<Longrightarrow> Q t"
  shows "wp apply_delta_chkpt Q C s"
proof -
  let ?P = PAGES_PER_BLOCK and ?D = N_DELTA_PAIR
  let ?I = "\<lambda>n (t :: ftl). idx t = n mod ?D \<and> blkid t = n div ?D div ?P \<and> pgid t = n div ?D mod ?P
      \<and> fl t = fl s \<and> ptr_full t = ptr_full s \<and> pba_committed t = pba_committed s \<and> ipa_committed t = ipa_committed s
      \<and> (n mod ?D \<noteq> 0 \<longrightarrow> buf_tmp t = delta_page (fl s) (n div ?D))
      \<and> l2p t = partial_replay (fl s) c (n div ?D) (n mod ?D) (l2p s)"
  have "wp apply_delta_chkpt_loop Q C (s\<lparr>blkid := 0, pgid := 0, idx := 0\<rparr>)"
    unfolding apply_delta_chkpt_loop_def
  proof (rule wp_while_count [where I = ?I and N = "N_DELTA_PAGES * ?D"])
    fix n t assume n: "n < N_DELTA_PAGES * ?D" and I: "?I n t"
    let ?j = "n div ?D" and ?i = "n mod ?D"
    have j: "?j < N_DELTA_PAGES" using n by (simp add: less_mult_imp_div_less)
    have i: "?i < ?D" by (simp add: macros)
    have b: "?j div ?P < BLOCKS_DELTA" "?j mod ?P < ?P" using delta_block_less [OF j] zero_page_less(1) by simp_all
    have aft: "(pba_committed s < ?j div ?P \<or> ?j div ?P = pba_committed s \<and> ipa_committed s \<le> ?j mod ?P) \<longleftrightarrow> c \<le> ?j"
      using position_after [OF pos b(2), of "?j div ?P"] by simp
    have ix: "?i + OFFSET_LAS < N_ENTRIES_PER_PAGE" "?i + OFFSET_PAS < N_ENTRIES_PER_PAGE" "u64 (Suc ?i) = Suc ?i"
      "u32 (Suc (?j mod ?P)) = Suc (?j mod ?P)" "u32 (Suc (?j div ?P)) = Suc (?j div ?P)" "?j div ?P < NUM_PHYSICAL_BLOCKS"
      using i b by (simp_all add: macros)
    have w: "?j < c \<Longrightarrow> delta_page (fl s) ?j (?i + OFFSET_LAS) < N_LAS + 1" using las [of ?j ?i] i by simp
    let ?T = "block [
     assign (\<lambda>s. s\<lparr>idx := u64 (idx s + 1)\<rparr>),
     only_if (\<lambda>s. idx s = N_DELTA_PAIR) (block [
       assign (\<lambda>s. s\<lparr>idx := 0\<rparr>),
       assign (\<lambda>s. s\<lparr>pgid := u32 (pgid s + 1)\<rparr>)]),
     only_if (\<lambda>s. pgid s = PAGES_PER_BLOCK) (block [
       assign (\<lambda>s. s\<lparr>pgid := 0\<rparr>),
       assign (\<lambda>s. s\<lparr>blkid := u32 (blkid s + 1)\<rparr>)])]"
    have tail: "wp ?T (?I (Suc n)) C u"
      if u: "idx u = ?i" "blkid u = ?j div ?P" "pgid u = ?j mod ?P" "buf_tmp u = delta_page (fl s) ?j" "fl u = fl s"
        "ptr_full u = ptr_full s" "pba_committed u = pba_committed s" "ipa_committed u = ipa_committed s"
        "l2p u = partial_replay (fl s) c ?j (Suc ?i) (l2p s)" for u
    proof (cases "Suc ?i = ?D")
      case True
      then have "Suc n mod ?D = 0" "Suc n div ?D = Suc ?j" by (simp_all add: mod_Suc div_Suc)
      then show ?thesis
        using True u ix b by (simp add: vcg div_Suc [of ?j] mod_Suc [of ?j] partial_replay_page cong: wp_cong)
    next
      case False
      then have "Suc n mod ?D = Suc ?i" "Suc n div ?D = ?j" by (simp_all add: mod_Suc div_Suc)
      then show ?thesis using False u ix b by (simp add: vcg cong: wp_cong)
    qed
    let ?B = "only_if (\<lambda>s. \<not> (blkid s > pba_committed s \<or> (blkid s = pba_committed s \<and> pgid s \<ge> ipa_committed s)))
       (rd N_ENTRIES_PER_PAGE buf_tmp (\<lambda>s. idx s + OFFSET_LAS) (\<lambda>la.
        rd N_ENTRIES_PER_PAGE buf_tmp (\<lambda>s. idx s + OFFSET_PAS) (\<lambda>pa.
        wr (N_LAS + 1) l2p_update (\<lambda>_. la) (\<lambda>_. pa))))"
    have mid: "wp ?B (wp ?T (?I (Suc n)) C) C u" if u: "?I n u" "buf_tmp u = delta_page (fl s) ?j" for u
    proof -
      have g: "(blkid u > pba_committed u \<or> (blkid u = pba_committed u \<and> pgid u \<ge> ipa_committed u)) = (c \<le> ?j)"
        using u(1) aft by simp
      have "wp ?T (?I (Suc n)) C u" if "c \<le> ?j"
        using u that by (intro tail) (simp_all add: partial_replay_Suc)
      moreover have "wp ?T (?I (Suc n)) C (u\<lparr>l2p := entry (fl s) ?j ?i (l2p u)\<rparr>)" if "\<not> c \<le> ?j"
        using u that by (intro tail) (simp_all add: partial_replay_Suc)
      ultimately show ?thesis
        unfolding wp_only_if g using u ix w by (simp add: wp_rd wp_wr entry_def)
    qed
    have "wp (only_if (\<lambda>s. idx s = 0) (read_page blkid pgid buf_tmp_update)) (wp ?B (wp ?T (?I (Suc n)) C) C) C t"
    proof (cases "?i = 0")
      case True
      let ?t = "t\<lparr>buf_tmp := delta_page (fl s) ?j\<rparr>"
      have "?I n ?t" using I by simp
      then have "wp ?B (wp ?T (?I (Suc n)) C) C ?t" by (rule mid) simp
      then show ?thesis using True I b ix by (simp add: wp_only_if wp_read_page delta_page_def)
    next
      case False
      then show ?thesis using I mid [OF I] by (simp add: wp_only_if)
    qed
    then show "blkid t \<noteq> BLOCKS_DELTA \<and> wp apply_delta_chkpt_body (?I (Suc n)) C t"
      using I b by (simp only: apply_delta_chkpt_body_def wp_block) simp
  qed (use Q c in \<open>auto simp: partial_replay_def macros\<close>)
  then show ?thesis
    by (simp add: apply_delta_chkpt_def vcg cong: wp_cong)
qed

section \<open>Rebuilding the reverse map\<close>

definition remap :: "(nat \<Rightarrow> nat) \<Rightarrow> nat \<Rightarrow> (nat \<Rightarrow> nat) \<Rightarrow> nat \<Rightarrow> nat" where
  "remap l n p = fold (\<lambda>i m. if l i < N_PAS then m(l i := i) else m) [0..<n] p"

lemma remap_miss: "(\<And>i. i < n \<Longrightarrow> l i \<noteq> a) \<Longrightarrow> remap l n p a = p a"
  by (induction n) (auto simp: remap_def)

lemma remap_hit:
  "inj_on l {i. i < n \<and> l i < N_PAS} \<Longrightarrow> l i < N_PAS \<Longrightarrow> i < n \<Longrightarrow> remap l n p (l i) = i"
proof (induction n)
  case (Suc n)
  show ?case
  proof (cases "l n = l i")
    case True
    then have "i = n" using Suc.prems by (auto simp: inj_on_def)
    then show ?thesis using Suc.prems by (simp add: remap_def)
  next
    case False
    then have "i < n" using Suc.prems(3) by (auto simp: less_Suc_eq)
    moreover have "inj_on l {i. i < n \<and> l i < N_PAS}" using Suc.prems(1) by (auto simp: inj_on_def)
    ultimately have "remap l n p (l i) = i" using Suc.prems(2) by (intro Suc.IH)
    then show ?thesis using False by (simp add: remap_def)
  qed
qed simp

lemma map_ok_remap_all:
  assumes tab: "table_ok l" and p: "\<And>a. a \<le> N_PAS \<Longrightarrow> p a = N_LAS"
  shows "map_ok l (remap l N_LAS p)"
proof -
  have r: "PBA_DATA * SECTORS_PER_BLOCK \<le> l la \<and> l la \<le> N_PAS" if "la < N_LAS" for la
    using tab that by (simp add: table_ok_def)
  have inj: "inj_on l {i. i < N_LAS \<and> l i < N_PAS}"
    using tab by (auto simp: table_ok_def inj_on_def)
  have "remap l N_LAS p a \<le> N_LAS \<and> (\<forall>la<N_LAS. remap l N_LAS p a = la \<longleftrightarrow> l la = a)" if a: "a < N_PAS" for a
  proof (cases "\<exists>i<N_LAS. l i = a")
    case True
    then obtain i where i: "i < N_LAS" "l i = a" by blast
    then have "remap l N_LAS p a = i" using remap_hit [OF inj _ i(1), of p] a by simp
    moreover have "i = la" if "la < N_LAS" "l la = a" for la
      using inj_onD [OF inj, of i la] i that a by simp
    ultimately show ?thesis using i by (metis less_imp_le)
  next
    case False
    then have "remap l N_LAS p a = N_LAS" using remap_miss [of N_LAS l a p] p [of a] a by simp
    then show ?thesis using False by auto
  qed
  then show ?thesis using r by (simp add: map_ok_def)
qed

lemma wp_reconstruct_p2l:
  assumes l: "\<And>la. la < N_LAS \<Longrightarrow> l2p s la \<le> N_PAS"
    and Q: "\<And>p. (\<And>a. a \<le> N_PAS \<Longrightarrow> p a = N_LAS) \<Longrightarrow> Q (s\<lparr>p2l := remap (l2p s) N_LAS p, idx := N_LAS\<rparr>)"
  shows "wp reconstruct_p2l Q C s"
proof -
  define p where "p = (\<lambda>i. if i < N_PAS + 1 then N_LAS else p2l s i)"
  define F where "F n = s\<lparr>p2l := (\<lambda>i. if i < n then N_LAS else p2l s i), idx := n\<rparr>" for n
  define G where "G n = s\<lparr>p2l := remap (l2p s) n p, idx := n\<rparr>" for n
  have "wp invalidate_p2l_loop (\<lambda>t. t = F (N_PAS + 1)) (\<lambda>_. False) (F 0)"
    unfolding invalidate_p2l_loop_def
    by (rule wp_while_iterate [where N = "N_PAS + 1"])
       (auto simp: F_def invalidate_p2l_body_def wp_simps fun_eq_iff macros)
  moreover have "F 0 = s\<lparr>idx := 0\<rparr>" by (simp add: F_def)
  moreover have "F (N_PAS + 1) = s\<lparr>p2l := p, idx := N_PAS + 1\<rparr>" by (simp add: F_def p_def)
  ultimately have inv: "wp invalidate_p2l_loop R C (s\<lparr>idx := 0\<rparr>) = R (s\<lparr>p2l := p, idx := N_PAS + 1\<rparr>)" for R C
    by (auto simp: wp_def split: outcome.splits)
  have "wp remap_valid_sectors_loop Q C (G 0)"
    unfolding remap_valid_sectors_loop_def
  proof (rule wp_while_iterate [where N = N_LAS])
    fix n assume n: "n < N_LAS"
    have u: "u32 n = n" "u64 (Suc n) = Suc n" "n < N_LAS + 1" "l2p s n < N_PAS + 1"
      using n l [OF n] by (simp_all add: macros)
    show "idx (G n) \<noteq> N_LAS \<and> wp remap_valid_sectors_body (\<lambda>t. t = G (Suc n)) C (G n)"
      using n u by (simp add: G_def remap_valid_sectors_body_def wp_simps remap_def)
  qed (use Q [of p] in \<open>auto simp: G_def p_def\<close>)
  moreover have "G 0 = s\<lparr>p2l := p, idx := 0\<rparr>" by (simp add: G_def remap_def)
  ultimately show ?thesis
    by (simp add: reconstruct_p2l_def invalidate_p2l_def remap_valid_sectors_def wp_block wp_assign inv)
qed

end
