(* ===== verification/FtlRebuild.thy ===== *)
theory FtlRebuild
  imports FtlRecovery
begin

text \<open>
  The second half of \<open>ftl_recovery\<close> of \<^verbatim>\<open>src/ftl.c\<close>: the counters of valid sectors
  and the block list are computed from the mapping table, and the check that the table is injective.
  Each loop is shown to compute a fold over the logical sectors or the blocks.
\<close>

section \<open>Counting the valid sectors\<close>

definition count_upto :: "(nat \<Rightarrow> nat) \<Rightarrow> nat \<Rightarrow> (nat \<Rightarrow> nat) \<Rightarrow> nat \<Rightarrow> nat" where
  "count_upto l n v = fold (\<lambda>i v. v(PSA_TO_PBA (l i) := u16 (v (PSA_TO_PBA (l i)) + 1))) [0..<n] v"

lemma count_upto_card:
  assumes "v b = 0" "card (block_las l b) < 65536" "n \<le> N_LAS"
  shows "count_upto l n v b = card {la. la < n \<and> PSA_TO_PBA (l la) = b}"
  using assms(3)
proof (induction n)
  case 0
  then show ?case using assms(1) by (simp add: count_upto_def)
next
  case (Suc n)
  let ?S = "{la. la < n \<and> PSA_TO_PBA (l la) = b}"
  have IH: "count_upto l n v b = card ?S" using Suc by simp
  have split: "{la. la < Suc n \<and> PSA_TO_PBA (l la) = b} = (if PSA_TO_PBA (l n) = b then insert n ?S else ?S)"
    by (auto simp: less_Suc_eq)
  have "card {la. la < Suc n \<and> PSA_TO_PBA (l la) = b} \<le> card (block_las l b)"
    using Suc.prems by (intro card_mono) (auto simp: block_las_def)
  then have "card {la. la < Suc n \<and> PSA_TO_PBA (l la) = b} < 65536" using assms(2) by linarith
  then show ?case
    using IH split by (cases "PSA_TO_PBA (l n) = b") (simp_all add: count_upto_def)
qed

lemma wp_reconstruct_vcnts:
  assumes map: "map_ok (l2p s) (p2l s)"
    and Q: "\<And>v. vcnt_ok (l2p s) v \<Longrightarrow> Q (s\<lparr>vcnts := v, idx := BLOCKS_TOTAL, sectid := N_LAS\<rparr>)"
  shows "wp reconstruct_vcnts Q C s"
proof -
  let ?l = "l2p s"
  define z where "z = (\<lambda>n i. if i < n then 0 else vcnts s i)"
  define F where "F n = s\<lparr>vcnts := z n, idx := n\<rparr>" for n
  define G where "G n = s\<lparr>vcnts := count_upto ?l n (z BLOCKS_TOTAL), idx := BLOCKS_TOTAL, sectid := n\<rparr>" for n
  have "wp reset_vcnts_loop (\<lambda>t. t = F BLOCKS_TOTAL) (\<lambda>_. False) (F 0)"
    unfolding reset_vcnts_loop_def
    by (rule wp_while_iterate [where N = BLOCKS_TOTAL])
       (auto simp: F_def z_def reset_vcnts_body_def wp_simps fun_eq_iff macros)
  moreover have "F 0 = s\<lparr>idx := 0\<rparr>" by (simp add: F_def z_def)
  ultimately have reset: "wp reset_vcnts_loop R C (s\<lparr>idx := 0\<rparr>) = R (F BLOCKS_TOTAL)" for R C
    by (auto simp: wp_def split: outcome.splits)
  have vcnt: "vcnt_ok ?l (count_upto ?l N_LAS (z BLOCKS_TOTAL))"
  proof -
    have "count_upto ?l N_LAS (z BLOCKS_TOTAL) b = card {la. la < N_LAS \<and> PSA_TO_PBA (?l la) = b}"
      if "b < BLOCKS_TOTAL" for b
      using card_block_las [OF map that] that by (intro count_upto_card) (simp_all add: z_def macros)
    then show ?thesis by (simp add: vcnt_ok_def)
  qed
  have "wp count_valid_sectors_loop Q C (G 0)"
    unfolding count_valid_sectors_loop_def
  proof (rule wp_while_iterate [where N = N_LAS])
    fix n assume n: "n < N_LAS"
    have "?l n \<le> N_PAS" using map n by (simp add: map_ok_def)
    then have "PSA_TO_PBA (?l n) < BLOCKS_TOTAL + 1" by (simp add: PSA_TO_PBA_eq macros)
    moreover have "u32 (Suc n) = Suc n" using n by (simp add: macros)
    ultimately show "sectid (G n) \<noteq> N_LAS \<and> wp count_valid_sectors_body (\<lambda>t. t = G (Suc n)) C (G n)"
      using n by (simp add: G_def count_valid_sectors_body_def vcnts_inc_def wp_simps count_upto_def)
  qed (use Q [OF vcnt] in \<open>simp_all add: G_def\<close>)
  moreover have "G 0 = (F BLOCKS_TOTAL)\<lparr>sectid := 0\<rparr>" by (simp add: G_def F_def count_upto_def)
  ultimately show ?thesis
    by (simp add: reconstruct_vcnts_def reset_vcnts_def count_valid_sectors_def wp_block wp_assign reset)
qed

section \<open>The block list\<close>

definition mark_upto :: "(nat \<Rightarrow> nat) \<Rightarrow> nat \<Rightarrow> (nat \<Rightarrow> nat) \<Rightarrow> nat \<Rightarrow> nat" where
  "mark_upto l n u = fold (\<lambda>i u. u(PSA_TO_PBA (l i) - PBA_DATA := 1)) [0..<n] u"

lemma mark_upto_iff:
  "mark_upto l n u k \<noteq> 0 \<longleftrightarrow> u k \<noteq> 0 \<or> (\<exists>i<n. PSA_TO_PBA (l i) - PBA_DATA = k)"
  by (induction n) (auto simp: mark_upto_def less_Suc_eq)

text \<open>The block list and the number of used blocks after the first \<open>n\<close> blocks were categorized.\<close>

primrec categorized :: "(nat \<Rightarrow> nat) \<Rightarrow> (nat \<Rightarrow> nat) \<Rightarrow> nat \<Rightarrow> (nat \<Rightarrow> nat) \<times> nat" where
  "categorized u bl 0 = (bl, 0)"
| "categorized u bl (Suc n) = (case categorized u bl n of (b, e) \<Rightarrow>
     if u n \<noteq> 0 then (b(n := b e, e := PBA_DATA + n), Suc e) else (b(n := PBA_DATA + n), e))"

definition sorted_blocks :: "(nat \<Rightarrow> nat) \<Rightarrow> (nat \<Rightarrow> nat) \<Rightarrow> nat \<Rightarrow> nat \<Rightarrow> bool" where
  "sorted_blocks u b e n \<longleftrightarrow> e \<le> n \<and> inj_on b {..<n}
     \<and> (\<forall>k<n. PBA_DATA \<le> b k \<and> b k < PBA_DATA + n)
     \<and> (\<forall>k<n. u (b k - PBA_DATA) \<noteq> 0 \<longleftrightarrow> k < e)"

lemma sorted_blocks_used:
  assumes s: "sorted_blocks u b e n" and "u n \<noteq> 0"
  shows "sorted_blocks u (b(n := b e, e := PBA_DATA + n)) (Suc e) (Suc n)"
proof -
  let ?b = "b(n := b e, e := PBA_DATA + n)"
  have e: "e \<le> n" and inj: "inj_on b {..<n}" and r: "\<And>k. k < n \<Longrightarrow> PBA_DATA \<le> b k \<and> b k < PBA_DATA + n"
    and u: "\<And>k. k < n \<Longrightarrow> u (b k - PBA_DATA) \<noteq> 0 \<longleftrightarrow> k < e"
    using s by (auto simp: sorted_blocks_def)
  have eq: "b j = b k \<Longrightarrow> j < n \<Longrightarrow> k < n \<Longrightarrow> j = k" for j k using inj by (auto dest: inj_onD)
  have ne: "b k \<noteq> PBA_DATA + n" if "k < n" for k using r [OF that] by simp
  define old where "old j = (if j = n then e else j)" for j
  have old: "?b j = b (old j)" "old j < n" if "j \<in> {..<Suc n}" "j \<noteq> e" for j
    using that e by (auto simp: old_def)
  have new: "?b e = PBA_DATA + n" by simp
  have "inj_on ?b {..<Suc n}"
  proof (rule inj_onI)
    fix j k assume jk: "j \<in> {..<Suc n}" "k \<in> {..<Suc n}" "?b j = ?b k"
    have "old j = old k" if "j \<noteq> e" "k \<noteq> e"
      using jk(3) old(2) [OF jk(1) that(1)] old(2) [OF jk(2) that(2)]
      unfolding old(1) [OF jk(1) that(1)] old(1) [OF jk(2) that(2)] by (rule eq)
    moreover have "k = e" if "j = e"
      using jk(3) old [OF jk(2)] ne new that by metis
    moreover have "j = e" if "k = e"
      using jk(3) old [OF jk(1)] ne new that by metis
    ultimately show "j = k" unfolding old_def by metis
  qed
  moreover have "PBA_DATA \<le> ?b k \<and> ?b k < PBA_DATA + Suc n" if "k < Suc n" for k
    using that e r [of k] r [of e] by (auto simp: less_Suc_eq)
  moreover have "u (?b k - PBA_DATA) \<noteq> 0 \<longleftrightarrow> k < Suc e" if "k < Suc n" for k
    using that e u [of k] u [of e] assms(2) by (auto simp: less_Suc_eq)
  ultimately show ?thesis using e by (simp add: sorted_blocks_def)
qed

lemma sorted_blocks_unused:
  assumes "sorted_blocks u b e n" and "u n = 0"
  shows "sorted_blocks u (b(n := PBA_DATA + n)) e (Suc n)"
  using assms by (auto simp: sorted_blocks_def less_Suc_eq inj_on_def)

lemma sorted_categorized: "case categorized u bl n of (b, e) \<Rightarrow> sorted_blocks u b e n"
proof (induction n)
  case 0
  then show ?case by (simp add: sorted_blocks_def)
next
  case (Suc n)
  then show ?case
    by (auto simp: sorted_blocks_used sorted_blocks_unused split: prod.splits)
qed

text \<open>The block list that recovery builds: used blocks first, the others from \<open>e\<close> on.\<close>

definition rebuilt_list :: "(nat \<Rightarrow> nat) \<Rightarrow> (nat \<Rightarrow> nat) \<Rightarrow> nat \<Rightarrow> bool" where
  "rebuilt_list l b e \<longleftrightarrow> e \<le> BLOCKS_DATA - 36 \<and> inj_on b {..<BLOCKS_DATA}
     \<and> (\<forall>k<BLOCKS_DATA. PBA_DATA \<le> b k \<and> b k < BLOCKS_TOTAL)
     \<and> (\<forall>k<BLOCKS_DATA. e \<le> k \<longrightarrow> (\<forall>la<N_LAS. PSA_TO_PBA (l la) \<noteq> b k))"

lemma rebuilt_listI:
  assumes s: "sorted_blocks u b e BLOCKS_DATA" and tab: "table_ok l"
    and u: "\<And>k. k < BLOCKS_DATA \<Longrightarrow> u k \<noteq> 0 \<longleftrightarrow> (\<exists>la<N_LAS. PSA_TO_PBA (l la) - PBA_DATA = k)"
  shows "rebuilt_list l b e"
proof -
  have r: "PBA_DATA \<le> b k" "b k < BLOCKS_TOTAL" "b k - PBA_DATA < BLOCKS_DATA" if "k < BLOCKS_DATA" for k
    using s that by (auto simp: sorted_blocks_def macros)
  have inj: "inj_on b {..<BLOCKS_DATA}" and e: "e \<le> BLOCKS_DATA"
    and ue: "\<And>k. k < BLOCKS_DATA \<Longrightarrow> u (b k - PBA_DATA) \<noteq> 0 \<longleftrightarrow> k < e"
    using s by (auto simp: sorted_blocks_def)
  have lo: "PBA_DATA \<le> PSA_TO_PBA (l la)" if "la < N_LAS" for la
    using tab that by (auto simp: table_ok_def PSA_TO_PBA_eq macros dest!: spec [of _ la])
  have "b ` {..<e} \<subseteq> used_blocks l"
  proof
    fix x assume "x \<in> b ` {..<e}"
    then obtain k where k: "k < e" "x = b k" by auto
    then have "k < BLOCKS_DATA" using e by simp
    with k ue [of k] u [OF r(3)] obtain la where "la < N_LAS" "PSA_TO_PBA (l la) - PBA_DATA = b k - PBA_DATA" by blast
    then have "la < N_LAS" "PSA_TO_PBA (l la) = b k" using lo r(1) [OF \<open>k < BLOCKS_DATA\<close>] by (auto simp: eq_diff_iff)
    then show "x \<in> used_blocks l" using r(1,2) [OF \<open>k < BLOCKS_DATA\<close>] k by (auto simp: used_blocks_def)
  qed
  moreover have "finite (used_blocks l)" by (simp add: used_blocks_def)
  moreover have "card (b ` {..<e}) = e"
    using inj_on_subset [OF inj, of "{..<e}"] e by (simp add: card_image)
  ultimately have "e \<le> card (used_blocks l)" by (metis card_mono)
  then have "e \<le> BLOCKS_DATA - 36" using tab by (simp add: table_ok_def)
  moreover have "PSA_TO_PBA (l la) \<noteq> b k" if "k < BLOCKS_DATA" "e \<le> k" "la < N_LAS" for k la
    using ue [OF that(1)] u [OF r(3) [OF that(1)]] that(2,3) by auto
  ultimately show ?thesis using inj r(1,2) by (simp add: rebuilt_list_def)
qed

lemma wp_identify_used_blocks:
  assumes tab: "table_ok (l2p s)"
    and Q: "Q (s\<lparr>is_used := mark_upto (l2p s) N_LAS (is_used s), sectid := N_LAS\<rparr>)"
  shows "wp identify_used_blocks Q C s"
proof -
  define G where "G n = s\<lparr>is_used := mark_upto (l2p s) n (is_used s), sectid := n\<rparr>" for n
  have "wp identify_used_blocks_loop Q C (G 0)"
    unfolding identify_used_blocks_loop_def
  proof (rule wp_while_iterate [where N = N_LAS])
    fix n assume n: "n < N_LAS"
    let ?b = "PSA_TO_PBA (l2p s n)"
    have "PBA_DATA * SECTORS_PER_BLOCK \<le> l2p s n" "l2p s n \<le> N_PAS" using tab n by (simp_all add: table_ok_def)
    then have b: "PBA_DATA \<le> ?b" "?b \<le> BLOCKS_TOTAL" by (simp_all add: PSA_TO_PBA_eq macros)
    then have "sub32 ?b PBA_DATA = ?b - PBA_DATA" "?b - PBA_DATA < BLOCKS_DATA + 1"
      by (simp_all add: macros)
    moreover have "u32 (Suc n) = Suc n" using n by (simp add: macros)
    ultimately show "sectid (G n) \<noteq> N_LAS \<and> wp identify_used_blocks_body (\<lambda>t. t = G (Suc n)) C (G n)"
      using n by (simp add: G_def identify_used_blocks_body_def wp_simps mark_upto_def)
  qed (use Q in \<open>simp_all add: G_def\<close>)
  moreover have "G 0 = s\<lparr>sectid := 0\<rparr>" by (simp add: G_def mark_upto_def)
  ultimately show ?thesis by (simp add: identify_used_blocks_def wp_block wp_assign)
qed

lemma wp_categorize_used_and_erasable_blocks:
  assumes e: "erasable s = 0"
    and Q: "\<And>b e. sorted_blocks (is_used s) b e BLOCKS_DATA \<Longrightarrow>
      Q (s\<lparr>erasable := e, blk_list := b, idx := BLOCKS_DATA, blkid := BLOCKS_TOTAL\<rparr>)"
  shows "wp categorize_used_and_erasable_blocks Q C s"
proof -
  let ?I = "\<lambda>n t. \<exists>b e. t = s\<lparr>erasable := e, blk_list := b, idx := n, blkid := PBA_DATA + n\<rparr>
    \<and> sorted_blocks (is_used s) b e n"
  have "wp categorize_used_and_erasable_blocks_loop Q C (s\<lparr>idx := 0, blkid := PBA_DATA\<rparr>)"
    unfolding categorize_used_and_erasable_blocks_loop_def
  proof (rule wp_while_count [where I = ?I and N = BLOCKS_DATA])
    show "?I 0 (s\<lparr>idx := 0, blkid := PBA_DATA\<rparr>)"
      using e by (intro exI [of _ "blk_list s"] exI [of _ 0]) (simp add: sorted_blocks_def)
    show "idx t \<noteq> BLOCKS_DATA \<and> wp categorize_used_and_erasable_blocks_body (?I (Suc n)) C t"
      if n: "n < BLOCKS_DATA" and I: "?I n t" for n t
    proof -
      obtain b e where t: "t = s\<lparr>erasable := e, blk_list := b, idx := n, blkid := PBA_DATA + n\<rparr>"
        and sb: "sorted_blocks (is_used s) b e n" using I by blast
      have "e \<le> n" using sb by (simp add: sorted_blocks_def)
      then have u: "u64 (Suc n) = Suc n" "u64 (Suc e) = Suc e" "u32 (Suc (PBA_DATA + n)) = Suc (PBA_DATA + n)"
        "e < BLOCKS_DATA" using n by (simp_all add: macros)
      show ?thesis
      proof (cases "is_used s n = 0")
        case True
        then show ?thesis
          using n t u sorted_blocks_unused [OF sb True]
          by (auto simp: categorize_used_and_erasable_blocks_body_def wp_simps)
      next
        case False
        have "wp categorize_used_and_erasable_blocks_body
          (\<lambda>t. t = s\<lparr>erasable := Suc e, blk_list := b(n := b e, e := PBA_DATA + n), idx := Suc n,
             blkid := PBA_DATA + Suc n\<rparr>) C t"
          using n t u False by (simp add: categorize_used_and_erasable_blocks_body_def wp_simps)
        then have "wp categorize_used_and_erasable_blocks_body (?I (Suc n)) C t"
          by (rule wp_mono) (use sorted_blocks_used [OF sb False] in blast)+
        then show ?thesis using n t by simp
      qed
    qed
    show "\<not> idx t \<noteq> BLOCKS_DATA \<and> Q t" if "?I BLOCKS_DATA t" for t
      using that Q by (auto simp: macros)
  qed
  then show ?thesis by (simp add: categorize_used_and_erasable_blocks_def wp_block wp_assign)
qed

lemma wp_reconstruct_block_list:
  assumes tab: "table_ok (l2p s)"
    and Q: "\<And>b e u. rebuilt_list (l2p s) b e \<Longrightarrow>
      Q (s\<lparr>invalid := 0, used := 0, is_used := u, sectid := N_LAS, erasable := e, blk_list := b,
           idx := BLOCKS_DATA, blkid := BLOCKS_TOTAL, usable := e\<rparr>)"
  shows "wp reconstruct_block_list Q C s"
proof -
  let ?l = "l2p s"
  let ?u = "mark_upto ?l N_LAS (fill_words 0 (BLOCKS_DATA + 1) (is_used s))"
  let ?s = "s\<lparr>erasable := 0, invalid := 0, used := 0, is_used := fill_words 0 (BLOCKS_DATA + 1) (is_used s)\<rparr>"
  have u: "?u k \<noteq> 0 \<longleftrightarrow> (\<exists>la<N_LAS. PSA_TO_PBA (?l la) - PBA_DATA = k)" if "k < BLOCKS_DATA" for k
    using that by (simp only: mark_upto_iff) (simp add: fill_words_apply)
  have "wp categorize_used_and_erasable_blocks (\<lambda>t. Q (t\<lparr>usable := erasable t\<rparr>)) C
      (?s\<lparr>is_used := ?u, sectid := N_LAS\<rparr>)"
  proof (rule wp_categorize_used_and_erasable_blocks)
    fix b e assume "sorted_blocks (is_used (?s\<lparr>is_used := ?u, sectid := N_LAS\<rparr>)) b e BLOCKS_DATA"
    then have "rebuilt_list ?l b e" by (intro rebuilt_listI [OF _ tab u]) simp_all
    from Q [OF this, of ?u]
    show "Q (?s\<lparr>is_used := ?u, sectid := N_LAS, erasable := e, blk_list := b, idx := BLOCKS_DATA,
        blkid := BLOCKS_TOTAL, usable := erasable (?s\<lparr>is_used := ?u, sectid := N_LAS, erasable := e, blk_list := b,
          idx := BLOCKS_DATA, blkid := BLOCKS_TOTAL\<rparr>)\<rparr>)"
      by simp
  qed simp
  then have "wp identify_used_blocks (wp categorize_used_and_erasable_blocks (\<lambda>t. Q (t\<lparr>usable := erasable t\<rparr>)) C) C ?s"
    using tab by (intro wp_identify_used_blocks) simp_all
  then show ?thesis
    by (simp add: reconstruct_block_list_def wp_block wp_assign wp_memset)
qed

section \<open>The check that the table is injective\<close>

definition used_upto :: "(nat \<Rightarrow> nat) \<Rightarrow> nat \<Rightarrow> (nat \<Rightarrow> nat) \<Rightarrow> nat \<Rightarrow> nat" where
  "used_upto l n u = fold (\<lambda>i u. u(l i := 1)) [0..<n] u"

lemma used_upto_iff: "used_upto l n u a = 1 \<longleftrightarrow> u a = 1 \<or> (\<exists>i<n. l i = a)"
  by (induction n) (auto simp: used_upto_def less_Suc_eq)

text \<open>
  The check reports a failure exactly when two logical sectors share a physical one.
\<close>

definition shares :: "(nat \<Rightarrow> nat) \<Rightarrow> nat \<Rightarrow> bool" where
  "shares l n \<longleftrightarrow> (\<exists>j<n. \<exists>i<j. l i = l j \<and> l j \<noteq> N_PAS)"

lemma shares_Suc: "shares l (Suc n) \<longleftrightarrow> shares l n \<or> (l n \<noteq> N_PAS \<and> (\<exists>i<n. l i = l n))"
  unfolding shares_def less_Suc_eq by metis

lemma wp_check_l2p_injective:
  assumes l: "\<And>la. la < N_LAS \<Longrightarrow> l2p s la \<le> N_PAS"
    and Q: "\<And>u. Q (s\<lparr>failed := (if shares (l2p s) N_LAS then 1 else 0), pa_used := u, sectid := N_LAS\<rparr>)"
  shows "wp check_l2p_injective Q C s"
proof -
  let ?l = "l2p s" and ?u = "fill_words 0 (N_PAS + 1) (pa_used s)"
  define G where "G n = s\<lparr>failed := (if shares ?l n then 1 else 0), pa_used := used_upto ?l n ?u, sectid := n\<rparr>" for n
  have "wp check_l2p_injective_loop Q C (G 0)"
    unfolding check_l2p_injective_loop_def
  proof (rule wp_while_iterate [where N = N_LAS])
    fix n assume n: "n < N_LAS"
    have b: "?l n < N_PAS + 1" "u32 (Suc n) = Suc n" using n l [OF n] by (simp_all add: macros)
    have u: "(used_upto ?l n ?u (?l n) = 1) = (\<exists>i<n. ?l i = ?l n)"
      using b(1) by (simp only: used_upto_iff) (simp add: fill_words_apply)
    have "used_upto ?l (Suc n) ?u = (used_upto ?l n ?u)(?l n := 1)" by (simp add: used_upto_def)
    then show "sectid (G n) \<noteq> N_LAS \<and> wp check_l2p_injective_body (\<lambda>t. t = G (Suc n)) C (G n)"
      using n b u by (simp add: G_def check_l2p_injective_body_def wp_simps shares_Suc)
  qed (use Q in \<open>simp_all add: G_def\<close>)
  moreover have "G 0 = s\<lparr>sectid := 0, failed := 0, pa_used := ?u\<rparr>"
    by (simp add: G_def shares_def used_upto_def)
  ultimately show ?thesis by (simp add: check_l2p_injective_def wp_block wp_assign wp_memset)
qed

end
