(* ===== verification/FtlBoot.thy ===== *)
theory FtlBoot
  imports FtlRebuild
begin

text \<open>
  \<open>ftl_recovery\<close> as a whole, and \<open>ftl_format\<close> of \<^verbatim>\<open>src/ftl.c\<close>, which makes a
  flash that recovery accepts.
\<close>

section \<open>The table that recovery reads\<close>

abbreviation chkpt_slot :: "flashemu \<Rightarrow> nat" where
  "chkpt_slot f \<equiv> if full_committed f 0 then 0 else 1"

lemma wp_find_apply_full:
  assumes Q: "\<And>t. fl t = fl s \<Longrightarrow> ptr_full t = chkpt_slot (fl s) \<Longrightarrow>
      \<forall>la<N_LAS. l2p t la = full_table (fl s) (chkpt_slot (fl s)) la \<Longrightarrow> Q t"
  shows "wp find_committed_full_chkpt (wp apply_full_chkpt Q C) C s"
proof -
  let ?k = "chkpt_slot (fl s)" and ?pg = "page_data (flash (fl s) PBA_FIRST_FULL_COMMIT 0)"
  let ?l = "\<lambda>i. if i < 512 * 2048 then page_data (flash (fl s) (full_base ?k) (i div 2048)) (i mod 2048) else l2p s i"
  have k: "(?pg 0 = 0) = full_committed (fl s) 0" by (simp add: full_committed_def full_base_def macros)
  have b: "PBA_FIRST_FULL_COMMIT < NUM_PHYSICAL_BLOCKS" "0 < PAGES_PER_BLOCK" by (simp_all add: macros)
  have "Q (s\<lparr>buf_tmp := ?pg, ptr_full := ?k, l2p := ?l\<rparr>)"
    by (rule Q) (simp_all add: full_table_def macros)
  then show ?thesis
    using b by (simp add: find_committed_full_chkpt_def wp_block wp_read_page wp_assign wp_apply_full_chkpt
        pba_full_base k cong: if_cong)
qed

lemma wp_read_table:
  assumes c: "crash_inv s st"
    and Q: "\<And>t. fl t = fl s \<Longrightarrow> ptr_full t = chkpt_slot (fl s) \<Longrightarrow>
      (\<And>la. la < N_LAS \<Longrightarrow> l2p t la = stable_l2p (fl s) la) \<Longrightarrow> Q t"
  shows "wp (block [find_committed_full_chkpt, apply_full_chkpt, find_last_committed_delta_chkpt,
     reset_committed_point_when_first_delta_page_erased, apply_delta_chkpt,
     wr (N_LAS + 1) l2p_update (\<lambda>_. N_LAS) (\<lambda>_. N_PAS)]) Q C s"
proof -
  let ?f = "fl s" and ?k = "chkpt_slot (fl s)"
  let ?tab = "\<lambda>l. \<forall>la<N_LAS. l la = full_table ?f ?k la"
  have rec: "delta_synced ?f" using c by (simp add: crash_inv_def recoverable_def)
  have las: "delta_page ?f j (i + OFFSET_LAS) \<le> N_LAS" if "j < commit_point ?f" "i < N_DELTA_PAIR" for j i
    using rec that by (auto simp: delta_synced_def delta_log_ok_def commit_point_def split: if_splits)
  have app: "wp apply_delta_chkpt (wp (wr (N_LAS + 1) l2p_update (\<lambda>_. N_LAS) (\<lambda>_. N_PAS)) Q C) C t"
    if t: "position (pba_committed t) (ipa_committed t) (commit_point ?f)" "fl t = ?f" "ptr_full t = ?k" "?tab (l2p t)" for t
  proof (rule wp_apply_delta_chkpt [OF t(1) commit_point_le])
    fix u :: ftl assume u: "l2p u = replay (fl t) (commit_point ?f) (l2p t)" "fl u = fl t" "ptr_full u = ptr_full t"
    have "l2p u la = stable_l2p ?f la" if "la < N_LAS" for la
      unfolding u(1) stable_l2p_def chkpt_table_def t(2)
      by (rule replay_apply_cong) (use t(4) that in simp)
    then show "wp (wr (N_LAS + 1) l2p_update (\<lambda>_. N_LAS) (\<lambda>_. N_PAS)) Q C u"
      using u t Q [of "u\<lparr>l2p := (l2p u)(N_LAS := N_PAS)\<rparr>"] by (simp add: wp_wr)
  qed (use las t in simp)
  let ?A = "wp apply_delta_chkpt (wp (wr (N_LAS + 1) l2p_update (\<lambda>_. N_LAS) (\<lambda>_. N_PAS)) Q C) C"
  have find: "wp find_last_committed_delta_chkpt (wp reset_committed_point_when_first_delta_page_erased ?A C) C t"
    if t: "fl t = ?f" "ptr_full t = ?k" "?tab (l2p t)" for t
    by (intro wp_find_last_committed_delta_chkpt wp_reset_committed_point_when_first_delta_page_erased app)
       (use t in auto)
  have "wp find_committed_full_chkpt (wp apply_full_chkpt
     (wp find_last_committed_delta_chkpt (wp reset_committed_point_when_first_delta_page_erased ?A C) C) C) C s"
    by (rule wp_find_apply_full) (use find in blast)
  then show ?thesis by (simp add: wp_block)
qed

section \<open>The checkpoints\<close>

definition fresh_chkpts :: "flashemu \<Rightarrow> nat \<Rightarrow> (nat \<Rightarrow> nat) \<Rightarrow> (nat \<Rightarrow> nat \<Rightarrow> nat) \<Rightarrow> bool" where
  "fresh_chkpts f pf l st \<longleftrightarrow> meta_inv f l st \<and> delta_ok f 0 1 \<and> full_ok f pf
     \<and> (\<forall>b. logged l (cleared b) f 1)"

lemma wp_renew_chkpts:
  assumes m: "meta_inv (fl s) (l2p s) st" and pf: "ptr_full s = chkpt_slot (fl s)"
    and C: "\<And>t. crash_inv t st \<Longrightarrow> C t"
    and Q: "\<And>t db. l2p t = l2p s \<Longrightarrow> fresh_chkpts (fl t) (ptr_full t) (l2p s) st \<Longrightarrow>
      delta_buf t = (cleared db)(0 := 0) \<Longrightarrow> ptr_delta_buf t = 0 \<Longrightarrow> ipa_delta t = 1 \<Longrightarrow> pba_delta t = 0 \<Longrightarrow> Q t"
  shows "wp (block [on_flash (\<lambda>_. flash_sync), reset_delta_buf, toggle_full_chkpt, delete_full_chkpt,
     create_full_chkpt, toggle_full_chkpt, delete_full_chkpt, delete_all_delta_chkpts]) Q C s"
proof -
  let ?k = "chkpt_slot (fl s)" and ?db = "cleared (delta_buf s)" and ?l = "l2p s"
  let ?R = "wp create_full_chkpt (wp toggle_full_chkpt (wp delete_full_chkpt (wp delete_all_delta_chkpts Q C) C) C) C"
  have k: "?k < 2" "1 - ?k < 2" "1 - (1 - ?k) = ?k" "u32 (Suc ?k) mod 2 = 1 - ?k"
    by (auto simp: u32_def)
  note S = meta_sync [OF m]
  have eq: "full_committed (sync_all (fl s)) = full_committed (fl s)"
    by (simp add: full_committed_def [abs_def] cells)
  have c: "full_committed (sync_all (fl s)) (1 - (1 - ?k))"
    unfolding eq k(3) using meta_invD(4) [OF m] by (auto simp: full_synced_def)
  have ct: "chkpt_table (sync_all (fl s)) = full_table (sync_all (fl s)) (1 - (1 - ?k))"
    unfolding chkpt_table_def eq k(3) by simp
  have r: "replay (sync_all (fl s)) (commit_point (sync_all (fl s))) (full_table (sync_all (fl s)) (1 - (1 - ?k))) la = ?l la"
    if "la < N_LAS" for la
    using meta_invD(3) [OF S that] unfolding stable_l2p_def ct .
  note D = deleted_full_inv [OF S k(2) c r]
  let ?g = "deleted_full (1 - ?k) (sync_all (fl s))"
  have repl: "?R (s\<lparr>ptr_delta_buf := 0, idx := i, delta_buf := ?db, ptr_full := 1 - ?k, fl := ?g\<lparr>nrand := n\<rparr>\<rparr>)" for i n
  proof (rule wp_replace_chkpts [where l = ?l and st = st])
    fix f assume f: "meta_inv f ?l st" "delta_ok f 0 1" "\<And>b. logged ?l (cleared b) f 1"
      "full_ok f (1 - ptr_full (s\<lparr>ptr_delta_buf := 0, idx := i, delta_buf := ?db, ptr_full := 1 - ?k, fl := ?g\<lparr>nrand := n\<rparr>\<rparr>))"
    show "Q ((s\<lparr>ptr_delta_buf := 0, idx := i, delta_buf := ?db, ptr_full := 1 - ?k, fl := ?g\<lparr>nrand := n\<rparr>\<rparr>)
      \<lparr>buf_commit := (buf_commit (s\<lparr>ptr_delta_buf := 0, idx := i, delta_buf := ?db, ptr_full := 1 - ?k, fl := ?g\<lparr>nrand := n\<rparr>\<rparr>))(0 := 0),
       ptr_full := 1 - ptr_full (s\<lparr>ptr_delta_buf := 0, idx := i, delta_buf := ?db, ptr_full := 1 - ?k, fl := ?g\<lparr>nrand := n\<rparr>\<rparr>),
       delta_buf := (delta_buf (s\<lparr>ptr_delta_buf := 0, idx := i, delta_buf := ?db, ptr_full := 1 - ?k, fl := ?g\<lparr>nrand := n\<rparr>\<rparr>))(0 := 0),
       fl := f, ipa_delta := 1, pba_delta := 0\<rparr>)"
      by (rule Q) (use f in \<open>simp_all add: fresh_chkpts_def\<close>)
  qed (use D C in \<open>simp_all add: cleared_def macros\<close>)
  have del: "wp delete_full_chkpt ?R C (s\<lparr>fl := (sync_all (fl s))\<lparr>nrand := n\<rparr>, ptr_delta_buf := 0,
      idx := OFFSET_LAS + N_DELTA_PAIR, delta_buf := ?db, ptr_full := 1 - ?k\<rparr>)" for n
    by (rule wp_delete_full_chkpt [where l = ?l and st = st])
       (use S C repl in \<open>simp_all add: deleted_full_def uncommitted_def\<close>)
  have "wp (on_flash (\<lambda>_. flash_sync)) (\<lambda>t. wp delete_full_chkpt ?R C (t\<lparr>ptr_delta_buf := 0,
      idx := OFFSET_LAS + N_DELTA_PAIR, delta_buf := cleared (delta_buf t), ptr_full := u32 (Suc (ptr_full t)) mod 2\<rparr>)) C s"
    by (rule wp_on_sync [OF meta_invD(2) [OF m]])
       (use del pf k(4) in \<open>auto intro!: C meta_inv_crash [OF m]\<close>)
  then show ?thesis
    by (simp add: wp_block wp_reset_delta_buf toggle_full_chkpt_def wp_assign)
qed

section \<open>The memory\<close>

lemma rdist_rebuilt:
  assumes "e \<le> BLOCKS_DATA - 36"
  shows "rdist (Suc e) (Suc e) = 0" "rdist (Suc e) 0 = BLOCKS_DATA - 1 - e" "BLK_LIST_NEXT e = Suc e"
    "k < BLOCKS_DATA - 1 - e \<Longrightarrow> ring b (Suc e) k = b (Suc e + k)"
  using assms by (simp_all add: rdist_def ring_def BLK_LIST_NEXT_def macros)

lemma recovered_ram:
  fixes t :: ftl
  assumes map: "map_ok (l2p t) (p2l t)" and v: "vcnt_ok (l2p t) (vcnts t)" and r: "rebuilt_list (l2p t) (blk_list t) e"
    and b: "usable t = Suc e" "erasable t = Suc e" "invalid t = 0" "used t = 0" "active t = e" "pba_active t = blk_list t e"
    and m: "ipa_active t = 0" "isa_active t = 0" "lsas_merge t 0 = N_LAS" "lsas_merge t 1 = N_LAS"
    and g: "enable_gc t = 0" "ipa_gc t = 0" "isa_gc t = 0" "pba_gc t = PBA_DATA"
    and er: "\<And>p. p < PAGES_PER_BLOCK \<Longrightarrow> flash (fl t) (blk_list t e) p = None"
    and st: "\<And>la. la < N_LAS \<Longrightarrow> flash (fl t) (PSA_TO_PBA (l2p t la)) (PSA_TO_IPA (l2p t la)) \<noteq> None"
  shows "ram_inv t"
proof -
  have e: "e \<le> BLOCKS_DATA - 36" "e < BLOCKS_DATA" "Suc e < BLOCKS_DATA" using r by (auto simp: rebuilt_list_def macros)
  note d = rdist_rebuilt [OF e(1)]
  have un: "PSA_TO_PBA (l2p t la) \<noteq> blk_list t k" if "e \<le> k" "k < BLOCKS_DATA" "la < N_LAS" for k la
    using r that unfolding rebuilt_list_def by blast
  have "blocks_ok (blk_list t) (Suc e) (Suc e) 0 0 e (blk_list t e)"
    using r e d by (simp add: blocks_ok_def rebuilt_list_def)
  moreover have "free_ok (l2p t) (blk_list t) (Suc e) 0"
    unfolding free_ok_def d(2)
  proof (intro allI impI)
    fix la k assume k: "la < N_LAS" "k < BLOCKS_DATA - 1 - e"
    have "Suc e + k < BLOCKS_DATA" using k(2) by linarith
    then show "ring (blk_list t) (Suc e) k \<noteq> PSA_TO_PBA (l2p t la)"
      using un [of "Suc e + k" la] k(1) d(4) [OF k(2), of "blk_list t"] by simp
  qed
  moreover have "active_ok (l2p t) (blk_list t e) (active_psa t)"
    using un [of e] e(2) by (simp add: active_ok_def)
  moreover have "pages_ok (flash (fl t)) (blk_list t) (Suc e) (Suc e) (blk_list t e) 0"
    using er d(1) by (simp add: pages_ok_def)
  moreover have "merge_ok (lsas_merge t) 0 (l2p t) x" for x
    using m(3,4) by (auto simp: merge_ok_def macros less_2_cases_iff)
  moreover have "stored_ok (l2p t) (lsas_merge t) (flash (fl t))" using st by (simp add: stored_ok_def)
  moreover have "gc_ptr_ok PBA_DATA 0 0" by (simp add: gc_ptr_ok_def macros)
  ultimately show ?thesis
    using map v b m g by (simp add: ram_inv_def victim_ok_def gc_left_ok_def)
qed

lemma recovered_chkpt:
  assumes fresh: "fresh_chkpts f pf l st" and r: "rebuilt_list l b e"
  defines "g \<equiv> erase_blocks (b e) (Suc (b e)) False f"
  shows "chkpt_ok g 0 1 (cleared db) 0 pf l st" "stable_free g b (Suc e) 0" "holds g l st"
    "\<And>p. p < PAGES_PER_BLOCK \<Longrightarrow> flash g (b e) p = None"
proof -
  have m: "meta_inv f l st" and dl: "delta_ok f 0 1" "full_ok f pf" "logged l (cleared db) f 1"
    using fresh by (simp_all add: fresh_chkpts_def)
  note M = meta_invD [OF m]
  have e: "e \<le> BLOCKS_DATA - 36" "e < BLOCKS_DATA" using r by (auto simp: rebuilt_list_def macros)
  note d = rdist_rebuilt [OF e(1)]
  have be: "PBA_DATA \<le> b e" using r e(2) by (simp add: rebuilt_list_def)
  have un: "PSA_TO_PBA (l la) \<noteq> b k" if "e \<le> k" "k < BLOCKS_DATA" "la < N_LAS" for k la
    using r that unfolding rebuilt_list_def by blast
  have cell: "flash g c p = flash f c p" "synced g c p = synced f c p" if "c \<noteq> b e" for c p
    using that by (auto simp: g_def cells)
  have meta: "same_meta f g" using be by (simp add: g_def same_meta_data)
  have env: "env_ok g" using M(2) by (simp add: env_ok_def g_def cells)
  have ok: "chkpt_ok f 0 1 (cleared db) 0 pf l st"
    using dl M(1,2) cleared_ok by (simp add: chkpt_ok_def delta_count_def)
  show "chkpt_ok g 0 1 (cleared db) 0 pf l st"
    by (rule chkpt_ok_data [OF ok meta env]) (use un [of e] e(2) M(3) in \<open>simp add: keeps_def cell\<close>)
  have "stable_free f b (Suc e) 0"
    unfolding stable_free_def d(2)
  proof (intro allI impI)
    fix la k assume k: "la < N_LAS" "k < BLOCKS_DATA - 1 - e"
    have "Suc e + k < BLOCKS_DATA" using k(2) by linarith
    then show "ring b (Suc e) k \<noteq> PSA_TO_PBA (stable_l2p f la)"
      using un [of "Suc e + k" la] k(1) d(4) [OF k(2), of b] M(3) by simp
  qed
  then show "stable_free g b (Suc e) 0" using stable_free_meta [OF meta] by simp
  show "holds g l st"
    using M(7) un [of e] e(2) by (simp add: holds_def sector_def cell)
  show "flash g (b e) p = None" if "p < PAGES_PER_BLOCK" for p using that by (simp add: g_def cells)
qed

lemma recovered_inv:
  fixes t :: ftl
  assumes fresh: "fresh_chkpts f (ptr_full t) (l2p t) st" and map: "map_ok (l2p t) (p2l t)" and v: "vcnt_ok (l2p t) (vcnts t)"
    and r: "rebuilt_list (l2p t) (blk_list t) e"
    and b: "usable t = Suc e" "erasable t = Suc e" "invalid t = 0" "used t = 0" "active t = e" "pba_active t = blk_list t e"
    and m: "ipa_active t = 0" "isa_active t = 0" "lsas_merge t 0 = N_LAS" "lsas_merge t 1 = N_LAS"
    and g: "enable_gc t = 0" "ipa_gc t = 0" "isa_gc t = 0" "pba_gc t = PBA_DATA"
    and c: "delta_buf t = (cleared db)(0 := 0)" "ptr_delta_buf t = 0" "ipa_delta t = 1" "pba_delta t = 0"
    and w: "gcprog t = 0" "wcnt t = 0"
    and fl: "fl t = erase_blocks (blk_list t e) (Suc (blk_list t e)) False f"
  shows "ftl_inv t st st"
proof -
  have db: "(cleared db)(0 := 0) = cleared (db(0 := 0))" by (auto simp: cleared_def macros fun_eq_iff)
  note C = recovered_chkpt [OF fresh r, folded fl]
  have e: "e \<le> BLOCKS_DATA - 36" using r by (simp add: rebuilt_list_def)
  have st: "flash (fl t) (PSA_TO_PBA (l2p t la)) (PSA_TO_IPA (l2p t la)) \<noteq> None" if "la < N_LAS" for la
    using C(3) that unfolding holds_def by blast
  have ram: "ram_inv t" by (rule recovered_ram [OF map v r b m g]) (use C(4) st in blast)+
  have chk: "chkpt_inv t (l2p t) st" using C(1,2) b c by (simp add: chkpt_inv_def db)
  have view: "same_view (view t) st" using m C(3) by (simp add: same_view_def view_def holds_def)
  have "space_inv t"
    using w b m c e rdist_rebuilt(2) [OF e]
    by (simp add: space_inv_def avail_sectors_def delta_space_def delta_count_def macros)
  then show ?thesis
    using ram chk view m g by (simp add: ftl_inv_def base_inv_def gc_lsa_ok_def macros)
qed

text \<open>Recovery starts a new epoch and reports no failure.\<close>

definition rebooted :: "ftl \<Rightarrow> bool" where
  "rebooted t \<longleftrightarrow> failed t = 0 \<and> wcnt t = 0 \<and> gcprog t = 0 \<and> enable_gc t = 0"

lemma wp_rebuild_memory:
  assumes fresh: "fresh_chkpts (fl s) (ptr_full s) (l2p s) st"
    and c: "delta_buf s = (cleared db)(0 := 0)" "ptr_delta_buf s = 0" "ipa_delta s = 1" "pba_delta s = 0"
  shows "wp (block [reconstruct_p2l, reconstruct_vcnts, reconstruct_block_list, check_sufficient_avail_blocks,
     make_one_erasable_block_free, invalidate_merge_buffer, reset_data_pointer, reset_gc_pointer, check_l2p_injective,
     assign (\<lambda>s. s\<lparr>gcprog := 0\<rparr>), assign (\<lambda>s. s\<lparr>wcnt := 0\<rparr>)])
     (\<lambda>t. ftl_inv t st st \<and> rebooted t) C s"
proof -
  let ?Q = "\<lambda>t. ftl_inv t st st \<and> rebooted t"
  have m: "meta_inv (fl s) (l2p s) st" using fresh by (simp add: fresh_chkpts_def)
  note tab = meta_invD(6) [OF m]
  have le: "l2p s la \<le> N_PAS" if "la < N_LAS" for la using tab that by (simp add: table_ok_def)
  have inj: "\<not> shares (l2p s) N_LAS"
    using tab unfolding shares_def table_ok_def by (metis less_trans less_irrefl)
  have last: "wp (block [check_sufficient_avail_blocks,
       make_one_erasable_block_free, invalidate_merge_buffer, reset_data_pointer, reset_gc_pointer, check_l2p_injective,
       assign (\<lambda>s. s\<lparr>gcprog := 0\<rparr>), assign (\<lambda>s. s\<lparr>wcnt := 0\<rparr>)]) ?Q C t"
    if t: "l2p t = l2p s" "fl t = fl s" "ptr_full t = ptr_full s" "delta_buf t = delta_buf s"
      "ptr_delta_buf t = ptr_delta_buf s" "ipa_delta t = ipa_delta s" "pba_delta t = pba_delta s"
      and map: "map_ok (l2p s) (p2l t)" and v: "vcnt_ok (l2p s) (vcnts t)" and r: "rebuilt_list (l2p s) (blk_list t) e"
      and b: "usable t = e" "erasable t = e" "invalid t = 0" "used t = 0" for t e
  proof -
    have e: "e \<le> BLOCKS_DATA - 36" "e < BLOCKS_DATA" "Suc e < BLOCKS_DATA" "blk_list t e < NUM_PHYSICAL_BLOCKS"
      using r by (auto simp: rebuilt_list_def macros dest!: spec [of _ e])
    note d = rdist_rebuilt(3) [OF e(1)]
    have "wp check_l2p_injective (wp (block [assign (\<lambda>s. s\<lparr>gcprog := 0\<rparr>), assign (\<lambda>s. s\<lparr>wcnt := 0\<rparr>)]) ?Q C) C
       (t\<lparr>failed := 0, fl := erase_blocks (blk_list t e) (Suc (blk_list t e)) False (fl t), erasable := Suc e,
          lsas_merge := fill_words LSA_INVALID SECTORS_PER_PAGE (lsas_merge t), isa_active := 0, ipa_active := 0,
          pba_active := blk_list t e, active := e, usable := Suc e,
          enable_gc := 0, ipa_gc := 0, isa_gc := 0, pba_gc := PBA_DATA, lsa_gc := N_LAS\<rparr>)"
      by (rule wp_check_l2p_injective)
         (use t le inj map v r b c fresh in \<open>auto intro!: recovered_inv [of "fl s" _ st e db] simp: rebooted_def wp_block wp_assign fill_words_apply macros\<close>)
    then show ?thesis
      using b e d by (simp add: check_sufficient_avail_blocks_def make_one_erasable_block_free_def
          invalidate_merge_buffer_def reset_data_pointer_def choose_free_block_def reset_gc_pointer_def vcg
          wp_on_flash wp_flash_erase_async cong: wp_cong)
  qed
  have "wp reconstruct_p2l (wp reconstruct_vcnts (wp reconstruct_block_list (wp (block [check_sufficient_avail_blocks,
       make_one_erasable_block_free, invalidate_merge_buffer, reset_data_pointer, reset_gc_pointer, check_l2p_injective,
       assign (\<lambda>s. s\<lparr>gcprog := 0\<rparr>), assign (\<lambda>s. s\<lparr>wcnt := 0\<rparr>)]) ?Q C) C) C) C s"
    by (rule wp_reconstruct_p2l [OF le], assumption, rule wp_reconstruct_vcnts, simp add: map_ok_remap_all [OF tab],
        rule wp_reconstruct_block_list, simp add: tab, rule last)
       (simp_all add: map_ok_remap_all [OF tab])
  then show ?thesis by (simp only: wp_block)
qed

section \<open>Recovery and format\<close>

lemma block_append: "block (cs @ ds) = seq (block cs) (block ds)"
  by (induction cs) (simp_all add: block.simps seq_def skip_def fun_eq_iff split: outcome.splits)

lemma wp_ftl_recovery:
  assumes c: "crash_inv s st"
  shows "wp ftl_recovery (\<lambda>t. ftl_inv t st st \<and> rebooted t) (\<lambda>t. crash_inv t st) s"
proof -
  let ?Q = "\<lambda>t. ftl_inv t st st \<and> rebooted t" and ?C = "\<lambda>t. crash_inv t st"
  let ?A = "[find_committed_full_chkpt, apply_full_chkpt, find_last_committed_delta_chkpt,
     reset_committed_point_when_first_delta_page_erased, apply_delta_chkpt,
     wr (N_LAS + 1) l2p_update (\<lambda>_. N_LAS) (\<lambda>_. N_PAS)]"
  let ?B = "[on_flash (\<lambda>_. flash_sync), reset_delta_buf, toggle_full_chkpt, delete_full_chkpt,
     create_full_chkpt, toggle_full_chkpt, delete_full_chkpt, delete_all_delta_chkpts]"
  let ?D = "[reconstruct_p2l, reconstruct_vcnts, reconstruct_block_list, check_sufficient_avail_blocks,
     make_one_erasable_block_free, invalidate_merge_buffer, reset_data_pointer, reset_gc_pointer, check_l2p_injective,
     assign (\<lambda>s. s\<lparr>gcprog := 0\<rparr>), assign (\<lambda>s. s\<lparr>wcnt := 0\<rparr>)]"
  have eq: "ftl_recovery = block (?A @ ?B @ ?D)" by (simp add: ftl_recovery_def)
  have "wp (block ?A) (wp (block ?B) (wp (block ?D) ?Q ?C) ?C) ?C s"
  proof (rule wp_read_table [OF c])
    fix t :: ftl assume t: "fl t = fl s" "ptr_full t = chkpt_slot (fl s)" "\<And>la. la < N_LAS \<Longrightarrow> l2p t la = stable_l2p (fl s) la"
    have "meta_inv (fl t) (l2p t) st" using c t by (simp add: meta_inv_def crash_inv_def)
    then show "wp (block ?B) (wp (block ?D) ?Q ?C) ?C t"
      by (rule wp_renew_chkpts) (use t in \<open>auto intro: wp_rebuild_memory\<close>)
  qed
  then show ?thesis unfolding eq block_append wp_seq .
qed

text \<open>The flash after formatting, and the snapshot it holds: every sector reads as ones.\<close>

definition formatted :: "(nat \<Rightarrow> nat) \<Rightarrow> page \<Rightarrow> page \<Rightarrow> flashemu \<Rightarrow> flashemu" where
  "formatted l d o' f = prog_page BLOCKS_TOTAL 0 o' True (prog_page PBA_FIRST_FULL_COMMIT 0 d True
     (sync_all (prog_block PBA_FIRST_FULL l (erase_blocks 0 (BLOCKS_TOTAL + 1) False f))))"

definition blank :: "nat \<Rightarrow> nat \<Rightarrow> nat" where
  "blank la o' = 0xffffffff"

lemma formatted_table:
  assumes l: "\<forall>la\<le>N_LAS. l la = N_PAS" and d: "d 0 = 0"
  shows "full_committed (formatted l d p f) 0" "\<not> full_committed (formatted l d p f) 1"
    "\<And>la. la < N_LAS \<Longrightarrow> stable_l2p (formatted l d p f) la = N_PAS" "delta_page (formatted l d p f) 0 0 = 4294967295"
proof -
  let ?g = "formatted l d p f"
  show c: "full_committed ?g 0" "\<not> full_committed ?g 1"
    using d by (simp_all add: full_committed_def formatted_def full_base_def cells macros)
  show dp: "delta_page ?g 0 0 = 4294967295" by (simp add: delta_page_def formatted_def cells macros)
  have "commit_point ?g = 0" by (simp add: commit_point_def dp)
  moreover have "full_table ?g 0 la = N_PAS" if "la < N_LAS" for la
  proof -
    have "la div 2048 < 512" using that by (simp add: macros)
    then have "full_table ?g 0 la = l (la div 2048 * 2048 + la mod 2048)"
      by (simp add: full_table_def formatted_def full_base_def cells macros)
    also have "la div 2048 * 2048 + la mod 2048 = la" by simp
    finally show ?thesis using l that by simp
  qed
  ultimately show "stable_l2p ?g la = N_PAS" if "la < N_LAS" for la
    using that c by (simp add: stable_l2p_def chkpt_table_def)
qed

lemma formatted_recoverable:
  assumes l: "\<forall>la\<le>N_LAS. l la = N_PAS" and d: "d 0 = 0"
    and p: "\<And>i. i < N_ENTRIES_PER_PAGE \<Longrightarrow> p i = 0xffffffff"
  shows "recoverable (formatted l d p f) blank"
proof -
  let ?g = "formatted l d p f"
  note T = formatted_table [where l = l and d = d and p = p and f = f, OF l d]
  have sy: "synced ?g b q" if "b < NUM_PHYSICAL_BLOCKS" "q < PAGES_PER_BLOCK" for b q
    using that by (simp add: formatted_def cells)
  have "full_synced ?g"
    using T(1) sy full_base_bounds by (simp add: full_synced_def macros)
  moreover have "delta_synced ?g" using T(4) sy by (simp add: delta_synced_def macros)
  moreover have "used_blocks (stable_l2p ?g) = {}"
    using T(3) by (auto simp: used_blocks_def PSA_TO_PBA_eq macros)
  then have "table_ok (stable_l2p ?g)" using T(3) by (simp add: table_ok_def macros)
  moreover have "holds ?g (stable_l2p ?g) blank"
    unfolding holds_def
  proof (intro allI impI)
    fix la assume la: "la < N_LAS"
    have a: "PSA_TO_PBA N_PAS = BLOCKS_TOTAL" "PSA_TO_IPA N_PAS = 0" "PSA_TO_ISA N_PAS = 0"
      by (simp_all add: PSA_eqs macros)
    have "flash ?g BLOCKS_TOTAL 0 = Some p" by (simp add: formatted_def cells)
    moreover have "p o' = 4294967295" if "o' < N_ENTRIES_PER_SECTOR" for o'
      using p [of o'] that by (simp add: macros)
    ultimately show "flash ?g (PSA_TO_PBA (stable_l2p ?g la)) (PSA_TO_IPA (stable_l2p ?g la)) \<noteq> None
      \<and> synced ?g (PSA_TO_PBA (stable_l2p ?g la)) (PSA_TO_IPA (stable_l2p ?g la))
      \<and> (\<forall>o'<N_ENTRIES_PER_SECTOR. sector ?g (stable_l2p ?g la) o' = blank la o')"
      unfolding T(3) [OF la] a sector_def using sy [of BLOCKS_TOTAL 0] by (simp add: blank_def macros)
  qed
  ultimately show ?thesis by (simp add: recoverable_def)
qed

lemma wp_ftl_format:
  assumes env: "env_ok (fl s)"
  shows "wp ftl_format (\<lambda>t. crash_inv t blank) (\<lambda>t. env_ok (fl t) \<and> crash_sim (fl s)) s"
proof -
  let ?C = "\<lambda>t :: ftl. env_ok (fl t) \<and> crash_sim (fl s)" and ?Q = "\<lambda>t. crash_inv t blank"
  let ?l = "fill_words N_PAS (N_LAS + 1) (l2p s)" and ?p = "fill_words 4294967295 N_ENTRIES_PER_PAGE (buf_tmp s)"
  let ?d = "(buf_commit s)(0 := 0)"
  let ?e = "erase_blocks 0 (BLOCKS_TOTAL + 1) False (fl s)" let ?w = "prog_block PBA_FIRST_FULL ?l ?e"
  let ?c = "prog_page PBA_FIRST_FULL_COMMIT 0 ?d True (sync_all ?w)"
  have e1: "env_ok ?w" using env by (simp add: env_ok_def cells macros)
  then have e2: "env_ok (sync_all ?w)" by (simp add: env_ok_def cells)
  then have e3: "env_ok ?c" by (simp add: env_ok_def cells macros)
  then have e4: "env_ok (formatted ?l ?d ?p (fl s))" by (simp add: env_ok_def formatted_def cells macros)
  have crash: "env_ok f \<Longrightarrow> crash_sim (fl s) \<Longrightarrow> crashed f (fl t) \<Longrightarrow> ?C t" for f t by (simp add: env_ok_crash)
  have rec: "recoverable (formatted ?l ?d ?p (fl s)) blank"
    by (rule formatted_recoverable) (simp_all add: fill_words_apply)
  let ?s = "s\<lparr>fl := ?e, l2p := ?l, ptr_full := 0\<rparr>"
  have b: "BLOCKS_TOTAL < NUM_PHYSICAL_BLOCKS" "0 < PAGES_PER_BLOCK" "PBA_FIRST_FULL < NUM_PHYSICAL_BLOCKS"
    "PBA_FIRST_FULL_COMMIT < NUM_PHYSICAL_BLOCKS" "0 + (BLOCKS_TOTAL + 1) \<le> NUM_PHYSICAL_BLOCKS"
    by (simp_all add: macros)
  let ?K = "\<lambda>t. wp (on_flash (\<lambda>s. flash_program BLOCKS_TOTAL 0 (buf_tmp s) 1)) ?Q ?C
    (t\<lparr>buf_tmp := fill_words 4294967295 N_ENTRIES_PER_PAGE (buf_tmp t)\<rparr>)"
  have last: "?K (?s\<lparr>buf_commit := ?d, fl := ?c\<lparr>nrand := n\<rparr>\<rparr>)" for n
    by (rule wp_on_program_sync [where d = ?p, OF _ _ b(1,2)])
       (use e3 e4 rec crash in \<open>auto simp: crash_inv_def formatted_def cells\<close>)
  have commit: "wp (on_flash (\<lambda>s. flash_program PBA_FIRST_FULL_COMMIT 0 (buf_commit s) 1)) ?K ?C
      (?s\<lparr>fl := (sync_all ?w)\<lparr>nrand := n\<rparr>, buf_commit := ?d\<rparr>)" for n
    by (rule wp_on_program_sync [where d = ?d, OF _ _ b(4,2)]) (use e2 last crash in \<open>simp_all add: cells\<close>)
  have "wp (on_flash (\<lambda>_. flash_sync)) (\<lambda>t. wp (on_flash (\<lambda>s. flash_program PBA_FIRST_FULL_COMMIT 0 (buf_commit s) 1)) ?K ?C
      (t\<lparr>buf_commit := (buf_commit t)(0 := 0)\<rparr>)) ?C (?s\<lparr>fl := ?w\<rparr>)"
    by (rule wp_on_sync) (use e1 commit crash in \<open>auto simp: cells\<close>)
  then show ?thesis
    using b by (simp add: ftl_format_def create_full_chkpt_def wp_block wp_assign wp_memset32 wp_local_var pba_full_def
        wp_on_program_full PBA_FIRST_FULL_COMMIT_def [symmetric]
        wp_on_flash [of "\<lambda>_. flash_erase_bulk _ _"] wp_flash_erase_bulk)
qed

end
