(* ===== verification/SnapshotDisk.thy ===== *)
theory SnapshotDisk
  imports Ftl
begin

text \<open>
  Snapshot consistency as a specification: what the host may observe of the disk when power may be lost
  at any moment. The specification \<open>spec_step\<close> is the transition system that
  \<^verbatim>\<open>src/crash-test.c\<close> implements with its arrays \<open>vlt\<close> and \<open>stb\<close>; an
  implementation is a record of statements, whose transition system \<open>impl_step\<close> loses power where a
  statement crashes or between two statements. The locale \<open>snapshot_disk\<close> states the laws of
  the statements as weakest preconditions and derives that every run of the implementation is a run of the
  specification.
\<close>

type_synonym sector = "nat \<Rightarrow> nat"
type_synonym contents = "nat \<Rightarrow> sector"

section \<open>The specification\<close>

text \<open>What the host sees; the events of the second line are operations that a power loss cut short.\<close>

datatype disk_event =
  Wrote nat sector | ReadBack nat sector | Flushed | Recovered
| WriteCut nat sector | FlushCut | RecoveryCut | PowerCut

text \<open>A running disk has volatile contents, a snapshot and a count of the writes since; a disk without power has a snapshot.\<close>

datatype spec_state = SUp contents contents nat | SDown contents

inductive spec_step :: "spec_state \<Rightarrow> disk_event \<Rightarrow> spec_state \<Rightarrow> bool" where
  wrote: "spec_step (SUp vol st n) (Wrote la d) (SUp (vol(la := d)) st (Suc n))" if "la < N_LAS" "n < MAX_WCNT"
| rejected: "spec_step (SUp vol st n) (Wrote la d) (SUp vol st n)" if "\<not> (la < N_LAS \<and> n < MAX_WCNT)"
| readback: "spec_step (SUp vol st n) (ReadBack la d) (SUp vol st n)"
    if "la < N_LAS" "\<forall>o'<N_ENTRIES_PER_SECTOR. d o' = vol la o'"
| flushed: "spec_step (SUp vol st n) Flushed (SUp vol vol 0)"
| write_cut: "spec_step (SUp vol st n) (WriteCut la d) (SDown st)"
| flush_cut_before: "spec_step (SUp vol st n) FlushCut (SDown st)"
| flush_cut_after: "spec_step (SUp vol st n) FlushCut (SDown vol)"
| power_cut: "spec_step (SUp vol st n) PowerCut (SDown st)"
| recovered: "spec_step (SDown st) Recovered (SUp st st 0)"
| recovery_cut: "spec_step (SDown st) RecoveryCut (SDown st)"
| power_cut_down: "spec_step (SDown st) PowerCut (SDown st)"

inductive_cases spec_step_upE: "spec_step (SUp vol st n) e x"
inductive_cases spec_step_downE: "spec_step (SDown st) e x"

section \<open>Implementations\<close>

text \<open>
  The operations of a disk, the contents of the buffer that a read has filled, and what a reboot may make
  of a state: of a disk, everything but the flash.
\<close>

record 's disk_ops =
  op_read :: "nat \<Rightarrow> 's stmt"
  op_write :: "nat \<Rightarrow> sector \<Rightarrow> 's stmt"
  op_flush :: "'s stmt"
  op_recover :: "'s stmt"
  op_data :: "'s \<Rightarrow> sector"
  op_reboot :: "'s \<Rightarrow> 's \<Rightarrow> bool"

datatype 's phase = Up 's | Down 's

inductive impl_step :: "'s disk_ops \<Rightarrow> 's phase \<Rightarrow> disk_event \<Rightarrow> 's phase \<Rightarrow> bool" for ops where
  wrote: "impl_step ops (Up s) (Wrote la d) (Up t)" if "op_write ops la d s = Done t"
| readback: "impl_step ops (Up s) (ReadBack la (op_data ops t)) (Up t)" if "la < N_LAS" "op_read ops la s = Done t"
| flushed: "impl_step ops (Up s) Flushed (Up t)" if "op_flush ops s = Done t"
| write_cut: "impl_step ops (Up s) (WriteCut la d) (Down u)" if "op_write ops la d s = Crash t" "op_reboot ops t u"
| flush_cut: "impl_step ops (Up s) FlushCut (Down u)" if "op_flush ops s = Crash t" "op_reboot ops t u"
| power_cut: "impl_step ops (Up s) PowerCut (Down u)" if "op_reboot ops s u"
| recovered: "impl_step ops (Down s) Recovered (Up t)" if "op_recover ops s = Done t"
| recovery_cut: "impl_step ops (Down s) RecoveryCut (Down u)" if "op_recover ops s = Crash t" "op_reboot ops t u"
| power_cut_down: "impl_step ops (Down s) PowerCut (Down u)" if "op_reboot ops s u"

text \<open>Runs of a transition system.\<close>

inductive runs :: "('c \<Rightarrow> 'e \<Rightarrow> 'c \<Rightarrow> bool) \<Rightarrow> 'c \<Rightarrow> 'e list \<Rightarrow> 'c \<Rightarrow> bool" for step where
  stop: "runs step c [] c"
| onward: "runs step c (e # es) c''" if "step c e c'" "runs step c' es c''"

lemma runs_simulation:
  assumes sim: "\<And>c e c' a. step c e c' \<Longrightarrow> R c a \<Longrightarrow> \<exists>a'. step' a e a' \<and> R c' a'"
    and "runs step c es c'" "R c a"
  shows "\<exists>a'. runs step' a es a' \<and> R c' a'"
  using assms(2,3)
proof (induction arbitrary: a rule: runs.induct)
  case (stop c)
  then show ?case by (blast intro: runs.stop)
next
  case (onward c e c' es c'')
  then obtain a' where "step' a e a'" "R c' a'" using sim by blast
  then show ?case using onward.IH by (blast intro: runs.onward)
qed

section \<open>The laws of a snapshot-consistent disk\<close>

locale snapshot_disk =
  fixes ops :: "'s disk_ops"
    and up :: "'s \<Rightarrow> contents \<Rightarrow> contents \<Rightarrow> nat \<Rightarrow> bool"
    and down :: "'s \<Rightarrow> contents \<Rightarrow> bool"
  assumes write_law: "up s vol st n \<Longrightarrow> la < N_LAS \<Longrightarrow> n < MAX_WCNT \<Longrightarrow>
      wp (op_write ops la d) (\<lambda>t. up t (vol(la := d)) st (Suc n)) (\<lambda>t. down t st) s"
    and reject_law: "up s vol st n \<Longrightarrow> \<not> (la < N_LAS \<and> n < MAX_WCNT) \<Longrightarrow>
      wp (op_write ops la d) (\<lambda>t. up t vol st n) (\<lambda>t. down t st) s"
    and read_law: "up s vol st n \<Longrightarrow> la < N_LAS \<Longrightarrow>
      wp (op_read ops la) (\<lambda>t. up t vol st n \<and> (\<forall>o'<N_ENTRIES_PER_SECTOR. op_data ops t o' = vol la o')) (\<lambda>_. False) s"
    and read_reject_law: "up s vol st n \<Longrightarrow> \<not> la < N_LAS \<Longrightarrow> wp (op_read ops la) (\<lambda>t. up t vol st n) (\<lambda>_. False) s"
    and flush_law: "up s vol st n \<Longrightarrow> wp (op_flush ops) (\<lambda>t. up t vol vol 0) (\<lambda>t. down t st \<or> down t vol) s"
    and recover_law: "down s st \<Longrightarrow> wp (op_recover ops) (\<lambda>t. up t st st 0) (\<lambda>t. down t st) s"
    and reboot_law: "down s st \<Longrightarrow> op_reboot ops s t \<Longrightarrow> down t st"
    and up_down: "up s vol st n \<Longrightarrow> down s st"
begin

text \<open>The simulation relation.\<close>

fun represents :: "'s phase \<Rightarrow> spec_state \<Rightarrow> bool" where
  "represents (Up s) (SUp vol st n) = up s vol st n"
| "represents (Down s) (SDown st) = down s st"
| "represents _ _ = False"

lemma represents_cases:
  assumes "represents c a"
  obtains (up) s vol st n where "c = Up s" "a = SUp vol st n" "up s vol st n"
    | (down) s st where "c = Down s" "a = SDown st" "down s st"
  using assms by (cases "(c, a)" rule: represents.cases) auto

lemma write_any:
  assumes "up s vol st n"
  shows "wp (op_write ops la d) (\<lambda>t. \<exists>a. spec_step (SUp vol st n) (Wrote la d) a \<and> represents (Up t) a) (\<lambda>t. down t st) s"
proof (cases "la < N_LAS \<and> n < MAX_WCNT")
  case True
  then show ?thesis
    by (intro wp_mono [OF write_law [OF assms]]) (auto intro!: exI [of _ "SUp (vol(la := d)) st (Suc n)"] spec_step.wrote)
next
  case False
  show ?thesis
    by (rule wp_mono [OF reject_law [OF assms False]]) (use False in \<open>auto intro!: exI [of _ "SUp vol st n"] spec_step.rejected\<close>)
qed

lemma step_simulation:
  assumes "impl_step ops c e c'" "represents c a"
  shows "\<exists>a'. spec_step a e a' \<and> represents c' a'"
  using assms(2)
proof (cases rule: represents_cases)
  case (up s vol st n)
  note a = up(2)
  from assms(1) [unfolded up(1)] show ?thesis
  proof (cases rule: impl_step.cases)
    case (wrote la d t)
    then show ?thesis unfolding a using wp_Done [OF write_any [OF up(3)]] by blast
  next
    case (readback la t)
    then show ?thesis unfolding a using wp_Done [OF read_law [OF up(3)]] by (auto intro!: exI [of _ "SUp vol st n"] spec_step.readback)
  next
    case (flushed t)
    then show ?thesis unfolding a using wp_Done [OF flush_law [OF up(3)]] by (auto intro!: exI [of _ "SUp vol vol 0"] spec_step.flushed)
  next
    case (write_cut la d t u)
    then have "down u st" using reboot_law wp_Crash [OF write_any [OF up(3)]] by blast
    then show ?thesis unfolding a using write_cut by (auto intro!: exI [of _ "SDown st"] spec_step.write_cut)
  next
    case (flush_cut t u)
    then have "down t st \<or> down t vol" using wp_Crash [OF flush_law [OF up(3)]] by blast
    then show ?thesis
      unfolding a using reboot_law flush_cut spec_step.flush_cut_before [of vol st n] spec_step.flush_cut_after [of vol st n]
      by (metis represents.simps(2))
  next
    case (power_cut u)
    then show ?thesis
      unfolding a using reboot_law [OF up_down [OF up(3)]] by (auto intro!: exI [of _ "SDown st"] spec_step.power_cut)
  qed
next
  case (down s st)
  note a = down(2)
  from assms(1) [unfolded down(1)] show ?thesis
  proof (cases rule: impl_step.cases)
    case (recovered t)
    then show ?thesis unfolding a using wp_Done [OF recover_law [OF down(3)]] by (auto intro!: exI [of _ "SUp st st 0"] spec_step.recovered)
  next
    case (recovery_cut t u)
    then show ?thesis
      unfolding a using wp_Crash [OF recover_law [OF down(3)]] reboot_law by (auto intro!: exI [of _ "SDown st"] spec_step.recovery_cut)
  next
    case (power_cut_down u)
    then show ?thesis unfolding a using reboot_law [OF down(3)] by (auto intro!: exI [of _ "SDown st"] spec_step.power_cut_down)
  qed
qed

text \<open>Every run of the implementation is a run of the specification.\<close>

lemma refinement:
  assumes "runs (impl_step ops) c es c'" "represents c a"
  shows "\<exists>a'. runs spec_step a es a' \<and> represents c' a'"
  by (rule runs_simulation [where R = represents, OF step_simulation assms])

text \<open>No operation faults in a state that a run reaches.\<close>

lemma no_fault:
  assumes "runs (impl_step ops) c es c'" "represents c a"
  shows "(\<forall>s. c' = Up s \<longrightarrow> (\<forall>la d x. op_write ops la d s \<noteq> Fault x) \<and> (\<forall>la x. la < N_LAS \<longrightarrow> op_read ops la s \<noteq> Fault x)
      \<and> (\<forall>x. op_flush ops s \<noteq> Fault x)) \<and> (\<forall>s x. c' = Down s \<longrightarrow> op_recover ops s \<noteq> Fault x)"
proof -
  obtain a' where "represents c' a'" using refinement [OF assms] by blast
  then show ?thesis
  proof (cases rule: represents_cases)
    case (up s vol st n)
    then show ?thesis
      using wp_no_Fault [OF write_any] wp_no_Fault [OF read_law] wp_no_Fault [OF flush_law] by blast
  next
    case (down s st)
    then show ?thesis using wp_no_Fault [OF recover_law] by blast
  qed
qed

end

end
