(* ===== verification/Disk.thy ===== *)
theory Disk
  imports FtlGc FtlBoot SnapshotDisk
begin

text \<open>
  The disk layer \<^verbatim>\<open>src/disk.c\<close>: the translation layer with the garbage collector driven
  by the writes. The loop of \<open>disk_flush\<close> runs the garbage collector until enough blocks are
  ready; it is shown to end, by an account of the relocations of an epoch (\<open>gc_inv\<close>) against
  their budget.
\<close>

section \<open>Operations\<close>

definition disk_read :: "nat \<Rightarrow> ftl stmt" where
  "disk_read lsa = ftl_read lsa"

definition disk_write :: "nat \<Rightarrow> (nat \<Rightarrow> nat) \<Rightarrow> ftl stmt" where
  "disk_write lsa data = block [ftl_write lsa data, repeat_c 4 ftl_gc_copy]"

definition disk_flush :: "ftl stmt" where
  "disk_flush = block [
     while_c (\<lambda>s. \<not> ftl_flush_precond_holds s) ftl_gc_copy,
     ftl_flush]"

definition disk_recovery :: "ftl stmt" where
  "disk_recovery = block [ftl_recovery, repeat_c 2000 ftl_gc_erase]"

section \<open>The account of the relocations\<close>

text \<open>
  The blocks between \<open>invalid\<close> and \<open>used\<close> are the victims of this epoch. Each had at most
  \<open>VICTIM_MAX\<close> valid sectors when it was chosen.
\<close>

definition victims :: "ftl \<Rightarrow> nat" where
  "victims s = rdist (invalid s) (used s)"

definition gc_inv :: "ftl \<Rightarrow> bool" where
  "gc_inv s \<longleftrightarrow> (if enable_gc s = 0 then gcprog s \<le> VICTIM_MAX * victims s
     else victim_left s \<le> VICTIM_MAX \<and> gcprog s + victim_left s \<le> VICTIM_MAX * Suc (victims s))"

definition disk_inv :: "ftl \<Rightarrow> (nat \<Rightarrow> nat \<Rightarrow> nat) \<Rightarrow> (nat \<Rightarrow> nat \<Rightarrow> nat) \<Rightarrow> bool" where
  "disk_inv s vol st \<longleftrightarrow> ftl_inv s vol st \<and> gc_inv s"

lemma disk_invD: "disk_inv s vol st \<Longrightarrow> ftl_inv s vol st" "disk_inv s vol st \<Longrightarrow> gc_inv s"
  by (simp_all add: disk_inv_def)

lemma rdist_split:
  assumes "u < BLOCKS_DATA" "x < BLOCKS_DATA"
  shows "u + rdist u x = x \<or> u + rdist u x = x + BLOCKS_DATA"
  using assms by (auto simp: rdist_eq)

lemma rdist_diff:
  assumes "u < BLOCKS_DATA" "i < BLOCKS_DATA" "d < BLOCKS_DATA" "rdist u i \<le> rdist u d"
  shows "rdist i d = rdist u d - rdist u i"
proof -
  have "rdist i d + rdist u i = rdist u d"
    using rdist_split [OF assms(1,2)] rdist_split [OF assms(1,3)] rdist_split [OF assms(2,3)]
      rdist_less [of u i] rdist_less [of u d] rdist_less [of i d] assms(4)
    by (elim disjE) linarith+
  then show ?thesis by simp
qed

lemma victims_le:
  assumes "blocks_ok bl u e (invalid s) (used s) a pa"
  shows "victims s \<le> rdist u (used s)"
  unfolding victims_def rdist_diff [OF blocks_okD(1,3,4,8) [OF assms]] by simp

lemma victims_retire:
  assumes "blocks_ok bl u e (invalid s) (used s) a pa" "rdist u (used s) < BLOCKS_DATA - 1"
    "invalid t = invalid s" "used t = BLK_LIST_NEXT (used s)"
  shows "victims t = Suc (victims s)"
proof -
  note b = blocks_okD [OF assms(1)]
  have "victims s < BLOCKS_DATA - 1" using victims_le [OF assms(1)] assms(2) by linarith
  then show ?thesis using rdist_next [OF b(3,4)] assms(3,4) by (simp add: victims_def)
qed

lemma gc_inv_frame:
  assumes "gc_inv s" "gc_frame s t" "gcprog t = gcprog s"
  shows "gc_inv t"
proof -
  have "victim_left t \<le> victim_left s" if "enable_gc s \<noteq> 0"
    using assms(2) that by (auto simp: gc_frame_def victim_left_def intro!: card_mono)
  then show ?thesis using assms by (auto simp: gc_inv_def gc_frame_def victims_def)
qed

lemma gc_inv_kept: "gc_inv s \<Longrightarrow> kept s t \<Longrightarrow> gc_inv t"
  by (auto simp: gc_inv_def kept_def victims_def victim_left_def)

lemma victim_position:
  assumes "ftl_inv s vol st" "enable_gc s \<noteq> 0"
  shows "rdist (usable s) (used s) < BLOCKS_DATA - 1" "gc_pos s < SECTORS_PER_BLOCK"
  using assms by (auto simp: ftl_inv_defs victim_ok_def gc_ptr_ok_def gc_pos_def macros)

lemma gc_inv_step:
  assumes inv: "ftl_inv s vol st" and gc: "gc_inv s" and step: "gc_step s t"
  shows "gc_inv t"
  using step
proof (cases rule: gc_step.cases)
  case idle
  then show ?thesis using gc by simp
next
  case start
  then show ?thesis using gc by (simp add: gc_inv_def victims_def)
next
  case work
  then show ?thesis using gc by (auto simp: gc_inv_def victims_def)
next
  case retire
  have "victims t = Suc (victims s)"
    by (rule victims_retire [OF ftl_invD(1) [OF inv] victim_position(1) [OF inv]]) (use retire in simp_all)
  then show ?thesis using retire gc by (simp add: gc_inv_def)
qed

section \<open>Read and write\<close>

lemma wp_disk_read:
  assumes "disk_inv s vol st" "la < N_LAS"
  shows "wp (disk_read la) (\<lambda>t. disk_inv t vol st \<and> wcnt t = wcnt s
      \<and> (\<forall>o'<N_ENTRIES_PER_SECTOR. host_data t o' = vol la o')) (\<lambda>_. False) s"
proof -
  have "wp (ftl_read la) (\<lambda>t. kept s t) (\<lambda>_. True) s"
    using wp_ftl_read [OF disk_invD(1) [OF assms(1)] assms(2)]
    by (auto simp: ftl_read_def vcg kept_def cong: wp_cong)
  from wp_conj [OF wp_ftl_read [OF disk_invD(1) [OF assms(1)] assms(2)] this]
  show ?thesis
    unfolding disk_read_def
    by (rule wp_mono) (use gc_inv_kept [OF disk_invD(2) [OF assms(1)]] in \<open>auto simp: disk_inv_def kept_def\<close>)
qed

lemma wp_disk_gc:
  assumes "disk_inv s vol st"
  shows "wp ftl_gc_copy (\<lambda>t. disk_inv t vol st \<and> wcnt t = wcnt s) (\<lambda>t. crash_inv t st) s"
  by (rule wp_mono [OF wp_ftl_gc_copy [OF disk_invD(1) [OF assms]]])
     (use gc_inv_step disk_invD [OF assms] gc_step_wcnt in \<open>auto simp: disk_inv_def\<close>)

lemma wp_disk_write:
  assumes inv: "disk_inv s vol st" and la: "la < N_LAS" and w: "wcnt s < MAX_WCNT"
  shows "wp (disk_write la data) (\<lambda>t. disk_inv t (vol(la := data)) st \<and> wcnt t = Suc (wcnt s)) (\<lambda>t. crash_inv t st) s"
proof -
  let ?I = "\<lambda>t. disk_inv t (vol(la := data)) st \<and> wcnt t = Suc (wcnt s)"
  have "wp (repeat_c 4 ftl_gc_copy) ?I (\<lambda>t. crash_inv t st) t" if "?I t" for t
    by (rule wp_repeat [where I = ?I]) (use that in \<open>auto intro: wp_mono [OF wp_disk_gc]\<close>)
  then show ?thesis
    unfolding disk_write_def wp_block
    by (intro wp_mono [OF wp_ftl_write [OF disk_invD(1) [OF inv] la w]])
       (use gc_inv_frame [OF disk_invD(2) [OF inv]] in \<open>auto simp: disk_inv_def wp_simps\<close>)
qed

text \<open>A write out of range or beyond the limit of the epoch does nothing but collect garbage.\<close>

lemma wp_disk_write_rejected:
  assumes inv: "disk_inv s vol st" and rej: "N_LAS \<le> la \<or> MAX_WCNT \<le> wcnt s"
  shows "wp (disk_write la data) (\<lambda>t. disk_inv t vol st \<and> wcnt t = wcnt s) (\<lambda>t. crash_inv t st) s"
proof -
  let ?I = "\<lambda>t. disk_inv t vol st \<and> wcnt t = wcnt s"
  have "wp (repeat_c 4 ftl_gc_copy) ?I (\<lambda>t. crash_inv t st) s"
    by (rule wp_repeat [where I = ?I]) (use inv in \<open>auto intro: wp_mono [OF wp_disk_gc]\<close>)
  then show ?thesis
    unfolding disk_write_def wp_block
    using ftl_write_rejected [OF rej, of data] by (simp add: wp_def [of "ftl_write la data"] wp_block)
qed

section \<open>Flush\<close>

text \<open>The number of calls of the garbage collector until the loop of \<open>disk_flush\<close> ends is bounded.\<close>

definition gc_measure :: "ftl \<Rightarrow> nat" where
  "gc_measure s = (BLOCKS_DATA - victims s) * (SECTORS_PER_BLOCK + 2)
     + (if enable_gc s = 0 then SECTORS_PER_BLOCK + 1 else SECTORS_PER_BLOCK - gc_pos s)"

lemma gc_measure_step:
  assumes inv: "disk_inv s vol st" and np: "\<not> ftl_flush_precond_holds s" and step: "gc_step s t" and inv': "ftl_inv t vol st"
  shows "gc_measure t < gc_measure s"
proof -
  note I = disk_invD [OF inv]
  note blk = ftl_invD(1) [OF I(1)]
  note b = blocks_okD [OF blk]
  have ready: "rdist (usable s) (used s) < 36"
    using np n_ready_blks_rdist [OF b(1,4)] by (simp add: ftl_flush_precond_holds_def)
  then have v: "victims s < 36" using victims_le [OF blk] by linarith
  have th: "reach_gc_threshold s" unfolding reach_gc_threshold_iff [OF blk] using ready by (simp add: macros)
  have pr: "gcprog s < MAX_GCPROG" if "enable_gc s \<noteq> 0"
  proof -
    have "gcprog s \<le> VICTIM_MAX * Suc (victims s)" using I(2) that by (simp add: gc_inv_def)
    also have "\<dots> \<le> VICTIM_MAX * 36" using v by (intro mult_le_mono2) simp
    finally show ?thesis by (simp add: macros)
  qed
  from step show ?thesis
  proof (cases rule: gc_step.cases)
    case idle
    then show ?thesis using th pr by auto
  next
    case start
    then show ?thesis by (simp add: gc_measure_def victims_def)
  next
    case work
    have "gc_pos t < SECTORS_PER_BLOCK" by (rule victim_position(2) [OF inv']) (use work in simp)
    then show ?thesis using work by (simp add: gc_measure_def victims_def)
  next
    case retire
    have "victims t = Suc (victims s)"
      by (rule victims_retire [OF blk victim_position(1) [OF I(1)]]) (use retire in simp_all)
    then show ?thesis using retire v victim_position(2) [OF I(1)] by (simp add: gc_measure_def macros)
  qed
qed

lemma wp_disk_flush:
  assumes inv: "disk_inv s vol st"
  shows "wp disk_flush (\<lambda>t. disk_inv t vol vol \<and> wcnt t = 0) (\<lambda>t. crash_inv t st \<or> crash_inv t vol) s"
proof -
  let ?C = "\<lambda>t. crash_inv t st \<or> crash_inv t vol" and ?Q = "\<lambda>t. disk_inv t vol vol \<and> wcnt t = 0"
  have loop: "wp (while_c (\<lambda>s. \<not> ftl_flush_precond_holds s) ftl_gc_copy)
      (\<lambda>t. disk_inv t vol st \<and> ftl_flush_precond_holds t) ?C s"
  proof (rule wp_while [where I = "\<lambda>t. disk_inv t vol st" and m = gc_measure])
    fix t assume t: "disk_inv t vol st" "\<not> ftl_flush_precond_holds t"
    show "wp ftl_gc_copy (\<lambda>u. disk_inv u vol st \<and> gc_measure u < gc_measure t) ?C t"
      by (rule wp_mono [OF wp_ftl_gc_copy [OF disk_invD(1) [OF t(1)]]])
         (use gc_measure_step [OF t] gc_inv_step disk_invD [OF t(1)] in \<open>auto simp: disk_inv_def\<close>)
  qed (use inv in auto)
  have "wp ftl_flush ?Q ?C t" if t: "disk_inv t vol st" "ftl_flush_precond_holds t" for t
  proof (rule wp_mono [OF wp_ftl_flush [OF disk_invD(1) [OF t(1)] t(2)]])
    fix u assume u: "ftl_inv u vol vol \<and> flushed t u"
    have "used u < BLOCKS_DATA" using u blocks_okD(4) [OF ftl_invD(1)] by blast
    then have "gc_inv u"
      using u disk_invD(2) [OF t(1)]
      by (auto simp: gc_inv_def flushed_def same_gc_def victims_def victim_left_def)
    then show "?Q u" using u by (simp add: disk_inv_def flushed_def)
  qed auto
  then show ?thesis
    unfolding disk_flush_def wp_block
    by (intro wp_mono [OF loop]) auto
qed

section \<open>Recovery\<close>

lemma wp_disk_recovery:
  assumes "crash_inv s st"
  shows "wp disk_recovery (\<lambda>t. disk_inv t st st \<and> wcnt t = 0 \<and> failed t = 0) (\<lambda>t. crash_inv t st) s"
proof -
  let ?I = "\<lambda>t. disk_inv t st st \<and> wcnt t = 0 \<and> failed t = 0"
  have "wp (repeat_c 2000 ftl_gc_erase) ?I (\<lambda>t. crash_inv t st) t" if "?I t" for t
  proof (rule wp_repeat [where I = ?I, OF that])
    fix u assume u: "?I u"
    then have "ftl_inv u st st" by (simp add: disk_inv_def)
    note b = blocks_okD [OF ftl_invD(1) [OF this]]
    have "wp ftl_gc_erase (\<lambda>t. failed t = failed u) (\<lambda>_. True) u"
      using b(2) b(11) [OF b(2)] by (auto simp: macros ftl_gc_erase_def make_one_erasable_block_unless_erasable_blklist_empty_def
          make_one_erasable_block_free_def vcg wp_on_flash wp_flash_erase_async cong: wp_cong)
    from wp_conj [OF wp_ftl_gc_erase [OF \<open>ftl_inv u st st\<close>] this]
    show "wp ftl_gc_erase ?I (\<lambda>t. crash_inv t st) u"
      by (rule wp_mono) (use u gc_inv_kept [of u] in \<open>auto simp: disk_inv_def kept_def\<close>)
  qed
  moreover have "?I t" if "ftl_inv t st st \<and> rebooted t" for t
    using that by (simp add: disk_inv_def rebooted_def gc_inv_def)
  ultimately show ?thesis
    unfolding disk_recovery_def wp_block by (intro wp_mono [OF wp_ftl_recovery [OF assms]]) auto
qed

section \<open>The disk is snapshot consistent\<close>

text \<open>
  The operations of the disk. A power loss erases the memory, so a reboot starts from any values of the
  variables; the flash loses, of what it had not synchronised, any part.
\<close>

definition scftl_disk :: "ftl disk_ops" where
  "scftl_disk = \<lparr>op_read = disk_read, op_write = disk_write, op_flush = disk_flush, op_recover = disk_recovery,
     op_data = host_data, op_reboot = (\<lambda>s t. fl t = fl s \<or> crashed (fl s) (fl t))\<rparr>"

definition disk_up :: "ftl \<Rightarrow> contents \<Rightarrow> contents \<Rightarrow> nat \<Rightarrow> bool" where
  "disk_up s vol st n \<longleftrightarrow> disk_inv s vol st \<and> wcnt s = n"

lemma crash_inv_reboot:
  assumes "crash_inv s st" "fl t = fl s \<or> crashed (fl s) (fl t)"
  shows "crash_inv t st"
  using assms crash_inv_crash [of s st "fl t"] by (auto simp: crash_inv_def)

interpretation scftl: snapshot_disk scftl_disk disk_up crash_inv
proof (unfold_locales, goal_cases)
  case (1 s vol st n la d)
  then show ?case
    by (auto simp: scftl_disk_def disk_up_def intro: wp_mono [OF wp_disk_write])
next
  case (2 s vol st n la d)
  then show ?case
    by (auto simp: scftl_disk_def disk_up_def intro: wp_mono [OF wp_disk_write_rejected])
next
  case (3 s vol st n la)
  then show ?case
    by (auto simp: scftl_disk_def disk_up_def intro: wp_mono [OF wp_disk_read])
next
  case (4 s vol st n la)
  then show ?case
    by (simp add: scftl_disk_def disk_read_def wp_def ftl_read_out_of_range)
next
  case (5 s vol st n)
  then show ?case
    by (auto simp: scftl_disk_def disk_up_def intro: wp_mono [OF wp_disk_flush])
next
  case (6 s st)
  then show ?case
    by (auto simp: scftl_disk_def disk_up_def intro: wp_mono [OF wp_disk_recovery])
next
  case (7 s st t)
  then show ?case by (auto simp: scftl_disk_def intro: crash_inv_reboot)
next
  case (8 s vol st n)
  then show ?case by (auto simp: disk_up_def disk_inv_def intro: ftl_inv_crash_inv)
qed

end
