(* ===== verification/FlashImage.thy ===== *)
theory FlashImage
  imports FlashEmu
begin

text \<open>
  Saving and loading the emulated flash: \<open>flash_fini\<close> and \<open>flash_init\<close> of
  \<^verbatim>\<open>src/flashemu.c\<close>. The image file is the sequence of the items that \<open>fwrite\<close> puts
  there: 32-bit words and whole pages. An item of the wrong kind, which no image written by
  \<open>flash_fini\<close> has at that place, is a fault of the reader.
\<close>

section \<open>Image files\<close>

datatype item = Word nat | Page page

type_synonym image = "item list"

text \<open>\<open>for (b = 0; ...) for (p = 0; ...) if (flash[b][p] != NULL)\<close>: the pages in the order they are written.\<close>

definition page_entries :: "(nat \<Rightarrow> nat \<Rightarrow> page option) \<Rightarrow> (nat \<times> nat \<times> page) list" where
  "page_entries fb = concat (map (\<lambda>b. concat (map (\<lambda>p.
     case fb b p of None \<Rightarrow> [] | Some page \<Rightarrow> [(b, p, page)]) [0..<PAGES_PER_BLOCK])) [0..<NUM_PHYSICAL_BLOCKS])"

definition write_entry :: "nat \<times> nat \<times> page \<Rightarrow> image" where
  "write_entry e = (case e of (b, p, page) \<Rightarrow> [Word b, Word p, Page page])"

text \<open>The argument says whether \<open>fopen\<close> succeeds; otherwise the program exits.\<close>

definition flash_fini :: "bool \<Rightarrow> flashemu \<Rightarrow> image option" where
  "flash_fini opened f =
     (if opened then Some (Word (u32 (length (page_entries (flash f)))) # concat (map write_entry (page_entries (flash f))))
      else None)"

fun load_pages :: "nat \<Rightarrow> image \<Rightarrow> flashemu stmt" where
  "load_pages 0 img f = Done f"
| "load_pages (Suc n) (Word b # Word p # Page page # img) f =
     (if b < NUM_PHYSICAL_BLOCKS \<and> p < PAGES_PER_BLOCK
      then load_pages n img (f\<lparr>flash := (flash f)(b := (flash f b)(p := Some page))\<rparr>) else Fault OutOfBounds)"
| "load_pages (Suc n) img f = Fault AssertFailed"

text \<open>\<open>None\<close>: there is no image file; the function prints a message and returns.\<close>

fun flash_init :: "image option \<Rightarrow> flashemu stmt" where
  "flash_init None f = Done f"
| "flash_init (Some (Word num # img)) f = load_pages num img (f\<lparr>
     flash := for_pages 0 NUM_PHYSICAL_BLOCKS (\<lambda>b p _. None) (flash f),
     synced := for_pages 0 NUM_PHYSICAL_BLOCKS (\<lambda>b p _. True) (synced f)\<rparr>)"
| "flash_init (Some img) f = Fault AssertFailed"

section \<open>Round trip\<close>

fun put_entries :: "(nat \<times> nat \<times> page) list \<Rightarrow> (nat \<Rightarrow> nat \<Rightarrow> page option) \<Rightarrow> nat \<Rightarrow> nat \<Rightarrow> page option" where
  "put_entries [] fb = fb"
| "put_entries ((b, p, page) # es) fb = put_entries es (fb(b := (fb b)(p := Some page)))"

lemma load_pages_entries:
  "\<forall>(b, p, page) \<in> set es. b < NUM_PHYSICAL_BLOCKS \<and> p < PAGES_PER_BLOCK \<Longrightarrow>
   load_pages (length es) (concat (map write_entry es)) f =
     Done (f\<lparr>flash := put_entries es (flash f)\<rparr>)"
  by (induction es arbitrary: f) (auto simp: write_entry_def)

lemma page_entries_mem:
  "(b, p, page) \<in> set (page_entries fb) \<longleftrightarrow>
     b < NUM_PHYSICAL_BLOCKS \<and> p < PAGES_PER_BLOCK \<and> fb b p = Some page"
  by (auto simp: page_entries_def split: option.splits)

lemma put_entries_miss: "\<forall>page. (b, p, page) \<notin> set es \<Longrightarrow> put_entries es fb b p = fb b p"
proof (induction es arbitrary: fb)
  case (Cons e es)
  obtain b' p' page' where e: "e = (b', p', page')" by (cases e)
  have "(b', p') \<noteq> (b, p)" using Cons.prems e by auto
  then show ?case using Cons.IH Cons.prems e by auto
qed simp

lemma put_entries_hit:
  "(b, p, page) \<in> set es \<Longrightarrow> \<forall>page'. (b, p, page') \<in> set es \<longrightarrow> page' = page \<Longrightarrow> put_entries es fb b p = Some page"
proof (induction es arbitrary: fb)
  case (Cons e es)
  obtain b' p' page' where e: "e = (b', p', page')" by (cases e)
  show ?case
  proof (cases "(b, p, page) \<in> set es")
    case True
    have "\<forall>page'. (b, p, page') \<in> set es \<longrightarrow> page' = page" using Cons.prems(2) by (metis list.set_intros(2))
    then show ?thesis using Cons.IH [OF True] e by simp
  next
    case False
    then have "e = (b, p, page)" "\<forall>page'. (b, p, page') \<notin> set es"
      using Cons.prems by (metis set_ConsD, metis list.set_intros(2))
    then show ?thesis by (simp add: put_entries_miss)
  qed
qed simp

lemma length_concat_le: "(\<And>x. x \<in> set xs \<Longrightarrow> length (g x) \<le> k) \<Longrightarrow> length (concat (map g xs)) \<le> length xs * k"
  by (induction xs) (auto simp: add_mono)

lemma length_page_entries: "length (page_entries fb) \<le> NUM_PHYSICAL_BLOCKS * PAGES_PER_BLOCK"
proof -
  let ?row = "\<lambda>b. concat (map (\<lambda>p. case fb b p of None \<Rightarrow> [] | Some page \<Rightarrow> [(b, p, page)]) [0..<PAGES_PER_BLOCK])"
  have "length (?row b) \<le> length [0..<PAGES_PER_BLOCK] * 1" for b
    by (rule length_concat_le) (auto split: option.split)
  then have "length (concat (map ?row [0..<NUM_PHYSICAL_BLOCKS])) \<le> length [0..<NUM_PHYSICAL_BLOCKS] * PAGES_PER_BLOCK"
    by (intro length_concat_le) simp
  then show ?thesis by (simp add: page_entries_def)
qed

text \<open>Loading an image gives the flash that was saved, with every page synchronised.\<close>

lemma flash_image:
  obtains h where "flash_init (flash_fini True f) g = Done h"
    "\<And>b p. b < NUM_PHYSICAL_BLOCKS \<Longrightarrow> p < PAGES_PER_BLOCK \<Longrightarrow> flash h b p = flash f b p \<and> synced h b p"
    "disciplined h = disciplined g" "crash_sim h = crash_sim g" "crash_ratio h = crash_ratio g"
proof -
  let ?es = "page_entries (flash f)"
  let ?g = "g\<lparr>flash := for_pages 0 NUM_PHYSICAL_BLOCKS (\<lambda>b p _. None) (flash g),
     synced := for_pages 0 NUM_PHYSICAL_BLOCKS (\<lambda>b p _. True) (synced g)\<rparr>"
  let ?h = "?g\<lparr>flash := put_entries ?es (flash ?g)\<rparr>"
  have n: "u32 (length ?es) = length ?es" using length_page_entries [of "flash f"] by (simp add: macros)
  have "load_pages (length ?es) (concat (map write_entry ?es)) ?g = Done ?h"
    by (rule load_pages_entries) (auto simp: page_entries_mem)
  then have "flash_init (flash_fini True f) g = Done ?h" by (simp add: flash_fini_def n)
  moreover have "flash ?h b p = flash f b p \<and> synced ?h b p" if "b < NUM_PHYSICAL_BLOCKS" "p < PAGES_PER_BLOCK" for b p
  proof -
    have "put_entries ?es (flash ?g) b p = flash f b p"
    proof (cases "flash f b p")
      case None
      then show ?thesis using that by (subst put_entries_miss) (simp_all add: page_entries_mem for_pages_apply)
    next
      case (Some page)
      then show ?thesis using that by (subst put_entries_hit [of b p page]) (simp_all add: page_entries_mem)
    qed
    then show ?thesis using that by (simp add: for_pages_apply)
  qed
  ultimately show ?thesis by (intro that [of ?h]) simp_all
qed

end
