(* ===== verification/CrashTest.thy ===== *)
theory CrashTest
  imports Disk FlashImage
begin

text \<open>
  The crash test \<^verbatim>\<open>src/crash-test.c\<close> and the formatter \<^verbatim>\<open>src/mkftl.c\<close>.
  The test runs random writes and flushes against the disk layer on the flash emulator, which loses power
  at random; after every crash it recovers, and it compares the contents of the disk with a model of
  it, the arrays \<open>vlt\<close> (volatile) and \<open>stb\<close> (stable). That model is the specification
  of a snapshot-consistent disk: after a power loss the disk holds the contents of the last flush that
  returned, or of the one that was under way. The theorem is that the comparison never fails,
  whatever the values of \<open>rand()\<close>.
\<close>

section \<open>State\<close>

definition LSA_RANGE :: nat where
  "LSA_RANGE = 1024 * 1024 - 1"

lemma LSA_RANGE_N_LAS: "LSA_RANGE = N_LAS"
  by (simp add: LSA_RANGE_def macros)

text \<open>
  The static variables of the test, the locals of its functions that live across a call (\<open>lsa\<close>, \<open>diff\<close>,
  \<open>was_crashed\<close> for \<open>crashed\<close> of \<open>main\<close>, \<open>op\<close>, \<open>ret_p\<close>, where 0 is
  \<open>NULL\<close>), and the linked disk layer \<open>dev\<close>.
\<close>

record ctest =
  vlt :: "nat \<Rightarrow> nat"
  stb :: "nat \<Rightarrow> nat"
  spec_wcnt :: nat
  buf :: "nat \<Rightarrow> nat"
  lsa_wr :: nat
  data_wr :: nat
  n_write :: nat
  n_flush :: nat
  n_recovery :: nat
  n_cmp :: nat
  wr_ratio :: nat
  cmp_ratio :: nat
  lsa :: nat
  diff :: nat
  was_crashed :: nat
  op :: nat
  ret_p :: nat
  dev :: ftl

section \<open>The specification\<close>

definition spec_init :: "ctest stmt" where
  "spec_init = assign (\<lambda>t. t\<lparr>stb := fill_words 0xffffffff LSA_RANGE (stb t)\<rparr>)"

definition spec_recovery :: "ctest stmt" where
  "spec_recovery = block [
     assign (\<lambda>t. t\<lparr>vlt := copy_words 0 (stb t) 0 LSA_RANGE (vlt t)\<rparr>),
     assign (\<lambda>t. t\<lparr>spec_wcnt := 0\<rparr>)]"

definition spec_write :: "ctest stmt" where
  "spec_write = only_if (\<lambda>t. spec_wcnt t < 2048) (block [
     wr LSA_RANGE vlt_update lsa_wr data_wr,
     assign (\<lambda>t. t\<lparr>spec_wcnt := u32 (spec_wcnt t + 1)\<rparr>)])"

definition spec_flush :: "ctest stmt" where
  "spec_flush = block [
     assign (\<lambda>t. t\<lparr>stb := copy_words 0 (vlt t) 0 LSA_RANGE (stb t)\<rparr>),
     assign (\<lambda>t. t\<lparr>spec_wcnt := 0\<rparr>)]"

definition spec_read :: "nat \<Rightarrow> ctest \<Rightarrow> nat" where
  "spec_read l t = vlt t l"

section \<open>The implementation under test\<close>

text \<open>
  A thread runs a function of the disk layer to its end, or to the \<open>pthread_exit\<close> of a power loss,
  which makes its result \<open>&pthd_ret\<close>.
\<close>

definition thread :: "(ctest \<Rightarrow> ftl stmt) \<Rightarrow> ctest stmt" where
  "thread c t = (case c t (dev t) of
     Done d \<Rightarrow> Done (t\<lparr>dev := d, ret_p := 0\<rparr>)
   | Crash d \<Rightarrow> Done (t\<lparr>dev := d, ret_p := 1\<rparr>)
   | Fault e \<Rightarrow> Fault e)"

definition impl_recovery :: "ctest stmt" where
  "impl_recovery = thread (\<lambda>_. disk_recovery)"

definition impl_write :: "ctest stmt" where
  "impl_write = block [
     wr N_ENTRIES_PER_SECTOR buf_update (\<lambda>_. 0) data_wr,
     thread (\<lambda>t. disk_write (lsa_wr t) (buf t))]"

definition impl_flush :: "ctest stmt" where
  "impl_flush = thread (\<lambda>_. disk_flush)"

text \<open>\<open>disk_read\<close> runs in the main thread and fills \<open>buf\<close>.\<close>

definition impl_read :: "(ctest \<Rightarrow> nat) \<Rightarrow> ctest stmt" where
  "impl_read l t = (case disk_read (l t) ((dev t)\<lparr>host_data := buf t\<rparr>) of
     Done d \<Rightarrow> Done (t\<lparr>dev := d, buf := host_data d\<rparr>)
   | Crash d \<Rightarrow> Crash (t\<lparr>dev := d\<rparr>)
   | Fault e \<Rightarrow> Fault e)"

definition match_vlt_body :: "ctest stmt" where
  "match_vlt_body = block [
     impl_read lsa,
     cond (\<lambda>t. spec_read (lsa t) t \<noteq> buf t 0)
       (assign (\<lambda>t. t\<lparr>diff := 1\<rparr>))
       (assign (\<lambda>t. t\<lparr>lsa := u32 (lsa t + 1)\<rparr>))]"

definition match_vlt :: "ctest stmt" where
  "match_vlt = block [
     assign (\<lambda>t. t\<lparr>diff := 0\<rparr>),
     assign (\<lambda>t. t\<lparr>lsa := 0\<rparr>),
     while_c (\<lambda>t. lsa t < LSA_RANGE \<and> diff t = 0) match_vlt_body,
     only_if (\<lambda>t. diff t = 0) spec_flush]"

definition compare_spec_impl_body :: "ctest stmt" where
  "compare_spec_impl_body = block [
     impl_read lsa,
     cond (\<lambda>t. spec_read (lsa t) t = buf t 0) skip (\<lambda>_. Fault AssertFailed),
     assign (\<lambda>t. t\<lparr>lsa := u32 (lsa t + 1)\<rparr>)]"

definition compare_spec_impl :: "ctest stmt" where
  "compare_spec_impl = block [
     assign (\<lambda>t. t\<lparr>lsa := 0\<rparr>),
     while_c (\<lambda>t. lsa t < LSA_RANGE) compare_spec_impl_body]"

section \<open>The test\<close>

definition OP_RECOVERY :: nat where "OP_RECOVERY = 0"
definition OP_WRITE :: nat where "OP_WRITE = 1"
definition OP_FLUSH :: nat where "OP_FLUSH = 2"

lemma OP_vals [simp]: "OP_RECOVERY = 0" "OP_WRITE = 1" "OP_FLUSH = 2"
  by (simp_all add: OP_RECOVERY_def OP_WRITE_def OP_FLUSH_def)

text \<open>\<open>rand()\<close>, the generator that the flash emulator uses as well.\<close>

definition rand :: "(nat \<Rightarrow> ctest stmt) \<Rightarrow> ctest stmt" where
  "rand k t = (let d = dev t; f = fl d
     in k (rands f (nrand f)) (t\<lparr>dev := d\<lparr>fl := f\<lparr>nrand := Suc (nrand f)\<rparr>\<rparr>\<rparr>))"

definition rand_mod :: "(ctest \<Rightarrow> nat) \<Rightarrow> (nat \<Rightarrow> ctest stmt) \<Rightarrow> ctest stmt" where
  "rand_mod m k = rand (\<lambda>r t. if m t = 0 then Fault DivByZero else k (r mod m t) t)"

definition choose_write_or_flush :: "ctest stmt" where
  "choose_write_or_flush =
     rand_mod wr_ratio (\<lambda>r. assign (\<lambda>t. t\<lparr>op := (if r = 0 then OP_FLUSH else OP_WRITE)\<rparr>))"

definition do_recovery :: "ctest stmt" where
  "do_recovery = block [
     assign (\<lambda>t. t\<lparr>n_recovery := u64 (n_recovery t + 1)\<rparr>),
     impl_recovery,
     only_if (\<lambda>t. ret_p t = 0) (block [
       only_if (\<lambda>t. was_crashed t = OP_FLUSH) match_vlt,
       spec_recovery,
       assign (\<lambda>t. t\<lparr>was_crashed := 0\<rparr>)])]"

definition do_write :: "ctest stmt" where
  "do_write = block [
     assign (\<lambda>t. t\<lparr>n_write := u64 (n_write t + 1)\<rparr>),
     rand_mod (\<lambda>_. LSA_RANGE) (\<lambda>r. assign (\<lambda>t. t\<lparr>lsa_wr := r\<rparr>)),
     rand (\<lambda>r. assign (\<lambda>t. t\<lparr>data_wr := u32 r\<rparr>)),
     impl_write,
     cond (\<lambda>t. ret_p t = 0) spec_write (assign (\<lambda>t. t\<lparr>was_crashed := OP_WRITE\<rparr>))]"

definition do_flush :: "ctest stmt" where
  "do_flush = block [
     assign (\<lambda>t. t\<lparr>n_flush := u64 (n_flush t + 1)\<rparr>),
     impl_flush,
     cond (\<lambda>t. ret_p t = 0) spec_flush (assign (\<lambda>t. t\<lparr>was_crashed := OP_FLUSH\<rparr>))]"

text \<open>One round of the loop of \<open>main\<close>. \<open>time()\<close> decides how many rounds there are.\<close>

definition test_round :: "ctest stmt" where
  "test_round = block [
     cond (\<lambda>t. was_crashed t \<noteq> 0) (assign (\<lambda>t. t\<lparr>op := OP_RECOVERY\<rparr>)) choose_write_or_flush,
     cond (\<lambda>t. op t = OP_RECOVERY) do_recovery (cond (\<lambda>t. op t = OP_WRITE) do_write do_flush),
     rand_mod cmp_ratio (\<lambda>r. only_if (\<lambda>t. r = 0 \<and> was_crashed t = 0) (block [
       compare_spec_impl,
       assign (\<lambda>t. t\<lparr>n_cmp := u64 (n_cmp t + 1)\<rparr>)]))]"

text \<open>\<open>main\<close>: the image file, the arguments and the number of rounds are parameters.\<close>

definition load_flash :: "image option \<Rightarrow> ctest stmt" where
  "load_flash img t = (case flash_init img (fl (dev t)) of
     Done f \<Rightarrow> Done (t\<lparr>dev := (dev t)\<lparr>fl := f\<rparr>\<rparr>) | Crash f \<Rightarrow> Crash t | Fault e \<Rightarrow> Fault e)"

definition crash_test :: "image option \<Rightarrow> nat \<Rightarrow> nat \<Rightarrow> nat \<Rightarrow> nat \<Rightarrow> ctest stmt" where
  "crash_test img crash wrr cmp rounds = block [
     assign (\<lambda>t. t\<lparr>dev := (dev t)\<lparr>fl := (fl (dev t))\<lparr>crash_ratio := crash\<rparr>\<rparr>\<rparr>),
     assign (\<lambda>t. t\<lparr>wr_ratio := wrr\<rparr>),
     assign (\<lambda>t. t\<lparr>cmp_ratio := cmp\<rparr>),
     spec_init,
     load_flash img,
     assign (\<lambda>t. t\<lparr>dev := (dev t)\<lparr>fl := (fl (dev t))\<lparr>crash_sim := True\<rparr>\<rparr>\<rparr>),
     assign (\<lambda>t. t\<lparr>was_crashed := 1\<rparr>),
     repeat_c rounds test_round]"

text \<open>\<open>main\<close> of \<^verbatim>\<open>src/mkftl.c\<close>: \<open>None\<close> when the program does not come to its end.\<close>

definition mkftl :: "image option \<Rightarrow> ftl \<Rightarrow> image option" where
  "mkftl img s = (case flash_init img (fl s) of
     Done f \<Rightarrow> (case ftl_format (s\<lparr>fl := f\<rparr>) of Done t \<Rightarrow> flash_fini True (fl t) | _ \<Rightarrow> None)
   | _ \<Rightarrow> None)"

section \<open>Weakest preconditions\<close>

lemma ctest_updates [simp]:
  "buf_update (\<lambda>a. a(i := v)) t = t\<lparr>buf := (buf t)(i := v)\<rparr>"
  "vlt_update (\<lambda>a. a(i := v)) t = t\<lparr>vlt := (vlt t)(i := v)\<rparr>"
  by simp_all

lemma wp_thread: "wp (thread c) Q C t = wp (c t) (\<lambda>d. Q (t\<lparr>dev := d, ret_p := 0\<rparr>)) (\<lambda>d. Q (t\<lparr>dev := d, ret_p := 1\<rparr>)) (dev t)"
  by (simp add: wp_def thread_def split: outcome.split)

lemma wp_impl_read:
  "wp (impl_read l) Q C t = wp (disk_read (l t)) (\<lambda>d. Q (t\<lparr>dev := d, buf := host_data d\<rparr>)) (\<lambda>d. C (t\<lparr>dev := d\<rparr>))
     ((dev t)\<lparr>host_data := buf t\<rparr>)"
  by (simp add: wp_def impl_read_def split: outcome.split)

definition drawn :: "ctest \<Rightarrow> ctest" where
  "drawn t = t\<lparr>dev := (dev t)\<lparr>fl := (fl (dev t))\<lparr>nrand := Suc (nrand (fl (dev t)))\<rparr>\<rparr>\<rparr>"

lemma wp_rand: "wp (rand k) Q C t = wp (k (rands (fl (dev t)) (nrand (fl (dev t))))) Q C (drawn t)"
  by (simp add: wp_def rand_def Let_def drawn_def)

lemma wp_rand_mod:
  assumes "m (drawn t) \<noteq> 0" and "\<And>r. r < m (drawn t) \<Longrightarrow> wp (k r) Q C (drawn t)"
  shows "wp (rand_mod m k) Q C t"
  using assms by (simp add: rand_mod_def wp_rand) (simp add: wp_def)

section \<open>The invariant\<close>

text \<open>The first words of the sectors, which is all that the test writes and compares.\<close>

definition agree :: "(nat \<Rightarrow> nat) \<Rightarrow> (nat \<Rightarrow> nat \<Rightarrow> nat) \<Rightarrow> bool" where
  "agree a v \<longleftrightarrow> (\<forall>l<LSA_RANGE. a l = v l 0)"

definition running :: "ctest \<Rightarrow> bool" where
  "running t \<longleftrightarrow> (\<exists>vol st. disk_inv (dev t) vol st \<and> agree (vlt t) vol \<and> agree (stb t) st
     \<and> wcnt (dev t) = spec_wcnt t)"

definition down :: "ctest \<Rightarrow> bool" where
  "down t \<longleftrightarrow> (\<exists>st. crash_inv (dev t) st \<and> (agree (stb t) st \<or> was_crashed t = OP_FLUSH \<and> agree (vlt t) st))"

definition test_inv :: "ctest \<Rightarrow> bool" where
  "test_inv t \<longleftrightarrow> wr_ratio t \<noteq> 0 \<and> cmp_ratio t \<noteq> 0 \<and> (if was_crashed t = 0 then running t else down t)"

lemma ftl_inv_nrand: "ftl_inv (s\<lparr>fl := (fl s)\<lparr>nrand := n\<rparr>\<rparr>) vol st = ftl_inv s vol st"
  by (simp add: ftl_inv_defs active_psa_def victim_psa_def space_inv_def avail_sectors_def same_view_def view_def sector_def stable_free_def)

lemma disk_inv_updates:
  "disk_inv (s\<lparr>fl := (fl s)\<lparr>nrand := n\<rparr>\<rparr>) vol st = disk_inv s vol st"
  "disk_inv (s\<lparr>host_data := h\<rparr>) vol st = disk_inv s vol st"
  by (simp_all add: disk_inv_def ftl_inv_nrand ftl_inv_read gc_inv_def victims_def victim_left_def)

lemma crash_inv_nrand: "crash_inv (s\<lparr>fl := (fl s)\<lparr>nrand := n\<rparr>\<rparr>) st = crash_inv s st"
  by (simp add: crash_inv_def)

lemma drawn_fields [simp]:
  "vlt (drawn t) = vlt t" "stb (drawn t) = stb t" "spec_wcnt (drawn t) = spec_wcnt t" "wr_ratio (drawn t) = wr_ratio t"
  "cmp_ratio (drawn t) = cmp_ratio t" "was_crashed (drawn t) = was_crashed t" "op (drawn t) = op t" "buf (drawn t) = buf t"
  "lsa_wr (drawn t) = lsa_wr t"
  by (simp_all add: drawn_def)

lemma drawn_inv [simp]:
  "running (drawn t) = running t" "down (drawn t) = down t" "test_inv (drawn t) = test_inv t"
  by (simp_all add: test_inv_def running_def down_def drawn_def disk_inv_updates crash_inv_nrand)

section \<open>Comparing\<close>

text \<open>A read returns the contents of the disk.\<close>

lemma wp_impl_read_disk:
  assumes d: "disk_inv (dev t) vol st" and l: "l t < LSA_RANGE"
    and Q: "\<And>d b. disk_inv d vol st \<Longrightarrow> wcnt d = wcnt (dev t) \<Longrightarrow> b 0 = vol (l t) 0 \<Longrightarrow> Q (t\<lparr>dev := d, buf := b\<rparr>)"
  shows "wp (impl_read l) Q C t"
proof -
  have "wp (disk_read (l t)) (\<lambda>u. disk_inv u vol st \<and> wcnt u = wcnt (dev t)
      \<and> (\<forall>o'<N_ENTRIES_PER_SECTOR. host_data u o' = vol (l t) o')) (\<lambda>_. False) ((dev t)\<lparr>host_data := buf t\<rparr>)"
    using wp_disk_read [of "(dev t)\<lparr>host_data := buf t\<rparr>" vol st "l t"] d l by (simp add: disk_inv_updates LSA_RANGE_N_LAS)
  then show ?thesis
    unfolding wp_impl_read by (rule wp_mono) (use Q in \<open>auto simp: macros\<close>)
qed

lemma wp_impl_read_running:
  assumes r: "running t" and l: "l t < LSA_RANGE"
    and Q: "\<And>d b. running (t\<lparr>dev := d, buf := b\<rparr>) \<Longrightarrow> b 0 = vlt t (l t) \<Longrightarrow> Q (t\<lparr>dev := d, buf := b\<rparr>)"
  shows "wp (impl_read l) Q C t"
proof -
  obtain vol st where d: "disk_inv (dev t) vol st" "agree (vlt t) vol" "agree (stb t) st" "wcnt (dev t) = spec_wcnt t"
    using r by (auto simp: running_def)
  show ?thesis
  proof (rule wp_impl_read_disk [where l = l, OF d(1) l], rule Q)
    fix x and b :: "nat \<Rightarrow> nat" assume x: "disk_inv x vol st" "wcnt x = wcnt (dev t)" "b 0 = vol (l t) 0"
    then show "running (t\<lparr>dev := x, buf := b\<rparr>)" using d unfolding running_def by auto
    show "b 0 = vlt t (l t)" using x(3) d(2) l by (simp add: agree_def)
  qed
qed

lemma wp_compare_spec_impl:
  assumes r: "running t" and Q: "\<And>d b l. running (t\<lparr>dev := d, buf := b, lsa := l\<rparr>) \<Longrightarrow> Q (t\<lparr>dev := d, buf := b, lsa := l\<rparr>)"
  shows "wp compare_spec_impl Q C t"
proof -
  let ?I = "\<lambda>n u. \<exists>d b. u = t\<lparr>dev := d, buf := b, lsa := n\<rparr> \<and> running u"
  have "wp (while_c (\<lambda>t. lsa t < LSA_RANGE) compare_spec_impl_body) Q C (t\<lparr>lsa := 0\<rparr>)"
  proof (rule wp_while_count [where I = ?I and N = LSA_RANGE])
    show "?I 0 (t\<lparr>lsa := 0\<rparr>)" using r by (intro exI [of _ "dev t"] exI [of _ "buf t"]) (simp add: running_def)
    show "lsa u < LSA_RANGE \<and> wp compare_spec_impl_body (?I (Suc n)) C u" if n: "n < LSA_RANGE" and I: "?I n u" for n u
    proof -
      obtain d b where u: "u = t\<lparr>dev := d, buf := b, lsa := n\<rparr>" and ru: "running u" using I by blast
      have "u32 (Suc n) = Suc n" using n by (simp add: LSA_RANGE_def)
      then have "wp (impl_read lsa) (wp (block [cond (\<lambda>t. spec_read (lsa t) t = buf t 0) skip (\<lambda>_. Fault AssertFailed),
          assign (\<lambda>t. t\<lparr>lsa := u32 (lsa t + 1)\<rparr>)]) (?I (Suc n)) C) C u"
        using n u by (intro wp_impl_read_running [OF ru]) (auto simp: wp_simps spec_read_def running_def)
      then show ?thesis using n u by (simp add: compare_spec_impl_body_def wp_block)
    qed
  qed (use Q in auto)
  then show ?thesis by (simp add: compare_spec_impl_def wp_block wp_assign)
qed

text \<open>
  After a crash in a flush, \<open>match_vlt\<close> finds out which of the two contents the disk holds and makes
  the specification follow.
\<close>

definition same_config :: "ctest \<Rightarrow> ctest \<Rightarrow> bool" where
  "same_config t u \<longleftrightarrow> wr_ratio u = wr_ratio t \<and> cmp_ratio u = cmp_ratio t \<and> was_crashed u = was_crashed t"

lemma agree_copy: "agree (copy_words 0 a 0 LSA_RANGE b) v = agree a v"
  by (simp add: agree_def copy_words_apply)

lemma wp_match_vlt:
  assumes d: "disk_inv (dev t) v v" "wcnt (dev t) = 0" and a: "agree (stb t) v \<or> agree (vlt t) v"
    and Q: "\<And>u. disk_inv (dev u) v v \<Longrightarrow> wcnt (dev u) = 0 \<Longrightarrow> agree (stb u) v \<Longrightarrow> same_config t u \<Longrightarrow> Q u"
  shows "wp match_vlt Q C t"
proof -
  let ?I = "\<lambda>u. disk_inv (dev u) v v \<and> wcnt (dev u) = 0 \<and> same_config t u \<and> vlt u = vlt t \<and> stb u = stb t
    \<and> lsa u \<le> LSA_RANGE \<and> (\<forall>k<lsa u. vlt t k = v k 0) \<and> (diff u \<noteq> 0 \<longrightarrow> \<not> agree (vlt t) v)"
  have step: "wp match_vlt_body (\<lambda>w. ?I w \<and> LSA_RANGE - lsa w + (if diff w = 0 then 1 else 0)
      < LSA_RANGE - lsa u + (if diff u = 0 then 1 else 0)) C u"
    if I: "?I u" and g: "lsa u < LSA_RANGE \<and> diff u = 0" for u
  proof -
    have "u32 (Suc (lsa u)) = Suc (lsa u)" using g by (simp add: LSA_RANGE_def)
    moreover have "\<not> agree (vlt t) v" if "vlt t (lsa u) \<noteq> v (lsa u) 0" using that g by (auto simp: agree_def)
    ultimately show ?thesis
      unfolding match_vlt_body_def wp_block
      by (intro wp_impl_read_disk [of u v v]) (use I g in \<open>auto simp: wp_simps spec_read_def same_config_def less_Suc_eq\<close>)
  qed
  have fin: "wp (only_if (\<lambda>t. diff t = 0) spec_flush) Q C u" if I: "?I u" and g: "\<not> (lsa u < LSA_RANGE \<and> diff u = 0)" for u
  proof (cases "diff u = 0")
    case True
    then have "agree (vlt u) v" using I g by (simp add: agree_def)
    then have "Q (u\<lparr>stb := copy_words 0 (vlt u) 0 LSA_RANGE (stb u), spec_wcnt := 0\<rparr>)"
      using I by (intro Q) (simp_all add: agree_copy same_config_def)
    then show ?thesis using True by (simp add: wp_only_if spec_flush_def wp_simps)
  next
    case False
    then have "Q u" using I a by (intro Q) auto
    then show ?thesis using False by (simp add: wp_only_if)
  qed
  have "wp (while_c (\<lambda>t. lsa t < LSA_RANGE \<and> diff t = 0) match_vlt_body)
      (wp (only_if (\<lambda>t. diff t = 0) spec_flush) Q C) C (t\<lparr>diff := 0, lsa := 0\<rparr>)"
    by (rule wp_while [where I = ?I and m = "\<lambda>w. LSA_RANGE - lsa w + (if diff w = 0 then 1 else 0)"])
       (use d step fin in \<open>auto simp: same_config_def\<close>)
  then show ?thesis by (simp add: match_vlt_def wp_block wp_assign)
qed

section \<open>The rounds\<close>

lemma wp_do_recovery:
  assumes inv: "test_inv t" and cr: "was_crashed t \<noteq> 0"
  shows "wp do_recovery test_inv C t"
proof -
  obtain st where c: "crash_inv (dev t) st" and a: "agree (stb t) st \<or> was_crashed t = 2 \<and> agree (vlt t) st"
    using inv cr by (auto simp: test_inv_def down_def)
  have up: "wp (block [spec_recovery, assign (\<lambda>t. t\<lparr>was_crashed := 0\<rparr>)]) test_inv C u"
    if "disk_inv (dev u) st st" "wcnt (dev u) = 0" "agree (stb u) st" "same_config t u" for u
    using that inv by (auto simp: spec_recovery_def wp_simps test_inv_def running_def agree_copy same_config_def)
  have match: "wp (only_if (\<lambda>t. was_crashed t = OP_FLUSH) match_vlt)
      (wp (block [spec_recovery, assign (\<lambda>t. t\<lparr>was_crashed := 0\<rparr>)]) test_inv C) C u"
    if u: "disk_inv (dev u) st st" "wcnt (dev u) = 0" "same_config t u" "stb u = stb t" "vlt u = vlt t" for u
  proof (cases "was_crashed t = 2")
    case True
    have "wp match_vlt (wp (block [spec_recovery, assign (\<lambda>t. t\<lparr>was_crashed := 0\<rparr>)]) test_inv C) C u"
    proof (rule wp_match_vlt [OF u(1,2)])
      fix w assume "disk_inv (dev w) st st" "wcnt (dev w) = 0" "agree (stb w) st" "same_config u w"
      then show "wp (block [spec_recovery, assign (\<lambda>t. t\<lparr>was_crashed := 0\<rparr>)]) test_inv C w"
        using u(3) by (intro up) (simp_all add: same_config_def)
    qed (use a u in auto)
    then show ?thesis using True u(3) by (simp add: wp_only_if same_config_def)
  next
    case False
    then have "wp (block [spec_recovery, assign (\<lambda>t. t\<lparr>was_crashed := 0\<rparr>)]) test_inv C u"
      using a u by (intro up) auto
    then show ?thesis using False u(3) by (simp add: wp_only_if same_config_def)
  qed
  let ?K = "wp (block [only_if (\<lambda>t. ret_p t = 0) (block [only_if (\<lambda>t. was_crashed t = OP_FLUSH) match_vlt,
       spec_recovery, assign (\<lambda>t. t\<lparr>was_crashed := 0\<rparr>)])]) test_inv C"
  let ?t = "t\<lparr>n_recovery := u64 (n_recovery t + 1)\<rparr>"
  have up': "?K (?t\<lparr>dev := d, ret_p := 0\<rparr>)" if "disk_inv d st st \<and> wcnt d = 0 \<and> failed d = 0" for d
    using match [of "?t\<lparr>dev := d, ret_p := 0\<rparr>"] that
    by (simp add: wp_block wp_only_if [of "\<lambda>t. ret_p t = 0"] same_config_def)
  have down': "?K (?t\<lparr>dev := d, ret_p := 1\<rparr>)" if "crash_inv d st" for d
    using inv cr that a by (auto simp: wp_simps test_inv_def down_def)
  have "wp disk_recovery (\<lambda>d. ?K (?t\<lparr>dev := d, ret_p := 0\<rparr>)) (\<lambda>d. ?K (?t\<lparr>dev := d, ret_p := 1\<rparr>)) (dev t)"
    by (rule wp_mono [OF wp_disk_recovery [OF c]]) (erule up', erule down')
  then show ?thesis
    unfolding do_recovery_def impl_recovery_def by (simp add: wp_block wp_assign wp_thread)
qed

lemma wp_do_write:
  assumes inv: "test_inv t" and cr: "was_crashed t = 0"
  shows "wp do_write test_inv C t"
proof -
  let ?K = "wp (cond (\<lambda>t. ret_p t = 0) spec_write (assign (\<lambda>t. t\<lparr>was_crashed := OP_WRITE\<rparr>))) test_inv C"
  have impl: "wp impl_write ?K C u" if u: "running u" "wr_ratio u \<noteq> 0" "cmp_ratio u \<noteq> 0" "was_crashed u = 0"
    "lsa_wr u < LSA_RANGE" for u
  proof -
    obtain vol st where d: "disk_inv (dev u) vol st" "agree (vlt u) vol" "agree (stb u) st" "wcnt (dev u) = spec_wcnt u"
      using u(1) by (auto simp: running_def)
    let ?b = "(buf u)(0 := data_wr u)" and ?la = "lsa_wr u"
    let ?Q = "\<lambda>x. ?K (u\<lparr>buf := ?b, dev := x, ret_p := 0\<rparr>)" and ?C = "\<lambda>x. ?K (u\<lparr>buf := ?b, dev := x, ret_p := 1\<rparr>)"
    have la: "?la < N_LAS" using u(5) by (simp add: LSA_RANGE_N_LAS)
    have crash: "?C x" if "crash_inv x st" for x
      using that u d by (auto simp: wp_simps test_inv_def down_def)
    have "wp (disk_write ?la ?b) ?Q ?C (dev u)"
    proof (cases "wcnt (dev u) < MAX_WCNT")
      case True
      have Q: "?Q x" if x: "disk_inv x (vol(?la := ?b)) st \<and> wcnt x = Suc (wcnt (dev u))" for x
      proof -
        have "agree ((vlt u)(?la := data_wr u)) (vol(?la := ?b))" using d(2) by (simp add: agree_def)
        then show ?thesis
          using x True u d by (auto simp: wp_simps spec_write_def test_inv_def running_def macros)
      qed
      show ?thesis by (rule wp_mono [OF wp_disk_write [OF d(1) la True]]) (erule Q, erule crash)
    next
      case False
      have Q: "?Q x" if x: "disk_inv x vol st \<and> wcnt x = wcnt (dev u)" for x
        using x False u d by (auto simp: wp_simps spec_write_def test_inv_def running_def macros)
      have "N_LAS \<le> ?la \<or> MAX_WCNT \<le> wcnt (dev u)" using False by simp
      from wp_disk_write_rejected [OF d(1) this] show ?thesis by (rule wp_mono) (erule Q, erule crash)
    qed
    then show ?thesis by (simp add: impl_write_def wp_block wp_wr wp_thread macros)
  qed
  show ?thesis
    unfolding do_write_def wp_block wp_assign wp_rand
  proof (rule wp_rand_mod)
    let ?t = "drawn (t\<lparr>n_write := u64 (n_write t + 1)\<rparr>)"
    fix r assume "r < LSA_RANGE"
    then show "wp (assign (\<lambda>t. t\<lparr>lsa_wr := r\<rparr>)) (\<lambda>t. wp impl_write ?K C
        (drawn t\<lparr>data_wr := u32 (rands (fl (dev t)) (nrand (fl (dev t))))\<rparr>)) C ?t"
      unfolding wp_assign using inv cr
      by (intro impl) (auto simp: test_inv_def running_def drawn_def disk_inv_updates)
  qed (simp add: LSA_RANGE_def)
qed

lemma wp_do_flush:
  assumes inv: "test_inv t" and cr: "was_crashed t = 0"
  shows "wp do_flush test_inv C t"
proof -
  obtain vol st where d: "disk_inv (dev t) vol st" "agree (vlt t) vol" "agree (stb t) st" "wcnt (dev t) = spec_wcnt t"
    using inv cr by (auto simp: test_inv_def running_def)
  let ?K = "wp (block [cond (\<lambda>t. ret_p t = 0) spec_flush (assign (\<lambda>t. t\<lparr>was_crashed := OP_FLUSH\<rparr>))]) test_inv C"
  let ?t = "t\<lparr>n_flush := u64 (n_flush t + 1)\<rparr>"
  have "?K (?t\<lparr>dev := x, ret_p := 0\<rparr>)" if "disk_inv x vol vol \<and> wcnt x = 0" for x
    using that inv cr d by (auto simp: wp_simps spec_flush_def test_inv_def running_def agree_copy)
  moreover have "?K (?t\<lparr>dev := x, ret_p := 1\<rparr>)" if "crash_inv x st \<or> crash_inv x vol" for x
    using that inv cr d by (auto simp: wp_simps test_inv_def down_def)
  ultimately have "wp disk_flush (\<lambda>x. ?K (?t\<lparr>dev := x, ret_p := 0\<rparr>)) (\<lambda>x. ?K (?t\<lparr>dev := x, ret_p := 1\<rparr>)) (dev t)"
    by (intro wp_mono [OF wp_disk_flush [OF d(1)]])
  then show ?thesis
    unfolding do_flush_def impl_flush_def by (simp add: wp_block wp_assign wp_thread)
qed

lemma wp_test_round:
  assumes inv: "test_inv t"
  shows "wp test_round test_inv C t"
proof -
  let ?cmp = "rand_mod cmp_ratio (\<lambda>r. only_if (\<lambda>t. r = 0 \<and> was_crashed t = 0) (block [
       compare_spec_impl, assign (\<lambda>t. t\<lparr>n_cmp := u64 (n_cmp t + 1)\<rparr>)]))"
  let ?ops = "cond (\<lambda>t. op t = OP_RECOVERY) do_recovery (cond (\<lambda>t. op t = OP_WRITE) do_write do_flush)"
  have "wp compare_spec_impl (wp (assign (\<lambda>t. t\<lparr>n_cmp := u64 (n_cmp t + 1)\<rparr>)) test_inv C) C u"
    if "test_inv u" "was_crashed u = 0" for u
    using that by (intro wp_compare_spec_impl) (auto simp: wp_assign test_inv_def running_def)
  then have cmp: "wp ?cmp test_inv C u" if "test_inv u" for u
    using that by (intro wp_rand_mod) (auto simp: wp_only_if wp_block test_inv_def)
  have ops: "wp ?ops test_inv C u" if "test_inv u" "(was_crashed u \<noteq> 0) = (op u = 0)" for u
    using that wp_do_recovery [of u C] wp_do_write [of u C] wp_do_flush [of u C]
    by (cases "op u = 0"; cases "op u = 1") (simp_all add: wp_cond)
  have op_inv: "test_inv (u\<lparr>op := x\<rparr>) = test_inv u" for u x by (simp add: test_inv_def running_def down_def)
  have "wp (cond (\<lambda>t. was_crashed t \<noteq> 0) (assign (\<lambda>t. t\<lparr>op := OP_RECOVERY\<rparr>)) choose_write_or_flush)
      (\<lambda>u. test_inv u \<and> (was_crashed u \<noteq> 0) = (op u = 0)) C t"
    unfolding wp_cond choose_write_or_flush_def
    using inv by (auto simp: wp_assign op_inv test_inv_def [of t] intro!: wp_rand_mod)
  then show ?thesis
    unfolding test_round_def wp_block
  proof (rule wp_mono)
    fix u assume "test_inv u \<and> (was_crashed u \<noteq> 0) = (op u = 0)"
    then have "wp ?ops test_inv C u" by (elim conjE) (rule ops)
    then show "wp ?ops (wp ?cmp test_inv C) C u" by (rule wp_mono) (erule cmp)
  qed
qed

section \<open>Formatting and testing\<close>

lemma load_pages_env:
  "load_pages n img f = Done g \<Longrightarrow> disciplined g = disciplined f \<and> crash_sim g = crash_sim f \<and> crash_ratio g = crash_ratio f"
  by (induction n img f rule: load_pages.induct) (auto split: if_splits)

lemma flash_init_env:
  assumes "flash_init img f = Done g"
  shows "env_ok g = env_ok f" "crash_sim g = crash_sim f"
proof -
  have "env_ok g = env_ok f \<and> crash_sim g = crash_sim f"
    using assms by (cases "(img, f)" rule: flash_init.cases) (auto simp: env_ok_def dest!: load_pages_env)
  then show "env_ok g = env_ok f" "crash_sim g = crash_sim f" by simp_all
qed

lemma mkftl_image:
  assumes init: "flash_init img (fl s) = Done f" and env: "env_ok (fl s)" and sim: "\<not> crash_sim (fl s)"
  obtains t where "mkftl img s = flash_fini True (fl t)" "crash_inv t blank"
proof -
  note E = flash_init_env [OF init]
  have "wp ftl_format (\<lambda>t. crash_inv t blank) (\<lambda>_. False) (s\<lparr>fl := f\<rparr>)"
    by (rule wp_mono [OF wp_ftl_format]) (use E env sim in auto)
  then obtain t where "ftl_format (s\<lparr>fl := f\<rparr>) = Done t" "crash_inv t blank" by (rule wp_cases) blast+
  then show ?thesis using init by (intro that [of t]) (simp_all add: mkftl_def)
qed

lemma recoverable_loaded:
  assumes rec: "recoverable f st"
    and h: "\<And>b p. b < NUM_PHYSICAL_BLOCKS \<Longrightarrow> p < PAGES_PER_BLOCK \<Longrightarrow> flash h b p = flash f b p \<and> synced h b p"
  shows "recoverable h st"
proof (rule recoverable_frame(1) [OF rec])
  show "keeps_meta f h" using h by (simp add: keeps_meta_def keeps_def macros)
  fix la assume "la < N_LAS"
  then have "stable_l2p f la \<le> N_PAS" using rec by (simp add: recoverable_def table_ok_def)
  then have "PSA_TO_PBA (stable_l2p f la) < NUM_PHYSICAL_BLOCKS" by (simp add: PSA_TO_PBA_eq macros)
  moreover have "PSA_TO_IPA (stable_l2p f la) < PAGES_PER_BLOCK" using IPA_less by (simp add: macros)
  ultimately show "keeps f h (PSA_TO_PBA (stable_l2p f la)) (PSA_TO_IPA (stable_l2p f la))"
    using h by (simp add: keeps_def)
qed

lemma wp_crash_test:
  assumes img: "img = flash_fini True (fl s)" "crash_inv s blank" and d: "disciplined (fl (dev t))" "crash_sim (fl (dev t)) = False"
    and c: "crash \<noteq> 0" "wrr \<noteq> 0" "cmp \<noteq> 0"
  shows "wp (crash_test img crash wrr cmp rounds) test_inv C t"
proof -
  let ?f = "(fl (dev t))\<lparr>crash_ratio := crash\<rparr>"
  let ?stb = "fill_words 4294967295 LSA_RANGE (stb t)"
  obtain h where h: "flash_init img ?f = Done h"
    "\<And>b p. b < NUM_PHYSICAL_BLOCKS \<Longrightarrow> p < PAGES_PER_BLOCK \<Longrightarrow> flash h b p = flash (fl s) b p \<and> synced h b p"
    "disciplined h = disciplined ?f" "crash_ratio h = crash_ratio ?f"
    unfolding img(1) by (rule flash_image [of "fl s" ?f]) auto
  have "recoverable h blank" using recoverable_loaded [OF _ h(2)] img(2) by (simp add: crash_inv_def)
  then have rec: "recoverable (h\<lparr>crash_sim := True\<rparr>) blank"
    by (rule recoverable_frame(1)) (simp_all add: keeps_meta_def keeps_def)
  let ?u = "t\<lparr>wr_ratio := wrr, cmp_ratio := cmp, stb := ?stb, dev := (dev t)\<lparr>fl := h\<lparr>crash_sim := True\<rparr>\<rparr>, was_crashed := 1\<rparr>"
  have "down ?u"
    using rec d c h(3,4) by (auto simp: down_def crash_inv_def env_ok_def agree_def fill_words_apply blank_def intro!: exI [of _ blank])
  then have "test_inv ?u" using c by (simp add: test_inv_def)
  then have "wp (repeat_c rounds test_round) test_inv C ?u" by (rule wp_repeat) (rule wp_test_round)
  then show ?thesis
    using h(1) by (simp add: crash_test_def wp_block wp_assign spec_init_def wp_def [of "load_flash img"] load_flash_def)
qed

end
