(* ===== verification/SteadyPower.thy ===== *)
theory SteadyPower
  imports Disk
begin

text \<open>
  A device that does not lose power. \<open>steady P c\<close> says that the statement \<open>c\<close>, started in
  a state with \<open>P\<close>, does not lose power and keeps \<open>P\<close>; the rules below carry it through
  the statements of C, so that for every function of the translation layer it is proved by the
  functions it calls. Together with total correctness it gives liveness: the operations return.
\<close>

named_theorems steady "statements that lose no power"

fun on :: "('s \<Rightarrow> bool) \<Rightarrow> 's outcome \<Rightarrow> bool" where
  "on P (Done t) = P t"
| "on P (Crash t) = False"
| "on P (Fault e) = True"

definition steady :: "('s \<Rightarrow> bool) \<Rightarrow> 's stmt \<Rightarrow> bool" where
  "steady P c \<longleftrightarrow> (\<forall>s. P s \<longrightarrow> on P (c s))"

lemma steady_skip [steady]: "steady P skip"
  by (simp add: steady_def skip_def)

lemma steady_assign [steady]: "(\<And>s. P s \<Longrightarrow> P (f s)) \<Longrightarrow> steady P (assign f)"
  by (simp add: steady_def assign_def)

lemma steady_seq [steady]: "steady P c \<Longrightarrow> steady P d \<Longrightarrow> steady P (seq c d)"
proof (unfold steady_def, intro allI impI)
  fix s assume c: "\<forall>s. P s \<longrightarrow> on P (c s)" and d: "\<forall>s. P s \<longrightarrow> on P (d s)" and "P s"
  then have "on P (c s)" by blast
  then show "on P (seq c d s)" using d by (cases "c s") (simp_all add: seq_def)
qed

lemma steady_block [steady]: "steady P (block [])" "steady P c \<Longrightarrow> steady P (block cs) \<Longrightarrow> steady P (block (c # cs))"
  by (simp_all add: block.simps steady)

lemma steady_cond [steady]: "steady P c \<Longrightarrow> steady P d \<Longrightarrow> steady P (cond b c d)"
  by (auto simp: steady_def cond_def)

lemma steady_only_if [steady]: "steady P c \<Longrightarrow> steady P (only_if b c)"
  by (simp add: only_if_def steady)

lemma steady_local_var [steady]: "(\<And>v. steady P (k v)) \<Longrightarrow> steady P (local_var f k)"
  by (auto simp: steady_def local_var_def)

lemma steady_rd [steady]: "(\<And>v. steady P (k v)) \<Longrightarrow> steady P (rd n arr i k)"
  by (auto simp: steady_def rd_def)

lemma steady_wr [steady]: "(\<And>g s. P s \<Longrightarrow> P (upd g s)) \<Longrightarrow> steady P (wr n upd i v)"
  by (simp add: steady_def wr_def)

lemma steady_repeat [steady]: "steady P c \<Longrightarrow> steady P (repeat_c n c)"
  by (induction n) (simp_all add: steady)

lemma steady_while [steady]:
  assumes "steady P c"
  shows "steady P (while_c b c)"
proof -
  have "on P (while_c b c s)" if "P s" for s
  proof (cases "while_option (\<lambda>r. case r of Done t \<Rightarrow> b t | _ \<Rightarrow> False) (\<lambda>r. case r of Done t \<Rightarrow> c t | r' \<Rightarrow> r') (Done s)")
    case None
    then show ?thesis by (simp add: while_c_def)
  next
    case (Some r)
    have "on P (case r of Done t \<Rightarrow> c t | r' \<Rightarrow> r')" if "on P r" for r
      using that assms by (cases r) (simp_all add: steady_def)
    then have "on P r" by (rule while_option_rule [OF _ Some]) (simp_all add: that)
    then show ?thesis using Some by (simp add: while_c_def)
  qed
  then show ?thesis by (simp add: steady_def)
qed

lemma steady_wp:
  assumes "steady P c" "wp c Q C s" "P s"
  shows "\<exists>t. c s = Done t \<and> Q t \<and> P t"
proof (rule wp_cases [OF assms(2)])
  have "on P (c s)" using assms by (simp add: steady_def)
  note on = this
  show ?thesis if "c s = Crash t" for t using on that by simp
  show ?thesis if "c s = Done t" "Q t" for t using that on by simp
qed

section \<open>The flash\<close>

definition powered :: "flashemu \<Rightarrow> bool" where
  "powered f \<longleftrightarrow> \<not> crash_sim f"

lemma steady_crash_check [steady]: "steady powered crash_check"
  by (simp add: steady_def crash_check_def powered_def)

lemma steady_put_page [steady]: "steady powered (put_page b p d y)"
  by (simp add: steady_def put_page_def powered_def)

lemma steady_erase_block [steady]: "steady powered (erase_block b y)"
  by (simp add: steady_def erase_block_def powered_def)

lemma steady_flash [steady]:
  "steady powered (flash_program b p d y)" "steady powered (flash_erase b y)" "steady powered flash_sync"
  by (auto simp: flash_program_def flash_erase_def flash_sync_def powered_def intro!: steady)

lemma steady_bulk [steady]: "steady powered (flash_program_bulk b n d)" "steady powered (flash_erase_bulk b n)"
  by (simp_all add: steady_def flash_program_bulk_def flash_erase_bulk_def powered_def Let_def)

section \<open>The translation layer\<close>

abbreviation ftl_powered :: "ftl \<Rightarrow> bool" where
  "ftl_powered s \<equiv> powered (fl s)"

lemma steady_on_flash [steady]: "(\<And>s. steady powered (c s)) \<Longrightarrow> steady ftl_powered (on_flash c)"
proof (unfold steady_def, intro allI impI)
  fix s assume c: "\<And>s. \<forall>f. powered f \<longrightarrow> on powered (c s f)" and "ftl_powered s"
  then have "on powered (c s (fl s))" by blast
  then show "on ftl_powered (on_flash c s)" by (cases "c s (fl s)") (simp_all add: on_flash_def)
qed

lemma steady_read_page [steady]:
  "(\<And>g s. fl (upd g s) = fl s) \<Longrightarrow> steady ftl_powered (read_page b p upd)"
  by (simp add: steady_def read_page_def flash_read_def)

lemma steady_mem [steady]:
  "(\<And>g s. fl (upd g s) = fl s) \<Longrightarrow> steady ftl_powered (memcpy32 n upd d k src o' len)"
  "(\<And>g s. fl (upd g s) = fl s) \<Longrightarrow> steady ftl_powered (memset32 n upd v len)"
  "(\<And>g s. fl (upd g s) = fl s) \<Longrightarrow> steady ftl_powered (memset n upd v len)"
  by (simp_all add: steady_def memcpy32_def memset32_def memset_def)

lemmas ftl_stmt_defs =
  check_sufficient_avail_blocks_def check_sufficient_ready_blocks_def check_l2p_injective_body_def
  check_l2p_injective_loop_def check_l2p_injective_def choose_free_block_def
  make_all_invalid_blocks_erasable_def make_one_erasable_block_free_def
  categorize_used_and_erasable_blocks_body_def categorize_used_and_erasable_blocks_loop_def
  categorize_used_and_erasable_blocks_def identify_used_blocks_body_def identify_used_blocks_loop_def
  identify_used_blocks_def reconstruct_block_list_def invalidate_merge_buffer_def reset_data_pointer_def
  reset_gc_pointer_def persist_merge_buffer_def copy_data_to_merge_buf_def reset_committed_point_def
  find_last_committed_delta_chkpt_body_def find_last_committed_delta_chkpt_loop_def
  find_last_committed_delta_chkpt_def first_delta_page_erased_def apply_delta_chkpt_body_def
  apply_delta_chkpt_loop_def apply_delta_chkpt_def invalidate_p2l_body_def invalidate_p2l_loop_def
  invalidate_p2l_def reset_vcnts_body_def reset_vcnts_loop_def reset_vcnts_def vcnts_inc_def vcnts_dec_def
  count_valid_sectors_body_def count_valid_sectors_loop_def count_valid_sectors_def
  remap_valid_sectors_body_def remap_valid_sectors_loop_def remap_valid_sectors_def
  invalidate_delta_buf_body_def invalidate_delta_buf_loop_def invalidate_delta_buf_def append_delta_pair_def
  create_one_delta_chkpt_def delete_all_delta_chkpts_def reset_delta_buf_def create_full_chkpt_def
  delete_full_chkpt_def find_committed_full_chkpt_def toggle_full_chkpt_def
  create_one_delta_chkpt_when_delta_buf_full_def persist_merge_buffer_when_full_def
  make_one_erasable_block_free_when_free_blklist_empty_def
  make_one_erasable_block_unless_erasable_blklist_empty_def ftl_read_def ftl_write_def
  persist_merge_buffer_unless_empty_def ftl_flush_def find_index_of_victim_block_body_def
  find_index_of_victim_block_loop_def swap_victim_block_to_head_def choose_victim_block_def
  make_victim_block_invalid_def load_lsa_gc_def gc_copy_sector_def gc_advance_def ftl_gc_copy_def
  ftl_gc_erase_def reset_committed_point_when_first_delta_page_erased_def reconstruct_p2l_def
  reconstruct_vcnts_def ftl_recovery_def ftl_format_def

lemma steady_apply_full_chkpt [steady]: "steady ftl_powered apply_full_chkpt"
  by (simp add: steady_def apply_full_chkpt_def local_var_def flash_read_bulk_def Let_def)

lemma steady_ftl_gc [steady]: "steady ftl_powered ftl_gc_copy" "steady ftl_powered ftl_gc_erase"
  by (unfold ftl_stmt_defs, (intro steady; simp)+)

lemma steady_ftl_rw [steady]: "steady ftl_powered (ftl_read la)" "steady ftl_powered (ftl_write la d)"
  by (unfold ftl_stmt_defs, (intro steady; simp)+)

lemma steady_ftl_flush [steady]: "steady ftl_powered ftl_flush"
  by (unfold ftl_stmt_defs, (intro steady; simp)+)

lemma steady_ftl_boot [steady]: "steady ftl_powered ftl_recovery" "steady ftl_powered ftl_format"
  by (unfold ftl_stmt_defs, (intro steady; simp)+)

lemma steady_disk [steady]:
  "steady ftl_powered (disk_read la)" "steady ftl_powered (disk_write la d)" "steady ftl_powered disk_flush"
  "steady ftl_powered disk_recovery"
  by (unfold disk_read_def disk_write_def disk_flush_def disk_recovery_def, (intro steady; simp)+)

end
