(* ===== verification/Samples.thy ===== *)
theory Samples
  imports CrashTest SteadyPower
begin

text \<open>
  Concrete states for the properties that have hypotheses: an erased flash, the memory of a device whose
  variables are all zero, the device after \<open>ftl_format\<close>, and the device after a first recovery.
\<close>

definition flash0 :: flashemu where
  "flash0 = \<lparr>flash = \<lambda>_ _. None, synced = \<lambda>_ _. True, crash_sim = False, crash_ratio = 5, pthd_ret = 0,
     rands = \<lambda>n. n, nrand = 0, malloc_mem = \<lambda>_ _ _ _. 0, disciplined = True\<rparr>"

definition ftl0 :: ftl where
  "ftl0 = \<lparr>isa_active = 0, ipa_active = 0, pba_active = 0, lsas_merge = \<lambda>_. 0, buf_merge = \<lambda>_. 0,
     delta_buf = \<lambda>_. 0, ptr_delta_buf = 0, pba_delta = 0, ipa_delta = 0, ptr_full = 0, buf_commit = \<lambda>_. 0,
     blkid = 0, pgid = 0, sectid = 0, idx = 0, buf_tmp = \<lambda>_. 0, pba_committed = 0, ipa_committed = 0,
     is_used = \<lambda>_. 0, buf_read = \<lambda>_. 0, usable = 0, erasable = 0, invalid = 0, used = 0, active = 0,
     blk_list = \<lambda>_. 0, isa_gc = 0, ipa_gc = 0, pba_gc = 0, lsa_gc = 0, buf_gc = \<lambda>_. 0, gcprog = 0,
     enable_gc = 0, vcnts = \<lambda>_. 0, idx_victim = 0, min_vcnt = 0, l2p = \<lambda>_. 0, p2l = \<lambda>_. 0, wcnt = 0,
     failed = 0, pa_used = \<lambda>_. 0, host_data = \<lambda>_. 0, fl = flash0\<rparr>"

fun result :: "'s outcome \<Rightarrow> 's" where
  "result (Done s) = s"
| "result (Crash s) = s"
| "result (Fault e) = undefined"

definition formatted0 :: ftl where
  "formatted0 = result (ftl_format ftl0)"

definition disk0 :: ftl where
  "disk0 = result (disk_recovery formatted0)"

lemma ftl0_env [simp]: "env_ok (fl ftl0)" "crash_sim (fl ftl0) = False" "disciplined (fl ftl0)" "ftl_powered ftl0"
  by (simp_all add: ftl0_def flash0_def env_ok_def powered_def)

lemma formatted0: "ftl_format ftl0 = Done formatted0" "crash_inv formatted0 blank" "ftl_powered formatted0"
  using steady_wp [OF _ wp_ftl_format, of ftl_powered ftl0] by (auto simp: formatted0_def steady)

lemma disk0: "disk_recovery formatted0 = Done disk0" "disk_inv disk0 blank blank" "wcnt disk0 = 0" "ftl_powered disk0"
  using steady_wp [OF _ wp_disk_recovery [OF formatted0(2)], of ftl_powered] formatted0(3) by (auto simp: disk0_def steady)

lemma disk0_ftl_inv: "ftl_inv disk0 blank blank"
  using disk0(2) by (rule disk_invD)

end
