(* ===== verification/FtlProps.thy ===== *)
theory FtlProps
  imports Samples
begin

text \<open>
  The properties of the translation layer and of the flash emulator, each with an instance on the device
  of \<open>Samples\<close>.
\<close>

section \<open>The host's view\<close>

text \<open>
  C5: a write returns, and then the sector reads as the data written while every other
  sector reads as before.
\<close>

theorem write_then_read:
  assumes "ftl_inv s vol st" "la < N_LAS" "wcnt s < MAX_WCNT" "lb < N_LAS" "ftl_powered s"
  shows "\<exists>t u. ftl_write la d s = Done t \<and> ftl_read lb t = Done u
    \<and> (\<forall>o'<N_ENTRIES_PER_SECTOR. host_data u o' = (if lb = la then d o' else vol lb o'))"
proof -
  obtain t where t: "ftl_write la d s = Done t" "ftl_inv t (vol(la := d)) st" "ftl_powered t"
    using steady_wp [OF steady_ftl_rw(2) wp_ftl_write [OF assms(1-3)] assms(5)] by blast
  then obtain u where u: "ftl_read lb t = Done u" "\<forall>o'<N_ENTRIES_PER_SECTOR. host_data u o' = (vol(la := d)) lb o'"
    using steady_wp [OF steady_ftl_rw(1) wp_ftl_read [OF t(2) assms(4)] t(3)] by blast
  then show ?thesis using t(1) by (cases "lb = la") auto
qed

theorem write_then_read_witness:
  "\<exists>t u. ftl_write 7 (\<lambda>o'. o' + 42) disk0 = Done t \<and> ftl_read 7 t = Done u
    \<and> (\<forall>o'<N_ENTRIES_PER_SECTOR. host_data u o' = o' + 42)"
  using write_then_read [OF disk0_ftl_inv, of 7 7 "\<lambda>o'. o' + 42"] disk0(3,4) by (simp add: macros)

text \<open>
  C4: a flush that returns is durable. The power may fail at any later moment and the
  memory may hold anything at the reboot: recovery returns, and every sector reads as it did when
  the flush was called.
\<close>

theorem flush_durable:
  assumes "disk_inv s vol st" "disk_flush s = Done t" "crashed (fl t) (fl u)" "la < N_LAS" "ftl_powered u"
  shows "\<exists>v w. disk_recovery u = Done v \<and> disk_read la v = Done w
    \<and> (\<forall>o'<N_ENTRIES_PER_SECTOR. host_data w o' = vol la o')"
proof -
  have "crash_inv t vol" using wp_Done [OF wp_disk_flush [OF assms(1)] assms(2)] by (auto intro: ftl_inv_crash_inv disk_invD)
  then have c: "crash_inv u vol" by (rule crash_inv_reboot) (simp add: assms(3))
  obtain v where v: "disk_recovery u = Done v" "disk_inv v vol vol" "ftl_powered v"
    using steady_wp [OF steady_disk(4) wp_disk_recovery [OF c] assms(5)] by blast
  then show ?thesis using steady_wp [OF steady_disk(1) wp_disk_read [OF v(2) assms(4)] v(3)] by blast
qed

theorem flush_durable_witness:
  "\<exists>t v w. disk_flush disk0 = Done t \<and> disk_recovery (ftl0\<lparr>fl := fl t\<rparr>) = Done v \<and> disk_read 3 v = Done w
    \<and> (\<forall>o'<N_ENTRIES_PER_SECTOR. host_data w o' = 0xffffffff)"
proof -
  obtain t where t: "disk_flush disk0 = Done t" "ftl_powered t"
    using steady_wp [OF steady_disk(3) wp_disk_flush [OF disk0(2)] disk0(4)] by blast
  show ?thesis
    using flush_durable [OF disk0(2) t(1), of "ftl0\<lparr>fl := fl t\<rparr>" 3] t by (auto simp: crashed_def macros blank_def)
qed

text \<open>
  C8: garbage collection is invisible. A step of it keeps the invariant, the contents and the snapshot,
  whatever it does, and a power loss during it leaves the snapshot.
\<close>

theorem gc_invisible:
  assumes "ftl_inv s vol st"
  shows "wp ftl_gc_copy (\<lambda>t. ftl_inv t vol st \<and> gc_step s t) (\<lambda>t. crash_inv t st) s
    \<and> wp ftl_gc_erase (\<lambda>t. ftl_inv t vol st) (\<lambda>t. crash_inv t st) s"
  by (intro conjI wp_ftl_gc_copy [OF assms] wp_mono [OF wp_ftl_gc_erase [OF assms]]) simp_all

theorem gc_invisible_witness:
  "wp ftl_gc_copy (\<lambda>t. ftl_inv t blank blank \<and> gc_step disk0 t) (\<lambda>t. crash_inv t blank) disk0
    \<and> wp ftl_gc_erase (\<lambda>t. ftl_inv t blank blank) (\<lambda>t. crash_inv t blank) disk0"
  by (rule gc_invisible [OF disk0_ftl_inv])

text \<open>
  C6: a flush returns: its loop over the garbage collector ends, however many sectors were written since
  the last flush, and the contents become the snapshot.
\<close>

theorem flush_returns:
  assumes "disk_inv s vol st" "ftl_powered s"
  shows "\<exists>t. disk_flush s = Done t \<and> disk_inv t vol vol \<and> wcnt t = 0"
  using steady_wp [OF steady_disk(3) wp_disk_flush [OF assms(1)] assms(2)] by blast

theorem flush_returns_witness: "\<exists>t. disk_flush disk0 = Done t \<and> disk_inv t blank blank \<and> wcnt t = 0"
  by (rule flush_returns [OF disk0(2,4)])

text \<open>
  C7: recovery from whatever a power loss left returns with the snapshot as the contents and \<open>failed\<close>
  not set; losing power during the recovery, any number of times, leaves the snapshot as it is.
\<close>

theorem recovery_restores:
  assumes "crash_inv s st"
  shows "wp disk_recovery (\<lambda>t. disk_inv t st st \<and> wcnt t = 0 \<and> failed t = 0) (\<lambda>t. crash_inv t st) s"
  by (rule wp_disk_recovery [OF assms])

theorem recovery_restores_witness:
  "wp disk_recovery (\<lambda>t. disk_inv t blank blank \<and> wcnt t = 0 \<and> failed t = 0) (\<lambda>t. crash_inv t blank) formatted0"
  by (rule recovery_restores [OF formatted0(2)])

text \<open>C9: formatting any flash gives a disk that can be recovered and whose sectors read as ones.\<close>

theorem format_blank:
  assumes "env_ok (fl s)"
  shows "wp ftl_format (\<lambda>t. crash_inv t (\<lambda>_ _. 0xffffffff)) (\<lambda>_. crash_sim (fl s)) s"
  by (rule wp_mono [OF wp_ftl_format [OF assms]]) (simp_all add: blank_def [abs_def])

theorem format_blank_witness: "wp ftl_format (\<lambda>t. crash_inv t (\<lambda>_ _. 0xffffffff)) (\<lambda>_. crash_sim (fl ftl0)) ftl0"
  by (rule format_blank) simp

text \<open>C14: an address out of range and a write beyond the limit of an epoch change nothing.\<close>

theorem rejected_unchanged:
  "(N_LAS \<le> la \<longrightarrow> ftl_read la s = Done s) \<and> (N_LAS \<le> la \<or> MAX_WCNT \<le> wcnt s \<longrightarrow> ftl_write la d s = Done s)"
  using ftl_read_out_of_range ftl_write_rejected by blast

theorem rejected_unchanged_witness:
  "ftl_read 1048575 ftl0 = Done ftl0 \<and> ftl_write 1048575 (\<lambda>_. 1) ftl0 = Done ftl0
    \<and> ftl_write 0 (\<lambda>_. 1) (ftl0\<lparr>wcnt := 2048\<rparr>) = Done (ftl0\<lparr>wcnt := 2048\<rparr>)"
  using rejected_unchanged [of 1048575 ftl0 "\<lambda>_. 1"] rejected_unchanged [of 0 "ftl0\<lparr>wcnt := 2048\<rparr>" "\<lambda>_. 1"]
  by (simp add: macros)

section \<open>Inside the translation layer\<close>






text \<open>C17: splitting a physical sector address into block, page and sector and joining them is the identity.\<close>

theorem psa_roundtrip:
  assumes "b < BLOCKS_TOTAL + 1" "p < PAGES_PER_BLOCK" "i < SECTORS_PER_PAGE"
  shows "get_active_psa (s\<lparr>pba_active := b, ipa_active := p, isa_active := i\<rparr>) = (b * PAGES_PER_BLOCK + p) * SECTORS_PER_PAGE + i
    \<and> PSA_TO_PBA ((b * PAGES_PER_BLOCK + p) * SECTORS_PER_PAGE + i) = b
    \<and> PSA_TO_IPA ((b * PAGES_PER_BLOCK + p) * SECTORS_PER_PAGE + i) = p
    \<and> PSA_TO_ISA ((b * PAGES_PER_BLOCK + p) * SECTORS_PER_PAGE + i) = i"
proof -
  have "(b * PAGES_PER_BLOCK + p) * SECTORS_PER_PAGE + i = mk_psa b p i" by (simp add: mk_psa_def)
  moreover have "mk_psa b p i < 2 ^ 32" using assms by (simp add: mk_psa_eq macros)
  ultimately show ?thesis using assms by (simp add: get_active_psa_def macros u32_def)
qed

theorem psa_roundtrip_witness:
  "get_active_psa (ftl0\<lparr>pba_active := 1603, ipa_active := 511, isa_active := 1\<rparr>) = 1642495
    \<and> PSA_TO_PBA 1642495 = 1603 \<and> PSA_TO_IPA 1642495 = 511 \<and> PSA_TO_ISA 1642495 = 1"
  using psa_roundtrip [of 1603 511 1 ftl0] by (simp add: macros)

section \<open>Rebuilding the tables\<close>

text \<open>
  C11: from a well-formed mapping table, recovery rebuilds the inverse table, the exact counters of valid
  sectors and a list of the blocks in which no block after the used ones holds a sector.
\<close>

theorem tables_rebuilt:
  assumes "table_ok (l2p s)"
  shows "wp (block [reconstruct_p2l, reconstruct_vcnts, reconstruct_block_list])
    (\<lambda>t. l2p t = l2p s \<and> map_ok (l2p t) (p2l t) \<and> vcnt_ok (l2p t) (vcnts t) \<and> rebuilt_list (l2p t) (blk_list t) (usable t))
    (\<lambda>_. False) s"
proof -
  have le: "l2p s la \<le> N_PAS" if "la < N_LAS" for la using assms that by (simp add: table_ok_def)
  show ?thesis
    unfolding wp_block
    by (rule wp_reconstruct_p2l [OF le], assumption, rule wp_reconstruct_vcnts, simp add: map_ok_remap_all [OF assms],
        rule wp_reconstruct_block_list)
       (simp_all add: assms map_ok_remap_all [OF assms])
qed

theorem tables_rebuilt_witness:
  "table_ok (\<lambda>la. N_PAS) \<and> wp (block [reconstruct_p2l, reconstruct_vcnts, reconstruct_block_list])
    (\<lambda>t. map_ok (l2p t) (p2l t) \<and> vcnt_ok (l2p t) (vcnts t)) (\<lambda>_. False) (ftl0\<lparr>l2p := \<lambda>la. N_PAS\<rparr>)"
proof -
  have "used_blocks (\<lambda>la. N_PAS) = {}" by (auto simp: used_blocks_def PSA_TO_PBA_eq macros)
  then have "table_ok (\<lambda>la. N_PAS)" by (simp add: table_ok_def macros)
  then show ?thesis using tables_rebuilt [of "ftl0\<lparr>l2p := \<lambda>la. N_PAS\<rparr>"] by (auto elim: wp_mono)
qed

text \<open>C13: the run-time check reports a failure exactly when two logical sectors share a physical one.\<close>

theorem injectivity_check_exact:
  assumes "\<forall>la<N_LAS. l2p s la \<le> N_PAS"
  shows "wp check_l2p_injective (\<lambda>t. failed t =
      (if \<exists>j<N_LAS. \<exists>i<j. l2p s i = l2p s j \<and> l2p s j \<noteq> N_PAS then 1 else 0)) (\<lambda>_. False) s"
  by (rule wp_check_l2p_injective) (use assms in \<open>auto simp: shares_def\<close>)

theorem injectivity_check_exact_witness:
  "wp check_l2p_injective (\<lambda>t. failed t = 1) (\<lambda>_. False) ftl0
    \<and> wp check_l2p_injective (\<lambda>t. failed t = 0) (\<lambda>_. False) (ftl0\<lparr>l2p := \<lambda>la. la\<rparr>)"
proof
  have "\<exists>j<N_LAS. \<exists>i<j. l2p ftl0 i = l2p ftl0 j \<and> l2p ftl0 j \<noteq> N_PAS"
    by (rule exI [of _ 1]) (simp add: ftl0_def macros)
  then show "wp check_l2p_injective (\<lambda>t. failed t = 1) (\<lambda>_. False) ftl0"
    using injectivity_check_exact [of ftl0] by (simp add: ftl0_def)
  show "wp check_l2p_injective (\<lambda>t. failed t = 0) (\<lambda>_. False) (ftl0\<lparr>l2p := \<lambda>la. la\<rparr>)"
    using injectivity_check_exact [of "ftl0\<lparr>l2p := \<lambda>la. la\<rparr>"] by (simp add: macros)
qed

section \<open>The flash emulator\<close>

text \<open>
  C15: a page programmed and then synchronised survives the simulated power loss, whatever \<open>malloc\<close>
  and \<open>rand\<close> return; a page erased and synchronised stays erased.
\<close>

theorem synced_survives:
  assumes "b < NUM_PHYSICAL_BLOCKS" "p < PAGES_PER_BLOCK" "powered f"
  shows "\<exists>g. block [flash_program b p d 0, flash_sync] f = Done g \<and> flash (flash_crash g) b p = Some d
    \<and> (\<exists>h. block [flash_erase b 0, flash_sync] g = Done h \<and> flash (flash_crash h) b p = None)"
proof -
  let ?g = "sync_all (prog_page b p d False f)" and ?h = "sync_all (erase_blocks b (b + 1) False (sync_all (prog_page b p d False f)))"
  have "block [flash_program b p d 0, flash_sync] f = Done ?g" "block [flash_erase b 0, flash_sync] ?g = Done ?h"
    using assms by (simp_all add: block.simps seq_def skip_def flash_program_def flash_erase_def only_if_def cond_def put_page_def
        erase_block_def flash_sync_def crash_check_def powered_def assign_def prog_page_def erase_blocks_def sync_all_def u8_def Ball_def)
  then show ?thesis
    using assms(1,2) by (simp add: flash_crash_def for_pages_apply cells)
qed

theorem synced_survives_witness:
  "\<exists>g. block [flash_program 5 6 (\<lambda>_. 7) 0, flash_sync] flash0 = Done g \<and> flash (flash_crash g) 5 6 = Some (\<lambda>_. 7)"
  using synced_survives [of 5 6 flash0 "\<lambda>_. 7"] by (auto simp: macros powered_def flash0_def)

text \<open>C16: the image that \<open>flash_fini\<close> writes is read back by \<open>flash_init\<close> page by page.\<close>

theorem image_roundtrip:
  "\<exists>h. flash_init (flash_fini True f) g = Done h
    \<and> (\<forall>b<NUM_PHYSICAL_BLOCKS. \<forall>p<PAGES_PER_BLOCK. flash h b p = flash f b p \<and> synced h b p)"
  by (rule flash_image [of f g]) blast

theorem image_roundtrip_witness:
  "\<exists>h. flash_init (flash_fini True flash0) flash0 = Done h \<and> flash h 0 0 = None \<and> synced h 0 0"
  using image_roundtrip [of flash0 flash0] by (force simp: macros flash0_def)

end
