(* ===== verification/XvMonad.thy ===== *)
theory XvMonad
  imports Prelude
begin

text \<open>
  The monad of the file system model. A C function of \<^verbatim>\<open>xv6/\<close> is a program: from the state it
  returns a value and a new state, or it loses power, or it faults. Programs are put together with
  \<open>call\<close>, \<open>steps\<close> and the loops below; \<open>wpm\<close> is their weakest precondition, total
  as \<open>wp\<close> of the statements, and \<open>wpm_simps\<close> its rules.
\<close>

section \<open>Programs\<close>

datatype ('s, 'a) res = Ret 'a 's | Cut 's | Err fault

type_synonym ('s, 'a) prog = "'s \<Rightarrow> ('s, 'a) res"

definition ret :: "'a \<Rightarrow> ('s, 'a) prog" where
  "ret x s = Ret x s"

definition call :: "('s, 'a) prog \<Rightarrow> ('a \<Rightarrow> ('s, 'b) prog) \<Rightarrow> ('s, 'b) prog" where
  "call m f s = (case m s of Ret x t \<Rightarrow> f x t | Cut t \<Rightarrow> Cut t | Err e \<Rightarrow> Err e)"

definition gets :: "('s \<Rightarrow> 'a) \<Rightarrow> ('s, 'a) prog" where
  "gets f s = Ret (f s) s"

definition modify :: "('s \<Rightarrow> 's) \<Rightarrow> ('s, unit) prog" where
  "modify f s = Ret () (f s)"

definition fault :: "fault \<Rightarrow> ('s, 'a) prog" where
  "fault e s = Err e"

definition panicp :: "string \<Rightarrow> ('s, 'a) prog" where
  "panicp m = fault (Panic m)"

text \<open>An array access is checked against the declared size.\<close>

definition check :: "bool \<Rightarrow> ('s, unit) prog" where
  "check b = (if b then ret () else fault OutOfBounds)"

definition cassert :: "bool \<Rightarrow> ('s, unit) prog" where
  "cassert b = (if b then ret () else fault AssertFailed)"

primrec after :: "('s, unit) prog list \<Rightarrow> ('s, 'a) prog \<Rightarrow> ('s, 'a) prog" where
  "after [] m = m"
| "after (c # cs) m = call c (\<lambda>_. after cs m)"

definition steps :: "('s, unit) prog list \<Rightarrow> ('s, unit) prog" where
  "steps cs = after cs (ret ())"

definition provided :: "bool \<Rightarrow> ('s, unit) prog \<Rightarrow> ('s, unit) prog" where
  "provided b c = (if b then c else ret ())"

text \<open>
  A \<^verbatim>\<open>for\<close> loop over the given values; the body returns \<open>Some r\<close> to leave it with
  \<open>r\<close>.
\<close>

primrec for_each :: "'v list \<Rightarrow> ('v \<Rightarrow> ('s, 'r option) prog) \<Rightarrow> ('s, 'r option) prog" where
  "for_each [] f = ret None"
| "for_each (x # xs) f = call (f x) (\<lambda>r. case r of None \<Rightarrow> for_each xs f | Some y \<Rightarrow> ret (Some y))"

primrec for_all :: "'v list \<Rightarrow> ('v \<Rightarrow> ('s, unit) prog) \<Rightarrow> ('s, unit) prog" where
  "for_all [] f = ret ()"
| "for_all (x # xs) f = call (f x) (\<lambda>_. for_all xs f)"

text \<open>
  A loop over a value: the body returns \<open>Inl v\<close> to go on with \<open>v\<close> and \<open>Inr r\<close> to
  leave the loop with \<open>r\<close>. A loop that never ends is the fault \<open>Diverges\<close>.
\<close>

definition loop :: "('v \<Rightarrow> ('s, 'v + 'r) prog) \<Rightarrow> 'v \<Rightarrow> ('s, 'r) prog" where
  "loop f v s =
     (case while_option (\<lambda>x. case x of Ret (Inl v) t \<Rightarrow> True | _ \<Rightarrow> False)
                        (\<lambda>x. case x of Ret (Inl v) t \<Rightarrow> f v t | _ \<Rightarrow> x) (Ret (Inl v) s) of
        Some (Ret (Inr r) t) \<Rightarrow> Ret r t
      | Some (Cut t) \<Rightarrow> Cut t
      | Some (Err e) \<Rightarrow> Err e
      | _ \<Rightarrow> Err Diverges)"

lemma loop_unfold:
  "loop f v s = call (f v) (\<lambda>x. case x of Inl w \<Rightarrow> loop f w | Inr r \<Rightarrow> ret r) s"
proof -
  let ?B = "\<lambda>x :: ('s, 'v + 'r) res. case x of Ret (Inl v) t \<Rightarrow> True | _ \<Rightarrow> False"
  let ?C = "\<lambda>x. case x of Ret (Inl v) t \<Rightarrow> f v t | _ \<Rightarrow> x"
  have step: "while_option ?B ?C (Ret (Inl v) s) = while_option ?B ?C (f v s)"
    by (subst while_option_unfold) simp
  have stop: "while_option ?B ?C x = Some x" if "\<not> ?B x" for x
    using that by (subst while_option_unfold) simp
  show ?thesis
  proof (cases "f v s")
    case (Ret x t)
    then show ?thesis
      using step stop [of "Ret x t"] by (cases x) (simp_all add: loop_def call_def ret_def)
  qed (use step stop in \<open>simp_all add: loop_def call_def\<close>)
qed

section \<open>Weakest preconditions\<close>

definition wpm :: "('s, 'a) prog \<Rightarrow> ('a \<Rightarrow> 's \<Rightarrow> bool) \<Rightarrow> ('s \<Rightarrow> bool) \<Rightarrow> 's \<Rightarrow> bool" where
  "wpm m Q C s = (case m s of Ret x t \<Rightarrow> Q x t | Cut t \<Rightarrow> C t | Err e \<Rightarrow> False)"

named_theorems wpm_simps "rules that compute the weakest precondition of a program"

lemma wpm_ret [wpm_simps]: "wpm (ret x) Q C = Q x"
  by (simp add: wpm_def ret_def fun_eq_iff)

lemma wpm_gets [wpm_simps]: "wpm (gets f) Q C s = Q (f s) s"
  by (simp add: wpm_def gets_def)

lemma wpm_modify [wpm_simps]: "wpm (modify f) Q C s = Q () (f s)"
  by (simp add: wpm_def modify_def)

lemma wpm_check [wpm_simps]:
  "wpm (check b) Q C s \<longleftrightarrow> b \<and> Q () s" "wpm (cassert b) Q C s \<longleftrightarrow> b \<and> Q () s"
  by (simp_all add: wpm_def check_def cassert_def ret_def fault_def)

lemma wpm_fault [wpm_simps]: "wpm (fault e) Q C s = False" "wpm (panicp m) Q C s = False"
  by (simp_all add: wpm_def fault_def panicp_def)

lemma wpm_call [wpm_simps]: "wpm (call m f) Q C s = wpm m (\<lambda>x. wpm (f x) Q C) C s"
  by (simp add: wpm_def call_def split: res.split)

lemma wpm_after [wpm_simps]:
  "wpm (after [] m) Q C = wpm m Q C"
  "wpm (after (c # cs) m) Q C s = wpm c (\<lambda>_. wpm (after cs m) Q C) C s"
  by (simp_all add: wpm_call)

lemma call_ret [simp]: "call m ret = m"
  by (rule ext) (simp add: call_def ret_def split: res.split)

lemma wpm_steps [wpm_simps]: "wpm (steps cs) Q C = wpm (after cs (ret ())) Q C"
  by (simp add: steps_def)

lemma wpm_provided [wpm_simps]: "wpm (provided b c) Q C s = (if b then wpm c Q C s else Q () s)"
  by (simp add: provided_def wpm_simps)

lemma wpm_if [wpm_simps]: "wpm (if b then m else n) Q C s = (if b then wpm m Q C s else wpm n Q C s)"
  by simp

lemma wpm_option [wpm_simps]:
  "wpm (case r of None \<Rightarrow> m | Some x \<Rightarrow> f x) Q C s = (case r of None \<Rightarrow> wpm m Q C s | Some x \<Rightarrow> wpm (f x) Q C s)"
  by (simp split: option.split)

text \<open>With this congruence rule a program is executed from its first step on, and what follows a step is left alone until then.\<close>

lemma wpm_cong: "m = m' \<Longrightarrow> s = s' \<Longrightarrow> wpm m Q C s = wpm m' Q C s'"
  by simp

lemma wpm_mono:
  assumes "wpm m Q C s" and "\<And>x t. Q x t \<Longrightarrow> Q' x t" and "\<And>t. C t \<Longrightarrow> C' t"
  shows "wpm m Q' C' s"
  using assms by (auto simp: wpm_def split: res.splits)

lemma wpm_conj:
  assumes "wpm m Q C s" and "wpm m Q' C' s"
  shows "wpm m (\<lambda>x t. Q x t \<and> Q' x t) (\<lambda>t. C t \<and> C' t) s"
  using assms by (auto simp: wpm_def split: res.splits)

lemma wpm_cases:
  assumes "wpm m Q C s"
  obtains (Ret) x t where "m s = Ret x t" "Q x t" | (Cut) t where "m s = Cut t" "C t"
  using assms by (auto simp: wpm_def split: res.splits)

lemma wpm_Ret: "wpm m Q C s \<Longrightarrow> m s = Ret x t \<Longrightarrow> Q x t"
  by (simp add: wpm_def)

lemma wpm_Cut: "wpm m Q C s \<Longrightarrow> m s = Cut t \<Longrightarrow> C t"
  by (simp add: wpm_def)

text \<open>A loop over a list, with an invariant over what is left of it.\<close>

lemma wpm_for_each:
  assumes "I xs s"
    and "\<And>y ys t. I (y # ys) t \<Longrightarrow> wpm (f y) (\<lambda>r u. case r of None \<Rightarrow> I ys u | Some z \<Rightarrow> Q (Some z) u) C t"
    and "\<And>t. I [] t \<Longrightarrow> Q None t"
  shows "wpm (for_each xs f) Q C s"
  using assms(1)
proof (induction xs arbitrary: s)
  case Nil
  then show ?case using assms(3) by (simp add: wpm_simps)
next
  case (Cons x xs)
  show ?case
    by (simp add: wpm_simps, rule wpm_mono [OF assms(2) [OF Cons.prems]])
       (auto simp: wpm_simps split: option.splits intro: Cons.IH)
qed

lemma wpm_for_all:
  assumes "I xs s"
    and "\<And>y ys t. I (y # ys) t \<Longrightarrow> wpm (f y) (\<lambda>_. I ys) C t"
    and "\<And>t. I [] t \<Longrightarrow> Q () t"
  shows "wpm (for_all xs f) Q C s"
  using assms(1)
proof (induction xs arbitrary: s)
  case Nil
  then show ?case using assms(3) by (simp add: wpm_simps)
next
  case (Cons x xs)
  show ?case
    by (simp add: wpm_simps, rule wpm_mono [OF assms(2) [OF Cons.prems]]) (auto intro: Cons.IH)
qed

text \<open>A loop with a variant.\<close>

lemma wpm_loop_unfold:
  "wpm (loop f v) Q C s = wpm (f v) (\<lambda>x. case x of Inl w \<Rightarrow> wpm (loop f w) Q C | Inr r \<Rightarrow> Q r) C s"
proof -
  have "wpm (loop f v) Q C s = wpm (call (f v) (\<lambda>x. case x of Inl w \<Rightarrow> loop f w | Inr r \<Rightarrow> ret r)) Q C s"
    by (simp add: wpm_def loop_unfold [of f v s])
  then show ?thesis
    by (simp add: wpm_call) (auto intro!: arg_cong [of _ _ "\<lambda>Q. wpm (f v) Q C s"] simp: fun_eq_iff wpm_simps split: sum.splits)
qed

lemma wpm_loop:
  fixes m :: "'v \<Rightarrow> 's \<Rightarrow> nat"
  assumes "I v s"
    and step: "\<And>v t. I v t \<Longrightarrow> wpm (f v) (\<lambda>x u. case x of Inl w \<Rightarrow> I w u \<and> m w u < m v t | Inr r \<Rightarrow> Q r u) C t"
  shows "wpm (loop f v) Q C s"
  using \<open>I v s\<close>
proof (induction "m v s" arbitrary: v s rule: less_induct)
  case less
  have "wpm (f v) (\<lambda>x. case x of Inl w \<Rightarrow> wpm (loop f w) Q C | Inr r \<Rightarrow> Q r) C s"
    by (rule wpm_mono [OF step [OF less.prems]]) (auto split: sum.splits intro: less.hyps)
  then show ?case by (simp add: wpm_loop_unfold [of f v])
qed

section \<open>Bytes and words\<close>

text \<open>A disk block has 4096 bytes; beyond them an array of the model holds zeros.\<close>

definition BSIZE :: nat where
  "BSIZE = 4096"

type_synonym bytes = "nat \<Rightarrow> nat"

definition is_blk :: "bytes \<Rightarrow> bool" where
  "is_blk d \<longleftrightarrow> (\<forall>i. d i < 256) \<and> (\<forall>i\<ge>BSIZE. d i = 0)"

text \<open>A block as the words that the disk layer sees through \<^verbatim>\<open>(uint32_t *)buf\<close>, in little-endian order.\<close>

definition words_of :: "bytes \<Rightarrow> nat \<Rightarrow> nat" where
  "words_of d o' = d (4 * o') + 256 * d (4 * o' + 1) + 65536 * d (4 * o' + 2) + 16777216 * d (4 * o' + 3)"

definition bytes_of :: "(nat \<Rightarrow> nat) \<Rightarrow> bytes" where
  "bytes_of w i = (if i < BSIZE then w (i div 4) div 256 ^ (i mod 4) mod 256 else 0)"

lemma is_blk_bytes_of [simp]: "is_blk (bytes_of w)"
  by (simp add: is_blk_def bytes_of_def)

lemma is_blkD: "is_blk d \<Longrightarrow> d i < 256"
  by (simp add: is_blk_def)

lemma word_bytes:
  assumes "a < (256 :: nat)" "b < 256" "c < 256" "d < 256"
  shows "(a + 256 * b + 65536 * c + 16777216 * d) mod 256 = a"
    "(a + 256 * b + 65536 * c + 16777216 * d) div 256 mod 256 = b"
    "(a + 256 * b + 65536 * c + 16777216 * d) div 65536 mod 256 = c"
    "(a + 256 * b + 65536 * c + 16777216 * d) div 16777216 mod 256 = d"
proof -
  let ?n = "a + 256 * b + 65536 * c + 16777216 * d"
  have eq: "?n = a + 256 * (b + 256 * (c + 256 * d))" by simp
  have 1: "?n div 256 = b + 256 * (c + 256 * d)" unfolding eq using assms(1) by simp
  have 2: "?n div 65536 = c + 256 * d"
    using assms(2) 1 by (simp add: div_mult2_eq [of ?n 256 256, simplified])
  have 3: "?n div 16777216 = d"
    using assms(3) 2 by (simp add: div_mult2_eq [of ?n 65536 256, simplified])
  show "?n mod 256 = a" using assms(1) by (subst eq, subst mod_mult_self2) simp
  show "?n div 256 mod 256 = b" using assms(2) by (subst 1, subst mod_mult_self2) simp
  show "?n div 65536 mod 256 = c" using assms(3) by (subst 2, subst mod_mult_self2) simp
  show "?n div 16777216 mod 256 = d" using assms(4) by (subst 3) simp
qed

lemma bytes_of_words_of:
  assumes "is_blk d"
  shows "bytes_of (words_of d) = d"
proof
  fix i :: nat
  define k where "k = i div 4"
  have b: "d j < 256" for j using assms by (rule is_blkD)
  have W: "words_of d k div 256 ^ 0 mod 256 = d (4 * k)" "words_of d k div 256 ^ 1 mod 256 = d (4 * k + 1)"
    "words_of d k div 256 ^ 2 mod 256 = d (4 * k + 2)" "words_of d k div 256 ^ 3 mod 256 = d (4 * k + 3)"
    using word_bytes [OF b b b b, of "4 * k" "4 * k + 1" "4 * k + 2" "4 * k + 3"] by (simp_all add: words_of_def)
  have "i mod 4 = 0 \<or> i mod 4 = 1 \<or> i mod 4 = 2 \<or> i mod 4 = 3" by linarith
  moreover have "i = 4 * k + i mod 4" by (simp add: k_def)
  ultimately have "words_of d k div 256 ^ (i mod 4) mod 256 = d i" using W by (metis add.right_neutral)
  then show "bytes_of (words_of d) i = d i"
    using assms by (simp add: bytes_of_def is_blk_def k_def)
qed

lemma bytes_of_cong: "(\<And>o'. o' < 1024 \<Longrightarrow> v o' = w o') \<Longrightarrow> bytes_of v = bytes_of w"
  by (auto simp: bytes_of_def BSIZE_def fun_eq_iff)

end
