(* ===== verification/XvState.thy ===== *)
theory XvState
  imports XvMonad SnapshotDisk
begin

text \<open>
  The state of the xv6 file system (\<^verbatim>\<open>xv6/\<close>) as it is built for FUSE: one thread, on top of the
  disk layer. The disk is a parameter: the file system is linked with one of several implementations of
  the interface \<^verbatim>\<open>disk.h\<close>, and with one of four logs.
\<close>

section \<open>Parameters\<close>

definition NFILE :: nat where "NFILE = 100"
definition NINODE :: nat where "NINODE = 50"
definition NDEV :: nat where "NDEV = 10"
definition ROOTDEV :: nat where "ROOTDEV = 1"
definition MAXOPBLOCKS :: nat where "MAXOPBLOCKS = 10"
definition LOGSIZE :: nat where "LOGSIZE = MAXOPBLOCKS * 3"
definition NBUF :: nat where "NBUF = 8192"

lemma param_vals [macros]:
  "NFILE = 100" "NINODE = 50" "NDEV = 10" "ROOTDEV = 1" "MAXOPBLOCKS = 10" "LOGSIZE = 30" "NBUF = 8192" "BSIZE = 4096"
  by (simp_all add: NFILE_def NINODE_def NDEV_def ROOTDEV_def MAXOPBLOCKS_def LOGSIZE_def NBUF_def BSIZE_def)

section \<open>Data\<close>

text \<open>
  \<^verbatim>\<open>struct buf\<close>: the bits of the word \<open>flags\<close> are three fields, and the links are the indices of
  buffers in \<open>bcache.buf\<close>.
\<close>

record buf =
  b_busy :: bool
  b_valid :: bool
  b_dirty :: bool
  b_dev :: nat
  b_sector :: nat
  b_prev :: nat
  b_next :: nat
  b_data :: bytes

text \<open>\<^verbatim>\<open>struct inode\<close>: the bits of \<open>flags\<close> are two fields; a \<^verbatim>\<open>short\<close> is an integer.\<close>

record inode =
  i_dev :: nat
  i_inum :: nat
  i_ref :: int
  i_busy :: bool
  i_valid :: bool
  i_type :: int
  i_major :: int
  i_minor :: int
  i_nlink :: int
  i_size :: nat
  i_ctime :: nat
  i_atime :: nat
  i_mtime :: nat
  i_addrs :: "nat \<Rightarrow> nat"

datatype fd_type = FD_NONE | FD_PIPE | FD_INODE

record file_t =
  f_type :: fd_type
  f_ref :: int
  f_readable :: bool
  f_writable :: bool
  f_ip :: nat
  f_off :: nat

record stats =
  nread :: nat
  nwrite :: nat
  nflush :: nat
  ngetattr :: nat
  nopen :: nat
  nrelease :: nat
  nreaddir :: nat
  nfuse_read :: nat
  nfuse_write :: nat
  ncreate :: nat
  ntrunc :: nat
  nmkdir :: nat
  nrmdir :: nat
  nunlink :: nat
  nfuse_fsync :: nat
  nfuse_fsyncdir :: nat

text \<open>
  The global variables. Index \<open>NBUF\<close> of \<open>bufs\<close> is the list head \<open>bcache.head\<close>;
  \<open>lh_n\<close> and \<open>lh_sector\<close> are the header \<open>thelog.lh\<close>; \<open>cwd\<close> is
  \<open>curproc->cwd\<close>, none when \<open>curproc\<close> is the null pointer; the fields \<open>mk_\<close> are the variables
  \<open>freeinode\<close>, \<open>freeblock\<close> and \<open>wwcnt\<close> of \<^verbatim>\<open>xv6/mkfs.c\<close>; \<open>times\<close> are the values
  \<open>time(0)\<close> returns.
\<close>

record 'd xv6 =
  bufs :: "nat \<Rightarrow> buf"
  log_start :: nat
  log_size :: nat
  outstanding :: int
  committing :: bool
  log_dev :: nat
  lh_n :: int
  lh_sector :: "nat \<Rightarrow> nat"
  acc_commit :: nat
  icache :: "nat \<Rightarrow> inode"
  ftable :: "nat \<Rightarrow> file_t"
  cwd :: "nat option"
  fsstats :: stats
  statsbuf :: string
  mk_freeinode :: nat
  mk_freeblock :: nat
  mk_wwcnt :: nat
  times :: "nat \<Rightarrow> nat"
  ntime :: nat
  dsk :: 'd

text \<open>What the file system is linked with: the disk and the log.\<close>

record 'd env =
  e_disk :: "'d disk_ops"
  e_begin_op :: "('d xv6, unit) prog"
  e_end_op :: "('d xv6, unit) prog"
  e_log_write :: "nat \<Rightarrow> ('d xv6, unit) prog"

section \<open>Access\<close>

definition buf_get :: "nat \<Rightarrow> (buf \<Rightarrow> 'a) \<Rightarrow> ('d xv6, 'a) prog" where
  "buf_get b f = gets (\<lambda>s. f (bufs s b))"

definition buf_set :: "nat \<Rightarrow> (buf \<Rightarrow> buf) \<Rightarrow> ('d xv6, unit) prog" where
  "buf_set b f = modify (\<lambda>s. s\<lparr>bufs := (bufs s)(b := f (bufs s b))\<rparr>)"

lemma wpm_buf [wpm_simps]:
  "wpm (buf_set b g) Q C s = Q () (s\<lparr>bufs := (bufs s)(b := g (bufs s b))\<rparr>)"
  "wpm (buf_get b f) R C s = R (f (bufs s b)) s"
  by (simp_all add: buf_get_def buf_set_def wpm_simps)

definition inode_get :: "nat \<Rightarrow> (inode \<Rightarrow> 'a) \<Rightarrow> ('d xv6, 'a) prog" where
  "inode_get ip f = gets (\<lambda>s. f (icache s ip))"

definition inode_set :: "nat \<Rightarrow> (inode \<Rightarrow> inode) \<Rightarrow> ('d xv6, unit) prog" where
  "inode_set ip f = modify (\<lambda>s. s\<lparr>icache := (icache s)(ip := f (icache s ip))\<rparr>)"

lemma wpm_inode [wpm_simps]:
  "wpm (inode_set ip g) Q C s = Q () (s\<lparr>icache := (icache s)(ip := g (icache s ip))\<rparr>)"
  "wpm (inode_get ip f) R C s = R (f (icache s ip)) s"
  by (simp_all add: inode_get_def inode_set_def wpm_simps)

definition file_get :: "nat \<Rightarrow> (file_t \<Rightarrow> 'a) \<Rightarrow> ('d xv6, 'a) prog" where
  "file_get fp f = gets (\<lambda>s. f (ftable s fp))"

definition file_set :: "nat \<Rightarrow> (file_t \<Rightarrow> file_t) \<Rightarrow> ('d xv6, unit) prog" where
  "file_set fp f = modify (\<lambda>s. s\<lparr>ftable := (ftable s)(fp := f (ftable s fp))\<rparr>)"

lemma wpm_file [wpm_simps]:
  "wpm (file_set fp g) Q C s = Q () (s\<lparr>ftable := (ftable s)(fp := g (ftable s fp))\<rparr>)"
  "wpm (file_get fp f) R C s = R (f (ftable s fp)) s"
  by (simp_all add: file_get_def file_set_def wpm_simps)

definition stat_inc :: "((nat \<Rightarrow> nat) \<Rightarrow> stats \<Rightarrow> stats) \<Rightarrow> ('d xv6, unit) prog" where
  "stat_inc upd = modify (\<lambda>s. s\<lparr>fsstats := upd (\<lambda>n. u64 (n + 1)) (fsstats s)\<rparr>)"

lemma wpm_stat_inc [wpm_simps]:
  "wpm (stat_inc upd) Q C s = Q () (s\<lparr>fsstats := upd (\<lambda>n. u64 (n + 1)) (fsstats s)\<rparr>)"
  by (simp add: stat_inc_def wpm_simps)

section \<open>The calls of the disk layer\<close>

definition on_disk :: "'d stmt \<Rightarrow> ('d xv6, unit) prog" where
  "on_disk c s = (case c (dsk s) of
     Done d \<Rightarrow> Ret () (s\<lparr>dsk := d\<rparr>) | Crash d \<Rightarrow> Cut (s\<lparr>dsk := d\<rparr>) | Fault e \<Rightarrow> Err e)"

lemma wpm_on_disk: "wpm (on_disk c) Q C s = wp c (\<lambda>d. Q () (s\<lparr>dsk := d\<rparr>)) (\<lambda>d. C (s\<lparr>dsk := d\<rparr>)) (dsk s)"
  by (simp add: wpm_def wp_def on_disk_def split: outcome.split)

text \<open>The data that \<open>unix_read\<close> leaves in the buffer it is given is what it returns here.\<close>

definition unix_read :: "'d disk_ops \<Rightarrow> nat \<Rightarrow> ('d xv6, bytes) prog" where
  "unix_read D sector = after [
     on_disk (op_read D sector),
     stat_inc nread_update] (gets (\<lambda>s. bytes_of (op_data D (dsk s))))"

definition unix_write :: "'d disk_ops \<Rightarrow> nat \<Rightarrow> bytes \<Rightarrow> ('d xv6, unit) prog" where
  "unix_write D sector d = steps [
     on_disk (op_write D sector (words_of d)),
     stat_inc nwrite_update]"

definition unix_flush :: "'d disk_ops \<Rightarrow> ('d xv6, unit) prog" where
  "unix_flush D = steps [
     on_disk (op_flush D),
     stat_inc nflush_update]"

definition unix_time :: "('d xv6, nat) prog" where
  "unix_time = call (gets (\<lambda>s. u32 (times s (ntime s)))) (\<lambda>t. after [
     modify (\<lambda>s. s\<lparr>ntime := Suc (ntime s)\<rparr>)] (ret t))"

section \<open>ide.c\<close>

definition iderw :: "'d disk_ops \<Rightarrow> nat \<Rightarrow> ('d xv6, unit) prog" where
  "iderw D b = call (buf_get b id) (\<lambda>bf.
     if \<not> b_busy bf then panicp ''iderw: buf not busy''
     else if b_valid bf \<and> \<not> b_dirty bf then panicp ''iderw: nothing to do''
     else if b_dirty bf then steps [
       unix_write D (b_sector bf) (b_data bf),
       buf_set b (\<lambda>bf. bf\<lparr>b_dirty := False\<rparr>)]
     else call (unix_read D (b_sector bf)) (\<lambda>d. steps [
       buf_set b (\<lambda>bf. bf\<lparr>b_data := d\<rparr>),
       buf_set b (\<lambda>bf. bf\<lparr>b_valid := True\<rparr>)]))"

definition ideflush :: "'d disk_ops \<Rightarrow> ('d xv6, unit) prog" where
  "ideflush D = unix_flush D"

section \<open>bio.c\<close>

definition binit :: "('d xv6, unit) prog" where
  "binit = steps [
     buf_set NBUF (\<lambda>h. h\<lparr>b_prev := NBUF\<rparr>),
     buf_set NBUF (\<lambda>h. h\<lparr>b_next := NBUF\<rparr>),
     for_all [0..<NBUF] (\<lambda>b. call (buf_get NBUF b_next) (\<lambda>n. steps [
       buf_set b (\<lambda>bf. bf\<lparr>b_next := n\<rparr>),
       buf_set b (\<lambda>bf. bf\<lparr>b_prev := NBUF\<rparr>),
       buf_set b (\<lambda>bf. bf\<lparr>b_dev := 0xffffffff\<rparr>),
       call (buf_get NBUF b_next) (\<lambda>n. buf_set n (\<lambda>bf. bf\<lparr>b_prev := b\<rparr>)),
       buf_set NBUF (\<lambda>h. h\<lparr>b_next := b\<rparr>)]))]"

text \<open>The first loop of \<open>bget\<close>: is the sector already cached?\<close>

definition bget_cached :: "nat \<Rightarrow> nat \<Rightarrow> ('d xv6, nat option) prog" where
  "bget_cached dev sector = call (buf_get NBUF b_next) (loop (\<lambda>b.
     if b = NBUF then ret (Inr None)
     else call (buf_get b id) (\<lambda>bf.
       if b_dev bf = dev \<and> b_sector bf = sector then ret (Inr (Some b))
       else ret (Inl (b_next bf)))))"

text \<open>The second loop: the least recently used buffer that is neither busy nor dirty.\<close>

definition bget_recycle :: "('d xv6, nat option) prog" where
  "bget_recycle = call (buf_get NBUF b_prev) (loop (\<lambda>b.
     if b = NBUF then ret (Inr None)
     else call (buf_get b id) (\<lambda>bf.
       if \<not> b_busy bf \<and> \<not> b_dirty bf then ret (Inr (Some b))
       else ret (Inl (b_prev bf)))))"

text \<open>\<open>sleep\<close> returns at once, so that \<^verbatim>\<open>goto loop\<close> is taken with nothing changed.\<close>

definition bget :: "nat \<Rightarrow> nat \<Rightarrow> ('d xv6, nat) prog" where
  "bget dev sector = loop (\<lambda>_ :: unit. call (bget_cached dev sector) (\<lambda>r. case r of
       Some b \<Rightarrow> call (buf_get b b_busy) (\<lambda>busy.
         if \<not> busy then after [buf_set b (\<lambda>bf. bf\<lparr>b_busy := True\<rparr>)] (ret (Inr b))
         else ret (Inl ()))
     | None \<Rightarrow> call bget_recycle (\<lambda>r. case r of
         Some b \<Rightarrow> after [
           buf_set b (\<lambda>bf. bf\<lparr>b_dev := dev\<rparr>),
           buf_set b (\<lambda>bf. bf\<lparr>b_sector := sector\<rparr>),
           buf_set b (\<lambda>bf. bf\<lparr>b_busy := True, b_valid := False, b_dirty := False\<rparr>)] (ret (Inr b))
       | None \<Rightarrow> panicp ''bget: no buffers''))) ()"

definition bread :: "'d disk_ops \<Rightarrow> nat \<Rightarrow> nat \<Rightarrow> ('d xv6, nat) prog" where
  "bread D dev sector = call (bget dev sector) (\<lambda>b. call (buf_get b b_valid) (\<lambda>valid.
     after [provided (\<not> valid) (iderw D b)] (ret b)))"

definition bwrite :: "'d disk_ops \<Rightarrow> nat \<Rightarrow> ('d xv6, unit) prog" where
  "bwrite D b = call (buf_get b b_busy) (\<lambda>busy.
     if \<not> busy then panicp ''bwrite''
     else steps [
       buf_set b (\<lambda>bf. bf\<lparr>b_dirty := True\<rparr>),
       iderw D b])"

definition brelse :: "nat \<Rightarrow> ('d xv6, unit) prog" where
  "brelse b = call (buf_get b b_busy) (\<lambda>busy.
     if \<not> busy then panicp ''brelse''
     else steps [
       call (buf_get b id) (\<lambda>bf. buf_set (b_next bf) (\<lambda>x. x\<lparr>b_prev := b_prev bf\<rparr>)),
       call (buf_get b id) (\<lambda>bf. buf_set (b_prev bf) (\<lambda>x. x\<lparr>b_next := b_next bf\<rparr>)),
       call (buf_get NBUF b_next) (\<lambda>n. buf_set b (\<lambda>bf. bf\<lparr>b_next := n\<rparr>)),
       buf_set b (\<lambda>bf. bf\<lparr>b_prev := NBUF\<rparr>),
       call (buf_get NBUF b_next) (\<lambda>n. buf_set n (\<lambda>x. x\<lparr>b_prev := b\<rparr>)),
       buf_set NBUF (\<lambda>h. h\<lparr>b_next := b\<rparr>),
       buf_set b (\<lambda>bf. bf\<lparr>b_busy := False\<rparr>)])"

end
