(* ===== verification/BufList.thy ===== *)
theory BufList
  imports XvState
begin

text \<open>
  The doubly linked list of the buffer cache. \<open>chain\<close> is a segment of it as a list of buffers,
  \<open>dll\<close> the whole ring through the head; the loops of \<open>bget\<close> are searches of that list, and
  \<open>brelse\<close> moves a buffer to its front.
\<close>

section \<open>Chains\<close>

primrec chain :: "('a \<Rightarrow> 'a) \<Rightarrow> ('a \<Rightarrow> 'a) \<Rightarrow> 'a \<Rightarrow> 'a list \<Rightarrow> 'a \<Rightarrow> bool" where
  "chain nx pv a [] z \<longleftrightarrow> nx a = z \<and> pv z = a"
| "chain nx pv a (x # xs) z \<longleftrightarrow> nx a = x \<and> pv x = a \<and> chain nx pv x xs z"

lemma chain_append: "chain nx pv a (xs @ y # ys) z \<longleftrightarrow> chain nx pv a xs y \<and> chain nx pv y ys z"
  by (induction xs arbitrary: a) auto

lemma chain_rev: "chain nx pv a xs z = chain pv nx z (rev xs) a"
  by (induction xs arbitrary: a) (auto simp: chain_append)

lemma chain_cong:
  assumes "\<And>x. x = a \<or> x \<in> set xs \<Longrightarrow> nx' x = nx x" "\<And>x. x = z \<or> x \<in> set xs \<Longrightarrow> pv' x = pv x"
  shows "chain nx' pv' a xs z = chain nx pv a xs z"
  using assms by (induction xs arbitrary: a) auto

text \<open>Taking an element out of a chain.\<close>

lemma chain_unlink:
  assumes "chain nx pv a (ps @ b # qs) z" "distinct (ps @ b # qs)" "a \<notin> set (ps @ b # qs)" "z \<notin> set (ps @ b # qs)"
  shows "chain (nx(pv b := nx b)) (pv(nx b := pv b)) a (ps @ qs) z"
proof -
  have l: "chain nx pv a ps b" and r: "chain nx pv b qs z" using assms(1) by (simp_all add: chain_append)
  have pb: "pv b = last (a # ps)" using l by (induction ps arbitrary: a) auto
  have nb: "nx b = hd (qs @ [z])" using r by (cases qs) auto
  let ?nx = "nx(pv b := nx b)" and ?pv = "pv(nx b := pv b)"
  have left: "chain ?nx ?pv a ps (nx b)"
  proof (cases ps rule: rev_cases)
    case Nil
    then show ?thesis using pb by simp
  next
    case (snoc ps' p)
    then have "chain nx pv a ps' p" "pv b = p" using l by (simp_all add: chain_append)
    moreover have "nx b \<notin> set ps" using nb assms(2,4) by (cases qs) auto
    ultimately have "chain ?nx ?pv a ps' p"
      using assms(2,3) snoc by (subst chain_cong [where nx = nx and pv = pv]) auto
    then show ?thesis using snoc \<open>pv b = p\<close> by (simp add: chain_append)
  qed
  show ?thesis
  proof (cases qs)
    case Nil
    then show ?thesis using left nb by simp
  next
    case (Cons q qs')
    then have q: "nx b = q" "chain nx pv q qs' z" using r by auto
    have "last (a # ps) \<notin> set (q # qs')" using assms(2,3) Cons by (cases ps rule: rev_cases) auto
    then have "chain ?nx ?pv q qs' z"
      using q assms(2,4) Cons pb by (subst chain_cong [where nx = nx and pv = pv]) auto
    then show ?thesis using left q(1) Cons by (simp add: chain_append)
  qed
qed

text \<open>Putting an element at the front.\<close>

lemma chain_front:
  assumes "chain nx pv a xs z" "b \<noteq> a" "b \<noteq> z" "b \<notin> set xs" "a \<notin> set xs" "z \<notin> set xs" "distinct xs"
  shows "chain (nx(b := nx a, a := b)) ((pv(b := a))(nx a := b)) a (b # xs) z"
proof (cases xs)
  case Nil
  then show ?thesis using assms by simp
next
  case (Cons x xs')
  then have x: "nx a = x" "pv x = a" "chain nx pv x xs' z" using assms(1) by auto
  have "chain (nx(b := nx a, a := b)) ((pv(b := a))(nx a := b)) x xs' z"
    using x assms Cons by (subst chain_cong [where nx = nx and pv = pv]) auto
  then show ?thesis using x assms(2,4) Cons by auto
qed

section \<open>The list of the buffer cache\<close>

definition nexts :: "(nat \<Rightarrow> buf) \<Rightarrow> nat \<Rightarrow> nat" where
  "nexts B b = b_next (B b)"

definition prevs :: "(nat \<Rightarrow> buf) \<Rightarrow> nat \<Rightarrow> nat" where
  "prevs B b = b_prev (B b)"

definition dll :: "(nat \<Rightarrow> buf) \<Rightarrow> nat list \<Rightarrow> bool" where
  "dll B xs \<longleftrightarrow> chain (nexts B) (prevs B) NBUF xs NBUF \<and> distinct xs \<and> set xs = {..<NBUF}"

lemma dll_cong:
  assumes "\<And>b. b_next (B' b) = b_next (B b)" "\<And>b. b_prev (B' b) = b_prev (B b)"
  shows "dll B' xs = dll B xs"
proof -
  have "nexts B' = nexts B" "prevs B' = prevs B" using assms by (simp_all add: nexts_def prevs_def fun_eq_iff)
  then show ?thesis by (simp add: dll_def)
qed

lemma dll_upd [simp]:
  "b_next x = b_next (B b) \<Longrightarrow> b_prev x = b_prev (B b) \<Longrightarrow> dll (B(b := x)) xs = dll B xs"
  by (rule dll_cong) auto

lemma wpm_search:
  assumes "chain nx pv a xs NBUF" "NBUF \<notin> set xs" "\<And>b. nx b = nxt (bufs s b)"
  shows "wpm (loop (\<lambda>b. if b = NBUF then ret (Inr None)
      else call (buf_get b id) (\<lambda>bf. if P bf then ret (Inr (Some b)) else ret (Inl (nxt bf)))) (nx a)) Q C s
    = Q (find (\<lambda>b. P (bufs s b)) xs) s"
  using assms(1,2)
proof (induction xs arbitrary: a)
  case Nil
  then show ?case by (subst wpm_loop_unfold) (simp add: wpm_simps)
next
  case (Cons x xs)
  then have x: "nx a = x" "chain nx pv x xs NBUF" "x \<noteq> NBUF" by auto
  have "wpm (loop (\<lambda>b. if b = NBUF then ret (Inr None)
      else call (buf_get b id) (\<lambda>bf. if P bf then ret (Inr (Some b)) else ret (Inl (nxt bf)))) (nxt (bufs s x))) Q C s
    = Q (find (\<lambda>b. P (bufs s b)) xs) s"
    using Cons.IH [OF x(2)] Cons.prems(2) assms(3) by simp
  then show ?case using x by (subst wpm_loop_unfold) (simp add: wpm_simps)
qed

lemma wpm_bget_cached:
  assumes "dll (bufs s) xs"
  shows "wpm (bget_cached dev sec) Q C s = Q (find (\<lambda>b. b_dev (bufs s b) = dev \<and> b_sector (bufs s b) = sec) xs) s"
proof -
  have "chain (nexts (bufs s)) (prevs (bufs s)) NBUF xs NBUF" "NBUF \<notin> set xs" using assms by (auto simp: dll_def)
  from wpm_search [OF this, of b_next s "\<lambda>bf. b_dev bf = dev \<and> b_sector bf = sec" Q C]
  show ?thesis by (simp add: bget_cached_def wpm_simps nexts_def)
qed

lemma wpm_bget_recycle:
  assumes "dll (bufs s) xs"
  shows "wpm bget_recycle Q C s = Q (find (\<lambda>b. \<not> b_busy (bufs s b) \<and> \<not> b_dirty (bufs s b)) (rev xs)) s"
proof -
  have "chain (prevs (bufs s)) (nexts (bufs s)) NBUF (rev xs) NBUF" "NBUF \<notin> set (rev xs)"
    using assms chain_rev [of "nexts (bufs s)"] by (auto simp: dll_def)
  from wpm_search [OF this, of b_prev s "\<lambda>bf. \<not> b_busy bf \<and> \<not> b_dirty bf" Q C]
  show ?thesis by (simp add: bget_recycle_def wpm_simps prevs_def)
qed

section \<open>Moving a buffer to the front\<close>

lemma links_upd [simp]:
  "nexts (B(x := (B x)\<lparr>b_next := v\<rparr>)) = (nexts B)(x := v)" "nexts (B(x := (B x)\<lparr>b_prev := v\<rparr>)) = nexts B"
  "prevs (B(x := (B x)\<lparr>b_prev := v\<rparr>)) = (prevs B)(x := v)" "prevs (B(x := (B x)\<lparr>b_next := v\<rparr>)) = prevs B"
  by (auto simp: nexts_def prevs_def fun_eq_iff)

definition same_buf :: "buf \<Rightarrow> buf \<Rightarrow> bool" where
  "same_buf x y \<longleftrightarrow> b_busy x = b_busy y \<and> b_valid x = b_valid y \<and> b_dirty x = b_dirty y \<and> b_dev x = b_dev y
     \<and> b_sector x = b_sector y \<and> b_data x = b_data y"

lemma same_buf_link:
  "same_buf (B y) z \<Longrightarrow> same_buf ((B(x := (B x)\<lparr>b_next := v\<rparr>)) y) z"
  "same_buf (B y) z \<Longrightarrow> same_buf ((B(x := (B x)\<lparr>b_prev := v\<rparr>)) y) z"
  by (auto simp: same_buf_def)

text \<open>The six assignments of \<open>brelse\<close> to the links.\<close>

definition moved_front :: "nat \<Rightarrow> (nat \<Rightarrow> buf) \<Rightarrow> nat \<Rightarrow> buf" where
  "moved_front b B =
     (let B1 = B(b_next (B b) := (B (b_next (B b)))\<lparr>b_prev := b_prev (B b)\<rparr>);
          B2 = B1(b_prev (B1 b) := (B1 (b_prev (B1 b)))\<lparr>b_next := b_next (B1 b)\<rparr>);
          B3 = B2(b := (B2 b)\<lparr>b_next := b_next (B2 NBUF)\<rparr>);
          B4 = B3(b := (B3 b)\<lparr>b_prev := NBUF\<rparr>);
          B5 = B4(b_next (B4 NBUF) := (B4 (b_next (B4 NBUF)))\<lparr>b_prev := b\<rparr>)
      in B5(NBUF := (B5 NBUF)\<lparr>b_next := b\<rparr>))"

lemma moved_front_fields: "same_buf (moved_front b B x) (B x)"
  unfolding moved_front_def Let_def by (intro same_buf_link) (simp add: same_buf_def)

lemma links_moved_front:
  assumes "b \<noteq> NBUF" "nexts B b \<noteq> b" "prevs B b \<noteq> b"
  defines "n \<equiv> (nexts B)(prevs B b := nexts B b)" and "p \<equiv> (prevs B)(nexts B b := prevs B b)"
  shows "nexts (moved_front b B) = n(b := n NBUF, NBUF := b)" "prevs (moved_front b B) = (p(b := NBUF))(n NBUF := b)"
proof -
  define B1 where "B1 = B(nexts B b := (B (nexts B b))\<lparr>b_prev := prevs B b\<rparr>)"
  define B2 where "B2 = B1(prevs B1 b := (B1 (prevs B1 b))\<lparr>b_next := nexts B1 b\<rparr>)"
  define B3 where "B3 = B2(b := (B2 b)\<lparr>b_next := nexts B2 NBUF\<rparr>)"
  define B4 where "B4 = B3(b := (B3 b)\<lparr>b_prev := NBUF\<rparr>)"
  define B5 where "B5 = B4(nexts B4 NBUF := (B4 (nexts B4 NBUF))\<lparr>b_prev := b\<rparr>)"
  have eq: "moved_front b B = B5(NBUF := (B5 NBUF)\<lparr>b_next := b\<rparr>)"
    unfolding moved_front_def Let_def B5_def B4_def B3_def B2_def B1_def nexts_def prevs_def ..
  have 1: "nexts B1 = nexts B" "prevs B1 = p" by (simp_all add: B1_def p_def)
  have 2: "nexts B2 = n" "prevs B2 = p" using assms(2) by (simp_all add: B2_def 1 n_def) (simp_all add: p_def)
  have 3: "nexts B3 = n(b := n NBUF)" "prevs B3 = p" by (simp_all add: B3_def 2)
  have 4: "nexts B4 = n(b := n NBUF)" "prevs B4 = p(b := NBUF)" by (simp_all add: B4_def 3)
  have 5: "nexts B5 = n(b := n NBUF)" "prevs B5 = (p(b := NBUF))(n NBUF := b)" using assms(1) by (simp_all add: B5_def 4)
  show "nexts (moved_front b B) = n(b := n NBUF, NBUF := b)" "prevs (moved_front b B) = (p(b := NBUF))(n NBUF := b)"
    by (simp_all add: eq 5)
qed

lemma dll_moved_front:
  assumes "dll B xs" "b < NBUF"
  shows "dll (moved_front b B) (b # remove1 b xs)"
proof -
  have d: "chain (nexts B) (prevs B) NBUF xs NBUF" "distinct xs" "set xs = {..<NBUF}" using assms(1) by (simp_all add: dll_def)
  then obtain ps qs where xs: "xs = ps @ b # qs" using assms(2) split_list by fastforce
  then have rm: "remove1 b xs = ps @ qs" using d(2) by (simp add: remove1_append)
  let ?n = "(nexts B)(prevs B b := nexts B b)" and ?p = "(prevs B)(nexts B b := prevs B b)"
  have u: "chain ?n ?p NBUF (ps @ qs) NBUF"
    using chain_unlink [of "nexts B" "prevs B" NBUF ps b qs NBUF] d xs by auto
  have nb: "b \<noteq> NBUF" using assms(2) by simp
  have "nexts B b \<noteq> b" "prevs B b \<noteq> b"
  proof -
    have "chain (nexts B) (prevs B) NBUF ps b" "chain (nexts B) (prevs B) b qs NBUF" using d(1) xs by (simp_all add: chain_append)
    then show "nexts B b \<noteq> b" "prevs B b \<noteq> b"
      using d(2) xs nb by (cases qs; cases ps rule: rev_cases; auto simp: chain_append)+
  qed
  moreover have "chain (?n(b := ?n NBUF, NBUF := b)) ((?p(b := NBUF))(?n NBUF := b)) NBUF (b # ps @ qs) NBUF"
    by (rule chain_front [OF u]) (use d xs nb in auto)
  moreover note links_moved_front [OF nb \<open>nexts B b \<noteq> b\<close> \<open>prevs B b \<noteq> b\<close>]
  ultimately have "chain (nexts (moved_front b B)) (prevs (moved_front b B)) NBUF (b # ps @ qs) NBUF" by simp
  moreover have "distinct (b # ps @ qs)" "set (b # ps @ qs) = {..<NBUF}" using d xs by auto
  ultimately show ?thesis using rm by (simp add: dll_def)
qed

lemma wpm_brelse:
  assumes "b < NBUF"
  shows "wpm (brelse b) Q C s \<longleftrightarrow> b_busy (bufs s b)
     \<and> Q () (s\<lparr>bufs := (let B = moved_front b (bufs s) in B(b := (B b)\<lparr>b_busy := False\<rparr>))\<rparr>)"
  using assms by (simp add: brelse_def wpm_simps moved_front_def Let_def)

section \<open>The initial list\<close>

text \<open>What \<open>binit\<close> leaves: every buffer in the list and none in use.\<close>

lemma wpm_binit:
  assumes "\<And>B xs. dll B xs \<Longrightarrow> (\<And>b. b < NBUF \<Longrightarrow> same_buf (B b) ((bufs s b)\<lparr>b_dev := 0xffffffff\<rparr>))
      \<Longrightarrow> Q () (s\<lparr>bufs := B\<rparr>)"
  shows "wpm binit Q C s"
proof -
  define h where "h B n = (n \<le> NBUF \<and> chain (nexts B) (prevs B) NBUF (rev [0..<n]) NBUF
    \<and> (\<forall>b<n. same_buf (B b) ((bufs s b)\<lparr>b_dev := 0xffffffff\<rparr>))
    \<and> (\<forall>b. n \<le> b \<and> b < NBUF \<longrightarrow> B b = bufs s b))" for B n
  let ?I = "\<lambda>ys t. \<exists>B n. t = s\<lparr>bufs := B\<rparr> \<and> ys = [n..<NBUF] \<and> h B n"
  let ?B0 = "(bufs s)(NBUF := (bufs s NBUF)\<lparr>b_prev := NBUF, b_next := NBUF\<rparr>)"
  have start: "?I [0..<NBUF] (s\<lparr>bufs := ?B0\<rparr>)"
    by (intro exI [of _ ?B0] exI [of _ 0]) (simp add: h_def nexts_def prevs_def)
  have stop: "Q () t" if I: "?I [] t" for t
  proof -
    obtain B n where B: "t = s\<lparr>bufs := B\<rparr>" "[] = [n..<NBUF]" "h B n" using I by blast
    have "[n..<NBUF] = []" using B(2) by (rule sym)
    then have n: "n = NBUF" using B(3) unfolding h_def by (elim conjE) (simp add: macros)
    have "dll B (rev [0..<NBUF])" using B(3) n by (auto simp: dll_def h_def)
    then show ?thesis unfolding B(1) by (rule assms) (use B(3) n in \<open>auto simp: h_def\<close>)
  qed
  have step: "wpm (call (buf_get NBUF b_next) (\<lambda>n. steps [
       buf_set y (\<lambda>bf. bf\<lparr>b_next := n\<rparr>), buf_set y (\<lambda>bf. bf\<lparr>b_prev := NBUF\<rparr>), buf_set y (\<lambda>bf. bf\<lparr>b_dev := 0xffffffff\<rparr>),
       call (buf_get NBUF b_next) (\<lambda>n. buf_set n (\<lambda>bf. bf\<lparr>b_prev := y\<rparr>)),
       buf_set NBUF (\<lambda>h. h\<lparr>b_next := y\<rparr>)])) (\<lambda>_. ?I ys) C t" if I: "?I (y # ys) t" for y ys t
  proof -
    obtain B n where B: "t = s\<lparr>bufs := B\<rparr>" "y # ys = [n..<NBUF]" "h B n" using I by blast
    have "[n..<NBUF] = y # ys" using B(2) by (rule sym)
    then have y: "y = n" "ys = [Suc n..<NBUF]" "n < NBUF" by (auto simp: upt_eq_Cons_conv)
    let ?N = "b_next (B NBUF)"
    let ?B1 = "B(n := (B n)\<lparr>b_next := ?N, b_prev := NBUF, b_dev := 0xffffffff\<rparr>)"
    let ?B2 = "?B1(?N := (?B1 ?N)\<lparr>b_prev := n\<rparr>)"
    let ?B3 = "?B2(NBUF := (?B2 NBUF)\<lparr>b_next := n\<rparr>)"
    have c: "chain (nexts B) (prevs B) NBUF (rev [0..<n]) NBUF" using B(3) by (simp add: h_def)
    have N: "?N = (if n = 0 then NBUF else n - 1)" using c by (cases n) (auto simp: nexts_def)
    have "nexts ?B3 = (nexts B)(n := nexts B NBUF, NBUF := n)" "prevs ?B3 = ((prevs B)(n := NBUF))(nexts B NBUF := n)"
      using y(3) N by (auto simp: nexts_def prevs_def fun_eq_iff)
    moreover have "chain ((nexts B)(n := nexts B NBUF, NBUF := n)) (((prevs B)(n := NBUF))(nexts B NBUF := n)) NBUF (n # rev [0..<n]) NBUF"
      by (rule chain_front [OF c]) (use y(3) in auto)
    ultimately have c3: "chain (nexts ?B3) (prevs ?B3) NBUF (rev [0..<Suc n]) NBUF" by simp
    have "same_buf (?B1 b) ((bufs s b)\<lparr>b_dev := 0xffffffff\<rparr>)" if "b < Suc n" for b
      using B(3) y(3) that by (cases "b = n") (simp_all add: h_def same_buf_def)
    then have sb: "same_buf (?B3 b) ((bufs s b)\<lparr>b_dev := 0xffffffff\<rparr>)" if "b < Suc n" for b
      using that by (intro same_buf_link)
    have rest: "?B3 b = bufs s b" if "Suc n \<le> b" "b < NBUF" for b
      using B(3) N that by (simp add: h_def)
    have "h ?B3 (Suc n)"
      unfolding h_def by (intro conjI allI impI c3 sb rest) (use y(3) in simp_all)
    then have "?I ys (s\<lparr>bufs := ?B3\<rparr>)" using y by blast
    moreover have "?N \<noteq> n" using N y(3) by auto
    ultimately show ?thesis using y(1,3) unfolding B(1) by (simp add: wpm_simps cong: wpm_cong)
  qed
  have "wpm (for_all [0..<NBUF] (\<lambda>b. call (buf_get NBUF b_next) (\<lambda>n. steps [
       buf_set b (\<lambda>bf. bf\<lparr>b_next := n\<rparr>), buf_set b (\<lambda>bf. bf\<lparr>b_prev := NBUF\<rparr>), buf_set b (\<lambda>bf. bf\<lparr>b_dev := 0xffffffff\<rparr>),
       call (buf_get NBUF b_next) (\<lambda>n. buf_set n (\<lambda>bf. bf\<lparr>b_prev := b\<rparr>)),
       buf_set NBUF (\<lambda>h. h\<lparr>b_next := b\<rparr>)]))) Q C (s\<lparr>bufs := ?B0\<rparr>)"
    by (rule wpm_for_all [where I = ?I]) (rule start, erule step, erule stop)
  then show ?thesis by (simp add: binit_def wpm_simps)
qed

end
