(* ===== verification/BufCache.thy ===== *)
theory BufCache
  imports BufList
begin

text \<open>
  The buffer cache as the layers above use it. The abstract state of the cache is what a block reads as
  (\<open>a_view\<close>), the sectors whose buffers are dirty, the buffers held between \<open>bread\<close> and
  \<open>brelse\<close> with their sectors, and the state of the disk below. The rules say what
  \<open>bread\<close>, \<open>bwrite\<close> and \<open>brelse\<close> do to it on any disk that satisfies the laws of
  \<open>snapshot_disk\<close>; which buffers hold the blocks, and the order of the list, are hidden.
\<close>

section \<open>The abstract state\<close>

record acache =
  a_view :: "nat \<Rightarrow> bytes"
  a_dirty :: "nat set"
  a_held :: "nat \<Rightarrow> nat option"
  a_vol :: contents
  a_st :: contents
  a_n :: nat

text \<open>A buffer that caches a sector of the disk.\<close>

definition caches :: "(nat \<Rightarrow> buf) \<Rightarrow> nat \<Rightarrow> nat \<Rightarrow> bool" where
  "caches B b sec \<longleftrightarrow> b < NBUF \<and> b_dev (B b) = ROOTDEV \<and> b_sector (B b) = sec"

definition bufs_ok :: "(nat \<Rightarrow> buf) \<Rightarrow> acache \<Rightarrow> bool" where
  "bufs_ok B A \<longleftrightarrow>
     (\<exists>xs. dll B xs)
     \<and> (\<forall>b<NBUF. b_dev (B b) = ROOTDEV \<or> b_dev (B b) = 0xffffffff \<and> \<not> b_busy (B b) \<and> \<not> b_dirty (B b))
     \<and> (\<forall>a b sec. caches B a sec \<and> caches B b sec \<longrightarrow> a = b)
     \<and> (\<forall>b sec. a_held A b = Some sec \<longleftrightarrow> caches B b sec \<and> b_busy (B b))
     \<and> (\<forall>sec. sec \<in> a_dirty A \<longleftrightarrow> (\<exists>b. caches B b sec \<and> b_dirty (B b)))
     \<and> (\<forall>b sec. caches B b sec \<longrightarrow> b_valid (B b) \<and> b_data (B b) = a_view A sec)"

text \<open>The block of the disk, as bytes.\<close>

definition blk :: "contents \<Rightarrow> nat \<Rightarrow> bytes" where
  "blk vol sec = bytes_of (vol sec)"

definition view_ok :: "acache \<Rightarrow> bool" where
  "view_ok A \<longleftrightarrow> (\<forall>sec. is_blk (a_view A sec))
     \<and> (\<forall>sec<N_LAS. sec \<notin> a_dirty A \<and> sec \<notin> ran (a_held A) \<longrightarrow> a_view A sec = blk (a_vol A) sec)"

lemma blk_upd [simp]: "blk (vol(sec := w)) = (blk vol)(sec := bytes_of w)"
  by (auto simp: blk_def fun_eq_iff)

section \<open>Room\<close>

text \<open>There is a buffer to recycle while not all of them are busy or dirty.\<close>

definition room :: "acache \<Rightarrow> bool" where
  "room A \<longleftrightarrow> finite (a_dirty A) \<and> finite (dom (a_held A)) \<and> card (a_dirty A) + card (dom (a_held A)) < NBUF"

lemma free_buffer:
  assumes ok: "bufs_ok B A" and room: "room A"
  obtains b where "b < NBUF" "\<not> b_busy (B b)" "\<not> b_dirty (B b)"
proof -
  let ?D = "{b. b < NBUF \<and> b_dirty (B b)}" and ?H = "{b. b < NBUF \<and> b_busy (B b)}"
  have dev: "b_dev (B b) = ROOTDEV" if "b \<in> ?D \<or> b \<in> ?H" for b using ok that by (auto simp: bufs_ok_def)
  have "?H \<subseteq> dom (a_held A)"
  proof
    fix b assume b: "b \<in> ?H"
    then have "caches B b (b_sector (B b))" using dev by (simp add: caches_def)
    then have "a_held A b = Some (b_sector (B b))" using ok b by (simp add: bufs_ok_def)
    then show "b \<in> dom (a_held A)" by blast
  qed
  then have H: "card ?H \<le> card (dom (a_held A))" using room by (intro card_mono) (simp_all add: room_def)
  have "inj_on (\<lambda>b. b_sector (B b)) ?D"
  proof (rule inj_onI)
    fix a b assume "a \<in> ?D" "b \<in> ?D" "b_sector (B a) = b_sector (B b)"
    then have "caches B a (b_sector (B b))" "caches B b (b_sector (B b))" using dev by (simp_all add: caches_def)
    then show "a = b" using ok unfolding bufs_ok_def by blast
  qed
  moreover have "(\<lambda>b. b_sector (B b)) ` ?D \<subseteq> a_dirty A"
  proof (rule image_subsetI)
    fix b assume b: "b \<in> ?D"
    then have "caches B b (b_sector (B b))" using dev by (simp add: caches_def)
    then show "b_sector (B b) \<in> a_dirty A" using ok b unfolding bufs_ok_def by blast
  qed
  ultimately have D: "card ?D \<le> card (a_dirty A)" using room by (intro card_inj_on_le) (simp_all add: room_def)
  have "card (?D \<union> ?H) < card {..<NBUF}" using card_Un_le [of ?D ?H] D H room by (simp add: room_def)
  then have "\<not> {..<NBUF} \<subseteq> ?D \<union> ?H" using card_mono [of "?D \<union> ?H" "{..<NBUF}"] by auto
  then show thesis using that by auto
qed

section \<open>Changes of one buffer\<close>

lemma caches_upd [simp]:
  "b_dev x = b_dev (B b) \<Longrightarrow> b_sector x = b_sector (B b) \<Longrightarrow> caches (B(b := x)) = caches B"
  by (auto simp: caches_def fun_eq_iff)

lemma bufs_okD:
  assumes "bufs_ok B A"
  shows "\<exists>xs. dll B xs" "\<And>a b sec. caches B a sec \<Longrightarrow> caches B b sec \<Longrightarrow> a = b"
    "\<And>b sec. a_held A b = Some sec \<longleftrightarrow> caches B b sec \<and> b_busy (B b)"
    "\<And>sec. sec \<in> a_dirty A \<longleftrightarrow> (\<exists>b. caches B b sec \<and> b_dirty (B b))"
    "\<And>b sec. caches B b sec \<Longrightarrow> b_valid (B b) \<and> b_data (B b) = a_view A sec"
    "\<And>b. b < NBUF \<Longrightarrow> b_dev (B b) = ROOTDEV \<or> b_dev (B b) = 0xffffffff \<and> \<not> b_busy (B b) \<and> \<not> b_dirty (B b)"
  using assms unfolding bufs_ok_def by blast+

lemma bufs_okI:
  assumes "\<exists>xs. dll B xs" "\<And>a b sec. caches B a sec \<Longrightarrow> caches B b sec \<Longrightarrow> a = b"
    "\<And>b sec. a_held A b = Some sec \<longleftrightarrow> caches B b sec \<and> b_busy (B b)"
    "\<And>sec. sec \<in> a_dirty A \<longleftrightarrow> (\<exists>b. caches B b sec \<and> b_dirty (B b))"
    "\<And>b sec. caches B b sec \<Longrightarrow> b_valid (B b) \<and> b_data (B b) = a_view A sec"
    "\<And>b. b < NBUF \<Longrightarrow> b_dev (B b) = ROOTDEV \<or> b_dev (B b) = 0xffffffff \<and> \<not> b_busy (B b) \<and> \<not> b_dirty (B b)"
  shows "bufs_ok B A"
  unfolding bufs_ok_def by (intro conjI allI impI) (use assms in blast)+

lemma dirty_iff:
  assumes "bufs_ok B A" "caches B b sec"
  shows "b_dirty (B b) \<longleftrightarrow> sec \<in> a_dirty A"
  unfolding bufs_okD(4) [OF assms(1)] using bufs_okD(2) [OF assms(1,2)] assms(2) by blast

lemma caches_inj: "caches B b sec \<Longrightarrow> caches B b sec' \<Longrightarrow> sec' = sec"
  by (simp add: caches_def)

lemma bufs_ok_upd:
  assumes ok: "bufs_ok B A" and c: "caches B b sec"
    and x: "b_dev x = b_dev (B b)" "b_sector x = b_sector (B b)" "b_next x = b_next (B b)" "b_prev x = b_prev (B b)" "b_valid x"
    and A': "a_held A' = (a_held A)(b := if b_busy x then Some sec else None)"
      "a_dirty A' = (if b_dirty x then insert sec (a_dirty A) else a_dirty A - {sec})"
      "a_view A' = (a_view A)(sec := b_data x)"
  shows "bufs_ok (B(b := x)) A'"
proof -
  note D = bufs_okD [OF ok]
  have C: "caches (B(b := x)) = caches B" using x by simp
  have b: "b < NBUF" "b_dev (B b) = ROOTDEV" using c by (simp_all add: caches_def)
  have uniq: "b' = b" if "caches B b' sec" for b' using D(2) [OF that c] .
  have cb: "caches B b sec' \<longleftrightarrow> sec = sec'" for sec' using c caches_inj [OF c] by blast
  have "\<exists>xs. dll (B(b := x)) xs" using D(1) x by simp
  moreover have "\<forall>b'<NBUF. b_dev ((B(b := x)) b') = ROOTDEV
      \<or> b_dev ((B(b := x)) b') = 0xffffffff \<and> \<not> b_busy ((B(b := x)) b') \<and> \<not> b_dirty ((B(b := x)) b')"
    using D(6) b x(1) by simp
  moreover have "\<forall>a b' sec. caches B a sec \<and> caches B b' sec \<longrightarrow> a = b'" using D(2) by blast
  moreover have "a_held A' b' = Some sec' \<longleftrightarrow> caches B b' sec' \<and> b_busy ((B(b := x)) b')" for b' sec'
    using D(3) [of b' sec'] by (cases "b' = b") (simp_all add: A' cb)
  moreover have "sec' \<in> a_dirty A' \<longleftrightarrow> (\<exists>b'. caches B b' sec' \<and> b_dirty ((B(b := x)) b'))" for sec'
  proof (cases "sec' = sec")
    case True
    then have "(\<exists>b'. caches B b' sec' \<and> b_dirty ((B(b := x)) b')) \<longleftrightarrow> b_dirty x" using uniq c by (metis fun_upd_same)
    then show ?thesis using True by (simp add: A')
  next
    case False
    then have "(caches B b' sec' \<and> b_dirty ((B(b := x)) b')) = (caches B b' sec' \<and> b_dirty (B b'))" for b'
      by (cases "b' = b") (simp_all add: cb)
    then show ?thesis using D(4) [of sec'] False by (simp add: A')
  qed
  moreover have "b_valid ((B(b := x)) b') \<and> b_data ((B(b := x)) b') = a_view A' sec'" if "caches B b' sec'" for b' sec'
  proof (cases "b' = b")
    case True
    then show ?thesis using D(5) [OF that] x(5) that by (simp add: A' cb)
  next
    case False
    then have "sec' \<noteq> sec" using uniq that by blast
    then show ?thesis using D(5) [OF that] False by (simp add: A')
  qed
  ultimately show ?thesis unfolding bufs_ok_def C by blast
qed

lemma bufs_ok_same:
  assumes ok: "bufs_ok B A" and same: "\<And>b. same_buf (B' b) (B b)" and dll: "dll B' xs"
  shows "bufs_ok B' A"
proof -
  have eq: "b_busy (B' b) = b_busy (B b)" "b_valid (B' b) = b_valid (B b)" "b_dirty (B' b) = b_dirty (B b)"
    "b_data (B' b) = b_data (B b)" "b_dev (B' b) = b_dev (B b)" for b
    using same [of b] by (simp_all add: same_buf_def)
  have "caches B' = caches B" using same by (auto simp: caches_def same_buf_def fun_eq_iff)
  then show ?thesis using ok dll unfolding bufs_ok_def by (auto simp: eq)
qed

text \<open>A buffer that is neither busy nor dirty takes another sector.\<close>

lemma bufs_ok_recycle:
  assumes ok: "bufs_ok B A" and b: "b < NBUF" "\<not> b_busy (B b)" "\<not> b_dirty (B b)"
    and new: "\<And>b'. \<not> caches B b' sec"
    and x: "b_dev x = ROOTDEV" "b_sector x = sec" "b_next x = b_next (B b)" "b_prev x = b_prev (B b)" "b_valid x"
      "b_busy x" "\<not> b_dirty x"
  shows "bufs_ok (B(b := x)) (A\<lparr>a_view := (a_view A)(sec := b_data x), a_held := (a_held A)(b := Some sec)\<rparr>)" (is "bufs_ok _ ?A")
proof -
  note D = bufs_okD [OF ok]
  have C: "caches (B(b := x)) b' sec' \<longleftrightarrow> (if b' = b then sec' = sec else caches B b' sec')" for b' sec'
    using b(1) x(1,2) by (auto simp: caches_def)
  show ?thesis
  proof (rule bufs_okI)
    show "\<exists>xs. dll (B(b := x)) xs" using D(1) x by simp
    show "b_dev ((B(b := x)) b') = ROOTDEV \<or> b_dev ((B(b := x)) b') = 0xffffffff \<and> \<not> b_busy ((B(b := x)) b') \<and> \<not> b_dirty ((B(b := x)) b')"
      if "b' < NBUF" for b' using D(6) x(1) that by simp
    show "a = b'" if "caches (B(b := x)) a sec'" "caches (B(b := x)) b' sec'" for a b' sec'
      using that new [of a] new [of b'] D(2) [of a sec' b'] by (cases "a = b"; cases "b' = b") (simp_all add: C)
    show "a_held ?A b' = Some sec' \<longleftrightarrow> caches (B(b := x)) b' sec' \<and> b_busy ((B(b := x)) b')" for b' sec'
      using D(3) [of b' sec'] x(6) by (auto simp: C)
    have "(caches (B(b := x)) b' sec' \<and> b_dirty ((B(b := x)) b')) = (caches B b' sec' \<and> b_dirty (B b'))" for b' sec'
      using b(3) x(7) by (simp add: C)
    then show "sec' \<in> a_dirty ?A
        \<longleftrightarrow> (\<exists>b'. caches (B(b := x)) b' sec' \<and> b_dirty ((B(b := x)) b'))" for sec'
      using D(4) [of sec'] by simp
    show "b_valid ((B(b := x)) b') \<and> b_data ((B(b := x)) b') = a_view ?A sec'"
      if "caches (B(b := x)) b' sec'" for b' sec'
      using that D(5) [of b' sec'] x new [of b'] by (cases "b' = b") (auto simp: C)
  qed
qed

section \<open>The rules\<close>

definition cache_inv :: "('d \<Rightarrow> contents \<Rightarrow> contents \<Rightarrow> nat \<Rightarrow> bool) \<Rightarrow> 'd xv6 \<Rightarrow> acache \<Rightarrow> bool" where
  "cache_inv up s A \<longleftrightarrow> bufs_ok (bufs s) A \<and> view_ok A \<and> up (dsk s) (a_vol A) (a_st A) (a_n A)"

text \<open>The part of the state that the cache does not touch.\<close>

definition same_fs :: "'d xv6 \<Rightarrow> 'd xv6 \<Rightarrow> bool" where
  "same_fs s t \<longleftrightarrow> (\<exists>B f d. t = s\<lparr>dsk := d, fsstats := f, bufs := B\<rparr>)"

lemma same_fsI [intro]: "same_fs s (s\<lparr>dsk := d, fsstats := f, bufs := B\<rparr>)"
  by (auto simp: same_fs_def)

lemma same_fs_refl [simp]: "same_fs s s"
  using same_fsI [where s = s and B = "bufs s" and f = "fsstats s" and d = "dsk s"] by simp

lemma same_fs_trans:
  assumes "same_fs s t" "same_fs t u"
  shows "same_fs s u"
proof -
  obtain B f d B' f' d' where "t = s\<lparr>dsk := d, fsstats := f, bufs := B\<rparr>" "u = t\<lparr>dsk := d', fsstats := f', bufs := B'\<rparr>"
    using assms by (auto simp: same_fs_def)
  then have "u = s\<lparr>dsk := d', fsstats := f', bufs := B'\<rparr>" by simp
  then show ?thesis by blast
qed

lemma same_fsD:
  assumes "same_fs s t"
  shows "log_start t = log_start s" "log_size t = log_size s" "outstanding t = outstanding s" "committing t = committing s"
    "log_dev t = log_dev s" "lh_n t = lh_n s" "lh_sector t = lh_sector s" "acc_commit t = acc_commit s" "icache t = icache s"
    "ftable t = ftable s" "cwd t = cwd s" "times t = times s" "ntime t = ntime s"
  using assms by (auto simp: same_fs_def)

lemma held_buf:
  assumes "cache_inv up s A" "a_held A b = Some sec"
  shows "b < NBUF" "b_busy (bufs s b)" "b_valid (bufs s b)" "b_sector (bufs s b) = sec" "b_data (bufs s b) = a_view A sec"
    "is_blk (a_view A sec)" "caches (bufs s) b sec" "b_dirty (bufs s b) \<longleftrightarrow> sec \<in> a_dirty A"
proof -
  have ok: "bufs_ok (bufs s) A" using assms(1) by (simp add: cache_inv_def)
  note D = bufs_okD [OF ok]
  have c: "caches (bufs s) b sec" and busy: "b_busy (bufs s b)" using D(3) [of b sec] assms(2) by auto
  then show "b < NBUF" "b_busy (bufs s b)" "b_valid (bufs s b)" "b_sector (bufs s b) = sec" "b_data (bufs s b) = a_view A sec"
    "is_blk (a_view A sec)" "caches (bufs s) b sec" using D(5) [OF c] assms(1) by (auto simp: caches_def cache_inv_def view_ok_def)
  show "b_dirty (bufs s b) \<longleftrightarrow> sec \<in> a_dirty A" by (rule dirty_iff [OF ok c])
qed

context snapshot_disk
begin

lemma wp_unix_read:
  assumes "up (dsk s) vol st n"
    and Q: "\<And>x d f. up d vol st n \<Longrightarrow> is_blk x \<Longrightarrow> (sec < N_LAS \<Longrightarrow> x = blk vol sec) \<Longrightarrow> Q x (s\<lparr>dsk := d, fsstats := f\<rparr>)"
  shows "wpm (unix_read ops sec) Q C s"
proof -
  have "wp (op_read ops sec) (\<lambda>t. up t vol st n \<and> (sec < N_LAS \<longrightarrow> (\<forall>o'<N_ENTRIES_PER_SECTOR. op_data ops t o' = vol sec o'))) (\<lambda>_. False) (dsk s)"
    using read_law [OF assms(1)] read_reject_law [OF assms(1)] by (cases "sec < N_LAS") auto
  then have "wp (op_read ops sec) (\<lambda>d. Q (bytes_of (op_data ops d))
      (s\<lparr>dsk := d, fsstats := nread_update (\<lambda>n. u64 (n + 1)) (fsstats s)\<rparr>)) (\<lambda>d. C (s\<lparr>dsk := d\<rparr>)) (dsk s)"
  proof (rule wp_mono)
    fix d assume d: "up d vol st n \<and> (sec < N_LAS \<longrightarrow> (\<forall>o'<N_ENTRIES_PER_SECTOR. op_data ops d o' = vol sec o'))"
    then have "bytes_of (op_data ops d) = blk vol sec" if "sec < N_LAS"
      unfolding blk_def using that by (intro bytes_of_cong) (simp add: macros)
    then show "Q (bytes_of (op_data ops d)) (s\<lparr>dsk := d, fsstats := nread_update (\<lambda>n. u64 (n + 1)) (fsstats s)\<rparr>)"
      using Q d by simp
  qed simp
  then show ?thesis by (simp add: unix_read_def wpm_simps wpm_on_disk)
qed

text \<open>A sector beyond the disk reads as anything.\<close>

lemma wp_bread_any:
  assumes inv: "cache_inv up s A" and sec: "sec \<notin> ran (a_held A)"
    and room: "(\<exists>b. caches (bufs s) b sec) \<or> (\<exists>b<NBUF. \<not> b_busy (bufs s b) \<and> \<not> b_dirty (bufs s b))"
    and Q: "\<And>b x t. a_held A b = None \<Longrightarrow> (sec < N_LAS \<Longrightarrow> x = a_view A sec) \<Longrightarrow>
      cache_inv up t (A\<lparr>a_view := (a_view A)(sec := x), a_held := (a_held A)(b := Some sec)\<rparr>) \<Longrightarrow> same_fs s t \<Longrightarrow> Q b t"
  shows "wpm (bread ops ROOTDEV sec) Q C s"
proof -
  have ok: "bufs_ok (bufs s) A" and view: "view_ok A" and d: "up (dsk s) (a_vol A) (a_st A) (a_n A)"
    using inv by (simp_all add: cache_inv_def)
  note D = bufs_okD [OF ok]
  obtain xs where xs: "dll (bufs s) xs" using D(1) by blast
  then have set: "set xs = {..<NBUF}" by (simp add: dll_def)
  have view': "view_ok (A\<lparr>a_view := (a_view A)(sec := x), a_held := (a_held A)(b := Some sec)\<rparr>)"
    if "a_held A b = None" "is_blk x" for b x
    using view that ran_map_upd [of "a_held A" b sec] by (simp add: view_ok_def)
  let ?f = "find (\<lambda>b. b_dev (bufs s b) = ROOTDEV \<and> b_sector (bufs s b) = sec) xs"
  show ?thesis
  proof (cases ?f)
    case (Some b)
    then have c: "caches (bufs s) b sec" using set by (auto simp: find_Some_iff caches_def)
    have nb: "\<not> b_busy (bufs s b)" using D(3) [of b sec] c sec by (auto simp: ran_def)
    then have h: "a_held A b = None" using D(3) [of b] by (cases "a_held A b") auto
    let ?B = "(bufs s)(b := (bufs s b)\<lparr>b_busy := True\<rparr>)"
    let ?A = "A\<lparr>a_view := (a_view A)(sec := a_view A sec), a_held := (a_held A)(b := Some sec)\<rparr>"
    have "bufs_ok ?B ?A"
      using D(5) [OF c] dirty_iff [OF ok c] by (intro bufs_ok_upd [OF ok c]) (simp_all add: insert_absorb)
    moreover have "view_ok ?A" using view by (intro view' [OF h]) (simp add: view_ok_def)
    ultimately have "Q b (s\<lparr>bufs := ?B\<rparr>)"
      using d same_fsI [where s = s and B = ?B and f = "fsstats s" and d = "dsk s"]
      by (intro Q [where x = "a_view A sec", OF h]) (simp_all add: cache_inv_def)
    then show ?thesis
      using Some nb D(5) [OF c]
      by (simp add: bread_def bget_def wpm_simps wpm_loop_unfold wpm_bget_cached [OF xs] cong: wpm_cong)
  next
    case None
    then have new: "\<not> caches (bufs s) b' sec" for b' using set by (auto simp: find_None_iff caches_def)
    then have "find (\<lambda>b. \<not> b_busy (bufs s b) \<and> \<not> b_dirty (bufs s b)) (rev xs) \<noteq> None"
      using set room by (auto simp: find_None_iff)
    then obtain b where f: "find (\<lambda>b. \<not> b_busy (bufs s b) \<and> \<not> b_dirty (bufs s b)) (rev xs) = Some b" by blast
    then have b: "b < NBUF" "\<not> b_busy (bufs s b)" "\<not> b_dirty (bufs s b)"
      using set by (auto simp: find_Some_iff) (metis lessThan_iff nth_mem set_rev length_rev)
    have h: "a_held A b = None" using D(3) [of b] b(2) by (cases "a_held A b") auto
    let ?t = "s\<lparr>bufs := (bufs s)(b := (bufs s b)\<lparr>b_dev := ROOTDEV, b_sector := sec, b_busy := True, b_valid := False, b_dirty := False\<rparr>)\<rparr>"
    have clean: "a_view A sec = blk (a_vol A) sec" if "sec < N_LAS"
      using view sec new D(4) [of sec] that by (simp add: view_ok_def)
    have "wpm (unix_read ops sec) (\<lambda>d. wpm (steps [buf_set b (\<lambda>bf. bf\<lparr>b_data := d\<rparr>), buf_set b (\<lambda>bf. bf\<lparr>b_valid := True\<rparr>)]) (\<lambda>_. Q b) C) C ?t"
    proof (rule wp_unix_read)
      fix x dd f assume dd: "up dd (a_vol A) (a_st A) (a_n A)" and x: "is_blk x" "sec < N_LAS \<Longrightarrow> x = blk (a_vol A) sec"
      let ?x = "(bufs s b)\<lparr>b_dev := ROOTDEV, b_sector := sec, b_busy := True, b_dirty := False, b_data := x, b_valid := True\<rparr>"
      have "bufs_ok ((bufs s)(b := ?x)) (A\<lparr>a_view := (a_view A)(sec := b_data ?x), a_held := (a_held A)(b := Some sec)\<rparr>)"
        by (rule bufs_ok_recycle [OF ok b new]) simp_all
      then have "Q b (s\<lparr>dsk := dd, fsstats := f, bufs := (bufs s)(b := ?x)\<rparr>)"
        using view' [OF h x(1)] dd clean x(2) by (intro Q [where x = x, OF h]) (auto simp: cache_inv_def)
      then show "wpm (steps [buf_set b (\<lambda>bf. bf\<lparr>b_data := x\<rparr>), buf_set b (\<lambda>bf. bf\<lparr>b_valid := True\<rparr>)]) (\<lambda>_. Q b) C
          (?t\<lparr>dsk := dd, fsstats := f\<rparr>)"
        by (simp add: wpm_simps)
    qed (use d in simp)
    then show ?thesis
      using None f
      by (simp add: bread_def bget_def iderw_def wpm_simps wpm_loop_unfold wpm_bget_cached [OF xs] wpm_bget_recycle [OF xs] cong: wpm_cong)
  qed
qed

lemma wp_bread:
  assumes inv: "cache_inv up s A" and sec: "sec < N_LAS" "sec \<notin> ran (a_held A)" and room: "room A"
    and Q: "\<And>b t. a_held A b = None \<Longrightarrow> cache_inv up t (A\<lparr>a_held := (a_held A)(b := Some sec)\<rparr>) \<Longrightarrow> same_fs s t \<Longrightarrow> Q b t"
  shows "wpm (bread ops ROOTDEV sec) Q C s"
proof -
  obtain b where "b < NBUF" "\<not> b_busy (bufs s b)" "\<not> b_dirty (bufs s b)"
    using inv room by (auto simp: cache_inv_def elim: free_buffer)
  then show ?thesis using Q sec(1) by (intro wp_bread_any [OF inv sec(2)]) auto
qed

text \<open>A write beyond the disk is dropped.\<close>

lemma wp_bwrite_any:
  assumes inv: "cache_inv up s A" and h: "a_held A b = Some sec" and n: "a_n A < MAX_WCNT"
    and Q: "\<And>t vol n. cache_inv up t (A\<lparr>a_dirty := a_dirty A - {sec}, a_vol := vol, a_n := n\<rparr>) \<Longrightarrow> same_fs s t \<Longrightarrow>
      vol = (if sec < N_LAS then (a_vol A)(sec := words_of (a_view A sec)) else a_vol A) \<Longrightarrow>
      n = (if sec < N_LAS then Suc (a_n A) else a_n A) \<Longrightarrow> Q () t"
    and C: "\<And>t. down (dsk t) (a_st A) \<Longrightarrow> C t"
  shows "wpm (bwrite ops b) Q C s"
proof -
  note b = held_buf [OF inv h]
  have ok: "bufs_ok (bufs s) A" and view: "view_ok A" and d: "up (dsk s) (a_vol A) (a_st A) (a_n A)"
    using inv by (simp_all add: cache_inv_def)
  let ?vol = "if sec < N_LAS then (a_vol A)(sec := words_of (a_view A sec)) else a_vol A"
  let ?n = "if sec < N_LAS then Suc (a_n A) else a_n A"
  let ?A = "A\<lparr>a_dirty := a_dirty A - {sec}, a_vol := ?vol, a_n := ?n\<rparr>"
  let ?t = "\<lambda>d f. s\<lparr>dsk := d, fsstats := f, bufs := (bufs s)(b := (bufs s b)\<lparr>b_dirty := False\<rparr>)\<rparr>"
  have "view_ok ?A" using view b(6) by (auto simp: view_ok_def bytes_of_words_of)
  moreover have "bufs_ok ((bufs s)(b := (bufs s b)\<lparr>b_dirty := False\<rparr>)) ?A"
    using b h by (intro bufs_ok_upd [OF ok b(7)]) (simp_all add: fun_upd_idem)
  ultimately have Q': "Q () (?t d' f)" if "up d' ?vol (a_st A) ?n" for d' f
    using that by (intro Q [where vol = ?vol and n = ?n]) (auto simp: cache_inv_def)
  have "wp (op_write ops sec (words_of (a_view A sec))) (\<lambda>t. up t ?vol (a_st A) ?n) (\<lambda>t. down t (a_st A)) (dsk s)"
    using write_law [OF d, of sec] reject_law [OF d, of sec] n by (cases "sec < N_LAS") auto
  then have "wp (op_write ops sec (words_of (a_view A sec))) (\<lambda>d. Q () (?t d (nwrite_update (\<lambda>n. u64 (n + 1)) (fsstats s))))
      (\<lambda>d. C (s\<lparr>bufs := (bufs s)(b := (bufs s b)\<lparr>b_dirty := True\<rparr>), dsk := d\<rparr>)) (dsk s)"
    using C Q' by (auto elim!: wp_mono)
  moreover have "s\<lparr>bufs := B1, dsk := d, fsstats := f, bufs := B2\<rparr> = s\<lparr>dsk := d, fsstats := f, bufs := B2\<rparr>" for B1 B2 d f
    by simp
  ultimately show ?thesis
    using b by (simp add: bwrite_def iderw_def unix_write_def wpm_simps wpm_on_disk cong: wpm_cong)
qed

lemma wp_bwrite:
  assumes "cache_inv up s A" "a_held A b = Some sec" "sec < N_LAS" "a_n A < MAX_WCNT"
    and Q: "\<And>t. cache_inv up t (A\<lparr>a_dirty := a_dirty A - {sec}, a_vol := (a_vol A)(sec := words_of (a_view A sec)), a_n := Suc (a_n A)\<rparr>)
      \<Longrightarrow> same_fs s t \<Longrightarrow> Q () t"
    and "\<And>t. down (dsk t) (a_st A) \<Longrightarrow> C t"
  shows "wpm (bwrite ops b) Q C s"
  by (rule wp_bwrite_any [OF assms(1,2,4)]) (use assms(3,6) Q in auto)

lemma wp_ideflush:
  assumes inv: "cache_inv up s A"
    and Q: "\<And>t. cache_inv up t (A\<lparr>a_st := a_vol A, a_n := 0\<rparr>) \<Longrightarrow> same_fs s t \<Longrightarrow> Q () t"
    and C: "\<And>t. down (dsk t) (a_st A) \<or> down (dsk t) (a_vol A) \<Longrightarrow> C t"
  shows "wpm (ideflush ops) Q C s"
proof -
  have ok: "bufs_ok (bufs s) A" and view: "view_ok A" and d: "up (dsk s) (a_vol A) (a_st A) (a_n A)"
    using inv by (simp_all add: cache_inv_def)
  have ok': "bufs_ok (bufs s) (A\<lparr>a_st := a_vol A, a_n := 0\<rparr>)" using ok by (simp add: bufs_ok_def)
  have view': "view_ok (A\<lparr>a_st := a_vol A, a_n := 0\<rparr>)" using view by (simp add: view_ok_def)
  have "Q () (s\<lparr>dsk := d', fsstats := f\<rparr>)" if "up d' (a_vol A) (a_vol A) 0" for d' f
    using that ok' view' same_fsI [where s = s and d = d' and f = f and B = "bufs s"]
    by (intro Q) (simp_all add: cache_inv_def)
  then have "wp (op_flush ops) (\<lambda>d. Q () (s\<lparr>dsk := d, fsstats := nflush_update (\<lambda>n. u64 (n + 1)) (fsstats s)\<rparr>))
      (\<lambda>d. C (s\<lparr>dsk := d\<rparr>)) (dsk s)"
    using C by (intro wp_mono [OF flush_law [OF d]]) auto
  then show ?thesis by (simp add: ideflush_def unix_flush_def wpm_simps wpm_on_disk cong: wpm_cong)
qed

end

text \<open>The rules that do not involve the disk.\<close>

lemma wp_buf_data: "cache_inv up s A \<Longrightarrow> a_held A b = Some sec \<Longrightarrow> wpm (buf_get b b_data) Q C s = Q (a_view A sec) s"
  by (simp add: wpm_simps held_buf)

lemma wp_buf_store:
  assumes inv: "cache_inv up s A" and h: "a_held A b = Some sec"
    and f: "\<And>bf. b_data (f bf) = g (b_data bf)" "is_blk (g (a_view A sec))"
      "\<And>bf. same_buf (f bf) (bf\<lparr>b_data := g (b_data bf)\<rparr>)" "\<And>bf. b_next (f bf) = b_next bf" "\<And>bf. b_prev (f bf) = b_prev bf"
    and Q: "\<And>t. cache_inv up t (A\<lparr>a_view := (a_view A)(sec := g (a_view A sec))\<rparr>) \<Longrightarrow> same_fs s t \<Longrightarrow> Q () t"
  shows "wpm (buf_set b f) Q C s"
proof -
  note b = held_buf [OF inv h]
  let ?B = "(bufs s)(b := f (bufs s b))"
  have ok: "bufs_ok (bufs s) A" and view: "view_ok A" using inv by (simp_all add: cache_inv_def)
  have "sec \<in> ran (a_held A)" using h by (auto simp: ran_def)
  then have "view_ok (A\<lparr>a_view := (a_view A)(sec := g (a_view A sec))\<rparr>)" using view f(2) by (simp add: view_ok_def)
  moreover have "bufs_ok ?B (A\<lparr>a_view := (a_view A)(sec := g (a_view A sec))\<rparr>)"
    using b h f by (intro bufs_ok_upd [OF ok b(7)]) (auto simp: same_buf_def fun_upd_idem insert_absorb)
  ultimately have "Q () (s\<lparr>bufs := ?B\<rparr>)"
    using inv same_fsI [where s = s and d = "dsk s" and f = "fsstats s" and B = ?B] by (intro Q) (simp_all add: cache_inv_def)
  then show ?thesis by (simp add: wpm_simps)
qed

lemma wp_buf_dirty:
  assumes inv: "cache_inv up s A" and h: "a_held A b = Some sec"
    and Q: "\<And>t. cache_inv up t (A\<lparr>a_dirty := insert sec (a_dirty A)\<rparr>) \<Longrightarrow> same_fs s t \<Longrightarrow> Q () t"
  shows "wpm (buf_set b (\<lambda>bf. bf\<lparr>b_dirty := True\<rparr>)) Q C s"
proof -
  note b = held_buf [OF inv h]
  let ?B = "(bufs s)(b := (bufs s b)\<lparr>b_dirty := True\<rparr>)"
  have ok: "bufs_ok (bufs s) A" and view: "view_ok A" using inv by (simp_all add: cache_inv_def)
  have "view_ok (A\<lparr>a_dirty := insert sec (a_dirty A)\<rparr>)" using view by (simp add: view_ok_def)
  moreover have "bufs_ok ?B (A\<lparr>a_dirty := insert sec (a_dirty A)\<rparr>)"
    using b h by (intro bufs_ok_upd [OF ok b(7)]) (simp_all add: fun_upd_idem)
  ultimately have "Q () (s\<lparr>bufs := ?B\<rparr>)"
    using inv same_fsI [where s = s and d = "dsk s" and f = "fsstats s" and B = ?B] by (intro Q) (simp_all add: cache_inv_def)
  then show ?thesis by (simp add: wpm_simps)
qed

text \<open>A buffer is released when its changes are logged, or when it is as on the disk.\<close>

lemma wp_brelse:
  assumes inv: "cache_inv up s A" and h: "a_held A b = Some sec"
    and clean: "sec < N_LAS \<Longrightarrow> sec \<in> a_dirty A \<or> a_view A sec = blk (a_vol A) sec"
    and Q: "\<And>t. cache_inv up t (A\<lparr>a_held := (a_held A)(b := None)\<rparr>) \<Longrightarrow> same_fs s t \<Longrightarrow> Q () t"
  shows "wpm (brelse b) Q C s"
proof -
  note b = held_buf [OF inv h]
  let ?M = "moved_front b (bufs s)"
  let ?B = "?M(b := (?M b)\<lparr>b_busy := False\<rparr>)"
  have ok: "bufs_ok (bufs s) A" and view: "view_ok A" using inv by (simp_all add: cache_inv_def)
  obtain xs where "dll (bufs s) xs" using bufs_okD(1) [OF ok] by blast
  then have "dll ?M (b # remove1 b xs)" using b(1) by (rule dll_moved_front)
  then have ok': "bufs_ok ?M A" by (rule bufs_ok_same [where B' = ?M, OF ok moved_front_fields])
  have same: "same_buf (?M b) (bufs s b)" by (rule moved_front_fields)
  have c: "caches ?M b sec" using b(7) same by (simp add: caches_def same_buf_def)
  have "bufs_ok ?B (A\<lparr>a_held := (a_held A)(b := None)\<rparr>)"
    using b h same by (intro bufs_ok_upd [OF ok' c]) (simp_all add: same_buf_def fun_upd_idem insert_absorb)
  moreover have "view_ok (A\<lparr>a_held := (a_held A)(b := None)\<rparr>)"
  proof -
    have "sec' \<notin> ran (a_held A)" if "sec' \<notin> ran ((a_held A)(b := None))" "sec' \<noteq> sec" for sec'
      using that h by (clarsimp simp: ran_def) (metis option.inject)
    then show ?thesis using view clean by (auto simp: view_ok_def)
  qed
  ultimately have "Q () (s\<lparr>bufs := ?B\<rparr>)"
    using inv same_fsI [where s = s and d = "dsk s" and f = "fsstats s" and B = ?B] by (intro Q) (simp_all add: cache_inv_def)
  then show ?thesis using b by (simp add: wpm_brelse Let_def)
qed

end
