(* ===== verification/Layout.thy ===== *)
theory Layout
  imports BufCache
begin

text \<open>
  The on-disk format, \<^verbatim>\<open>xv6/fs.h\<close>: little-endian integers in the bytes of a block, the super
  block, the inodes and the directory entries. Writing a field and reading it back gives the value, and
  fields do not overlap.
\<close>

section \<open>Integers in a block\<close>

definition get16 :: "bytes \<Rightarrow> nat \<Rightarrow> nat" where
  "get16 d o' = d o' + 256 * d (o' + 1)"

definition put16 :: "nat \<Rightarrow> nat \<Rightarrow> bytes \<Rightarrow> bytes" where
  "put16 o' v d = d(o' := v mod 256, o' + 1 := v div 256 mod 256)"

definition get32 :: "bytes \<Rightarrow> nat \<Rightarrow> nat" where
  "get32 d o' = d o' + 256 * d (o' + 1) + 65536 * d (o' + 2) + 16777216 * d (o' + 3)"

definition put32 :: "nat \<Rightarrow> nat \<Rightarrow> bytes \<Rightarrow> bytes" where
  "put32 o' v d = d(o' := v mod 256, o' + 1 := v div 256 mod 256, o' + 2 := v div 65536 mod 256, o' + 3 := v div 16777216 mod 256)"

text \<open>A \<^verbatim>\<open>short\<close> is signed.\<close>

definition s16 :: "int \<Rightarrow> int" where
  "s16 x = (x + 32768) mod 65536 - 32768"

definition get_short :: "bytes \<Rightarrow> nat \<Rightarrow> int" where
  "get_short d o' = s16 (int (get16 d o'))"

definition put_short :: "nat \<Rightarrow> int \<Rightarrow> bytes \<Rightarrow> bytes" where
  "put_short o' v = put16 o' (nat (v mod 65536))"

lemma s16_id [simp]: "-32768 \<le> x \<Longrightarrow> x < 32768 \<Longrightarrow> s16 x = x"
  by (simp add: s16_def)

lemma digits4:
  assumes "v < (4294967296 :: nat)"
  shows "v mod 256 + 256 * (v div 256 mod 256) + 65536 * (v div 65536 mod 256) + 16777216 * (v div 16777216 mod 256) = v"
proof -
  have 1: "v = 256 * (v div 256) + v mod 256" by simp
  have 2: "v div 256 = 256 * (v div 65536) + v div 256 mod 256" using div_mult2_eq [of v 256 256] by simp
  have 3: "v div 65536 = 256 * (v div 16777216) + v div 65536 mod 256" using div_mult2_eq [of v 65536 256] by simp
  have "v div 16777216 < 256" using assms by (simp add: less_mult_imp_div_less)
  then have "v div 16777216 mod 256 = v div 16777216" by simp
  then show ?thesis using 1 2 3 by linarith
qed

lemma get32_put32 [simp]: "v < 4294967296 \<Longrightarrow> get32 (put32 o' v d) o' = v"
  using digits4 [of v] by (simp add: get32_def put32_def)

lemma get16_put16 [simp]: "v < 65536 \<Longrightarrow> get16 (put16 o' v d) o' = v"
proof -
  assume "v < 65536"
  then have "v div 256 mod 256 = v div 256" by (simp add: less_mult_imp_div_less)
  then show ?thesis by (simp add: get16_def put16_def)
qed

lemma get_put_short [simp]:
  assumes "-32768 \<le> v" "v < 32768"
  shows "get_short (put_short o' v d) o' = v"
proof -
  have "nat (v mod 65536) < 65536" by (simp add: nat_less_iff)
  then have "get_short (put_short o' v d) o' = s16 (v mod 65536)"
    by (simp add: get_short_def put_short_def)
  also have "\<dots> = s16 v" by (simp add: s16_def mod_add_left_eq)
  finally show ?thesis using assms by simp
qed

text \<open>Fields that do not overlap.\<close>

lemma put_other:
  "p < o' \<or> o' + 4 \<le> p \<Longrightarrow> put32 o' v d p = d p"
  "p < o' \<or> o' + 2 \<le> p \<Longrightarrow> put16 o' v d p = d p"
  "p < o' \<or> o' + 2 \<le> p \<Longrightarrow> put_short o' w d p = d p"
  by (auto simp: put32_def put16_def put_short_def)

lemma get_cong:
  "(\<And>i. i < 4 \<Longrightarrow> d (p + i) = e (p + i)) \<Longrightarrow> get32 d p = get32 e p"
  "(\<And>i. i < 2 \<Longrightarrow> d (p + i) = e (p + i)) \<Longrightarrow> get_short d p = get_short e p"
  "(\<And>i. i < 2 \<Longrightarrow> d (p + i) = e (p + i)) \<Longrightarrow> get16 d p = get16 e p"
proof -
  show "get32 d p = get32 e p" if "\<And>i. i < 4 \<Longrightarrow> d (p + i) = e (p + i)"
    using that [of 0] that [of 1] that [of 2] that [of 3] by (simp add: get32_def)
  show 16: "get16 d p = get16 e p" if "\<And>i. i < 2 \<Longrightarrow> d (p + i) = e (p + i)"
    using that [of 0] that [of 1] by (simp add: get16_def)
  show "get_short d p = get_short e p" if "\<And>i. i < 2 \<Longrightarrow> d (p + i) = e (p + i)"
    using 16 [OF that] by (simp add: get_short_def)
qed

lemma is_blk_put [simp]:
  "is_blk d \<Longrightarrow> o' + 4 \<le> BSIZE \<Longrightarrow> is_blk (put32 o' v d)"
  "is_blk d \<Longrightarrow> o' + 2 \<le> BSIZE \<Longrightarrow> is_blk (put16 o' v d)"
  "is_blk d \<Longrightarrow> o' + 2 \<le> BSIZE \<Longrightarrow> is_blk (put_short o' w d)"
  by (auto simp: is_blk_def put32_def put16_def put_short_def)

lemma get32_less: "is_blk d \<Longrightarrow> get32 d p < 4294967296"
  using is_blkD [of d p] is_blkD [of d "p + 1"] is_blkD [of d "p + 2"] is_blkD [of d "p + 3"] by (simp add: get32_def)

lemma get16_less: "is_blk d \<Longrightarrow> get16 d p < 65536"
  using is_blkD [of d p] is_blkD [of d "p + 1"] by (simp add: get16_def)

text \<open>\<^verbatim>\<open>memset\<close> and \<^verbatim>\<open>memmove\<close> of bytes.\<close>

definition set_bytes :: "nat \<Rightarrow> nat \<Rightarrow> nat \<Rightarrow> bytes \<Rightarrow> bytes" where
  "set_bytes o' v n d = fold (\<lambda>i d. d(o' + i := u8 v)) [0..<n] d"

definition move_bytes :: "nat \<Rightarrow> bytes \<Rightarrow> nat \<Rightarrow> nat \<Rightarrow> bytes \<Rightarrow> bytes" where
  "move_bytes o' src p n d = fold (\<lambda>i d. d(o' + i := u8 (src (p + i)))) [0..<n] d"

lemma set_bytes_apply: "set_bytes o' v n d j = (if o' \<le> j \<and> j < o' + n then u8 v else d j)"
  unfolding set_bytes_def by (induction n) auto

lemma move_bytes_apply: "move_bytes o' src p n d j = (if o' \<le> j \<and> j < o' + n then u8 (src (p + (j - o'))) else d j)"
  unfolding move_bytes_def by (induction n) auto

lemma is_blk_set [simp]: "is_blk d \<Longrightarrow> o' + n \<le> BSIZE \<Longrightarrow> is_blk (set_bytes o' v n d)"
  by (auto simp: is_blk_def set_bytes_apply u8_def)

lemma is_blk_move [simp]: "is_blk d \<Longrightarrow> o' + n \<le> BSIZE \<Longrightarrow> is_blk (move_bytes o' src p n d)"
  by (auto simp: is_blk_def move_bytes_apply u8_def)

definition zero_blk :: bytes where
  "zero_blk = (\<lambda>_. 0)"

lemma is_blk_zero [simp]: "is_blk zero_blk"
  by (simp add: is_blk_def zero_blk_def)

lemma set_bytes_zero: "is_blk d \<Longrightarrow> set_bytes 0 0 BSIZE d = zero_blk"
  by (auto simp: fun_eq_iff set_bytes_apply zero_blk_def is_blk_def u8_def)

section \<open>fs.h\<close>

definition ROOTINO :: nat where "ROOTINO = 1"
definition NDIRECT :: nat where "NDIRECT = 8"
definition NINDIRECT :: nat where "NINDIRECT = BSIZE div 4"
definition NDINDIRECT :: nat where "NDINDIRECT = NINDIRECT * NINDIRECT"
definition MAXFILE :: nat where "MAXFILE = NDIRECT + NINDIRECT + NDINDIRECT"

text \<open>\<^verbatim>\<open>sizeof(struct dinode)\<close>, with the two indirect addresses that \<^verbatim>\<open>HWBIGF\<close> gives.\<close>

definition DINODE_SIZE :: nat where "DINODE_SIZE = 4 * 2 + 4 * 4 + (NDIRECT + 2) * 4"
definition IPB :: nat where "IPB = BSIZE div DINODE_SIZE"
definition IBLOCK :: "nat \<Rightarrow> nat" where "IBLOCK i = i div IPB + 2"
definition BPB :: nat where "BPB = BSIZE * 8"
definition BBLOCK :: "nat \<Rightarrow> nat \<Rightarrow> nat" where "BBLOCK b ninodes = b div BPB + ninodes div IPB + 3"
definition DIRSIZ :: nat where "DIRSIZ = 62"

text \<open>\<^verbatim>\<open>sizeof(struct dirent)\<close>\<close>

definition DIRENT_SIZE :: nat where "DIRENT_SIZE = 2 + DIRSIZ"

lemma fs_vals [macros]:
  "ROOTINO = 1" "NDIRECT = 8" "NINDIRECT = 1024" "NDINDIRECT = 1048576" "MAXFILE = 1049608" "DINODE_SIZE = 64" "IPB = 64"
  "BPB = 32768" "DIRSIZ = 62" "DIRENT_SIZE = 64"
  by (simp_all add: ROOTINO_def NDIRECT_def NINDIRECT_def NDINDIRECT_def MAXFILE_def DINODE_SIZE_def IPB_def BPB_def DIRSIZ_def
      DIRENT_SIZE_def BSIZE_def)

definition T_DIR :: int where "T_DIR = 1"
definition T_FILE :: int where "T_FILE = 2"
definition T_DEV :: int where "T_DEV = 3"
definition T_SOCK :: int where "T_SOCK = 4"

lemma type_vals [simp]: "T_DIR = 1" "T_FILE = 2" "T_DEV = 3" "T_SOCK = 4"
  by (simp_all add: T_DIR_def T_FILE_def T_DEV_def T_SOCK_def)

record superblock =
  sb_size :: nat
  sb_nblocks :: nat
  sb_ninodes :: nat
  sb_nlog :: nat

definition get_sb :: "bytes \<Rightarrow> superblock" where
  "get_sb d = \<lparr>sb_size = get32 d 0, sb_nblocks = get32 d 4, sb_ninodes = get32 d 8, sb_nlog = get32 d 12\<rparr>"

definition put_sb :: "superblock \<Rightarrow> bytes \<Rightarrow> bytes" where
  "put_sb sb d = put32 12 (sb_nlog sb) (put32 8 (sb_ninodes sb) (put32 4 (sb_nblocks sb) (put32 0 (sb_size sb) d)))"

text \<open>An inode on the disk, at its place in the block; \<open>d_addrs\<close> has \<open>NDIRECT + 2\<close> entries.\<close>

record dinode =
  d_type :: int
  d_major :: int
  d_minor :: int
  d_nlink :: int
  d_size :: nat
  d_ctime :: nat
  d_atime :: nat
  d_mtime :: nat
  d_addrs :: "nat \<Rightarrow> nat"

definition get_dinode :: "bytes \<Rightarrow> nat \<Rightarrow> dinode" where
  "get_dinode d k = (let o' = k * DINODE_SIZE in
     \<lparr>d_type = get_short d o', d_major = get_short d (o' + 2), d_minor = get_short d (o' + 4), d_nlink = get_short d (o' + 6),
      d_size = get32 d (o' + 8), d_ctime = get32 d (o' + 12), d_atime = get32 d (o' + 16), d_mtime = get32 d (o' + 20),
      d_addrs = (\<lambda>i. get32 d (o' + 24 + 4 * i))\<rparr>)"

text \<open>The first \<open>n\<close> addresses of an inode in the block.\<close>

definition put_addrs :: "nat \<Rightarrow> (nat \<Rightarrow> nat) \<Rightarrow> nat \<Rightarrow> bytes \<Rightarrow> bytes" where
  "put_addrs o' a n d = fold (\<lambda>i. put32 (o' + 24 + 4 * i) (a i)) [0..<n] d"

definition put_dinode :: "nat \<Rightarrow> dinode \<Rightarrow> nat \<Rightarrow> bytes \<Rightarrow> bytes" where
  "put_dinode k di n d = (let o' = k * DINODE_SIZE in
     put_addrs o' (d_addrs di) n
      (put32 (o' + 20) (d_mtime di) (put32 (o' + 16) (d_atime di) (put32 (o' + 12) (d_ctime di) (put32 (o' + 8) (d_size di)
      (put_short (o' + 6) (d_nlink di) (put_short (o' + 4) (d_minor di) (put_short (o' + 2) (d_major di) (put_short o' (d_type di) d)))))))))"

section \<open>Round trips\<close>

lemma get_put_disjoint:
  "p + 4 \<le> q \<or> q + 4 \<le> p \<Longrightarrow> get32 (put32 q v d) p = get32 d p"
  "p + 4 \<le> q \<or> q + 2 \<le> p \<Longrightarrow> get32 (put_short q w d) p = get32 d p"
  "p + 2 \<le> q \<or> q + 4 \<le> p \<Longrightarrow> get_short (put32 q v d) p = get_short d p"
  "p + 2 \<le> q \<or> q + 2 \<le> p \<Longrightarrow> get_short (put_short q w d) p = get_short d p"
  by (rule get_cong; auto simp: put_other)+

lemma put_addrs_other: "p < o' + 24 \<or> o' + 24 + 4 * n \<le> p \<Longrightarrow> put_addrs o' a n d p = d p"
  unfolding put_addrs_def by (induction n) (auto simp: put_other)

lemma get_put_addrs_disjoint:
  "p + 4 \<le> o' + 24 \<or> o' + 24 + 4 * n \<le> p \<Longrightarrow> get32 (put_addrs o' a n d) p = get32 d p"
  "p + 2 \<le> o' + 24 \<or> o' + 24 + 4 * n \<le> p \<Longrightarrow> get_short (put_addrs o' a n d) p = get_short d p"
  by (rule get_cong; auto simp: put_addrs_other)+

lemma get_put_addrs: "i < n \<Longrightarrow> a i < 4294967296 \<Longrightarrow> get32 (put_addrs o' a n d) (o' + 24 + 4 * i) = a i"
proof (induction n)
  case (Suc n)
  have eq: "put_addrs o' a (Suc n) d = put32 (o' + 24 + 4 * n) (a n) (put_addrs o' a n d)" by (simp add: put_addrs_def)
  show ?case
  proof (cases "i = n")
    case True
    then show ?thesis using Suc.prems by (simp add: eq)
  next
    case False
    then show ?thesis using Suc by (simp add: eq get_put_disjoint)
  qed
qed simp

lemma is_blk_put_addrs [simp]: "is_blk d \<Longrightarrow> o' + 24 + 4 * n \<le> BSIZE \<Longrightarrow> is_blk (put_addrs o' a n d)"
  unfolding put_addrs_def by (induction n) auto

lemma get_put_sb:
  assumes "sb_size sb < 4294967296" "sb_nblocks sb < 4294967296" "sb_ninodes sb < 4294967296" "sb_nlog sb < 4294967296"
  shows "get_sb (put_sb sb d) = sb"
  using assms by (simp add: get_sb_def put_sb_def get_put_disjoint)

text \<open>An inode with the values of the fields in their ranges.\<close>

definition short_ok :: "int \<Rightarrow> bool" where
  "short_ok x \<longleftrightarrow> -32768 \<le> x \<and> x < 32768"

definition dinode_ok :: "dinode \<Rightarrow> bool" where
  "dinode_ok di \<longleftrightarrow> short_ok (d_type di) \<and> short_ok (d_major di) \<and> short_ok (d_minor di) \<and> short_ok (d_nlink di)
     \<and> d_size di < 4294967296 \<and> d_ctime di < 4294967296 \<and> d_atime di < 4294967296 \<and> d_mtime di < 4294967296
     \<and> (\<forall>i. d_addrs di i < 4294967296)"

lemma get_put_dinode:
  fixes d :: bytes and k :: nat
  assumes ok: "dinode_ok di" and n: "n \<le> NDIRECT + 2"
  defines "g \<equiv> get_dinode (put_dinode k di n d) k"
  shows "d_type g = d_type di" "d_major g = d_major di" "d_minor g = d_minor di" "d_nlink g = d_nlink di" "d_size g = d_size di"
    "d_ctime g = d_ctime di" "d_atime g = d_atime di" "d_mtime g = d_mtime di" "i < n \<Longrightarrow> d_addrs g i = d_addrs di i"
    "n \<le> i \<Longrightarrow> d_addrs g i = d_addrs (get_dinode d k) i"
  using ok by (simp_all add: g_def get_dinode_def put_dinode_def Let_def dinode_ok_def short_ok_def get_put_disjoint
      get_put_addrs get_put_addrs_disjoint)

lemma put_dinode_other:
  assumes "n \<le> NDIRECT + 2" "p < k * DINODE_SIZE \<or> k * DINODE_SIZE + DINODE_SIZE \<le> p"
  shows "put_dinode k di n d p = d p"
proof -
  let ?o = "k * DINODE_SIZE"
  have "?o + 24 + 4 * n \<le> ?o + DINODE_SIZE" using assms(1) by (simp add: macros)
  then show ?thesis
    using assms(2) by (auto simp: put_dinode_def Let_def put_addrs_other put_other macros)
qed

lemma get_put_dinode_other:
  assumes "n \<le> NDIRECT + 2" "j \<noteq> k"
  shows "p + 2 \<le> DINODE_SIZE \<Longrightarrow> get_short (put_dinode k di n d) (j * DINODE_SIZE + p) = get_short d (j * DINODE_SIZE + p)"
    "q + 4 \<le> DINODE_SIZE \<Longrightarrow> get32 (put_dinode k di n d) (j * DINODE_SIZE + q) = get32 d (j * DINODE_SIZE + q)"
proof -
  have out: "r < k * DINODE_SIZE \<or> k * DINODE_SIZE + DINODE_SIZE \<le> r" if "j * DINODE_SIZE \<le> r" "r < j * DINODE_SIZE + DINODE_SIZE" for r
    using assms(2) that by (cases "j < k") (auto simp: macros)
  show "get_short (put_dinode k di n d) (j * DINODE_SIZE + p) = get_short d (j * DINODE_SIZE + p)" if "p + 2 \<le> DINODE_SIZE"
    by (rule get_cong, rule put_dinode_other [OF assms(1)], rule out) (use that in auto)
  show "get32 (put_dinode k di n d) (j * DINODE_SIZE + q) = get32 d (j * DINODE_SIZE + q)" if "q + 4 \<le> DINODE_SIZE"
    by (rule get_cong, rule put_dinode_other [OF assms(1)], rule out) (use that in auto)
qed

lemma is_blk_put_dinode [simp]:
  assumes "is_blk d" "k < IPB" "n \<le> NDIRECT + 2"
  shows "is_blk (put_dinode k di n d)"
  using assms by (auto simp: put_dinode_def Let_def macros)

end
