(* ===== verification/XvLog.thy ===== *)
theory XvLog
  imports Layout
begin

text \<open>
  The four logs of the file system. \<^verbatim>\<open>xv6/sclog.c\<close> relies on the snapshots of the disk: a commit
  writes the blocks in place and flushes once. \<^verbatim>\<open>xv6/sclog-gcm.c\<close> flushes only every 200
  commits. \<^verbatim>\<open>xv6/synclog.c\<close> and \<^verbatim>\<open>xv6/asynclog.c\<close> are write-ahead logs; the second
  flushes around the header. Each gives the operations \<open>begin_op\<close>, \<open>end_op\<close> and
  \<open>log_write\<close> of an environment.
\<close>

definition s32 :: "nat \<Rightarrow> int" where
  "s32 n = (int n + 2147483648) mod 4294967296 - 2147483648"

section \<open>Shared functions\<close>

definition readsb :: "'d disk_ops \<Rightarrow> nat \<Rightarrow> ('d xv6, superblock) prog" where
  "readsb D dev = call (bread D dev 1) (\<lambda>bp. call (buf_get bp b_data) (\<lambda>d.
     after [brelse bp] (ret (get_sb d))))"

text \<open>\<open>sleep\<close> returns at once: a caller that has to wait waits forever.\<close>

definition begin_op :: "('d xv6, unit) prog" where
  "begin_op = loop (\<lambda>_ :: unit. call (gets id) (\<lambda>s.
     if committing s then ret (Inl ())
     else if lh_n s + (outstanding s + 1) * int MAXOPBLOCKS > int LOGSIZE then ret (Inl ())
     else after [modify (\<lambda>s. s\<lparr>outstanding := outstanding s + 1\<rparr>)] (ret (Inr ())))) ()"

definition end_op :: "('d xv6, unit) prog \<Rightarrow> ('d xv6, unit) prog" where
  "end_op commit = steps [
     modify (\<lambda>s. s\<lparr>outstanding := outstanding s - 1\<rparr>),
     call (gets committing) (\<lambda>c. if c then panicp ''thelog.committing'' else ret ()),
     call (gets outstanding) (\<lambda>n. if n = 0
       then steps [
         modify (\<lambda>s. s\<lparr>committing := True\<rparr>),
         commit,
         modify (\<lambda>s. s\<lparr>committing := False\<rparr>)]
       else ret ())]"

text \<open>The loop of \<open>log_write\<close>: the place of the sector in the header, or the first free one.\<close>

definition log_index :: "nat \<Rightarrow> ('d xv6, nat) prog" where
  "log_index sec = call (gets lh_n) (\<lambda>n.
     call (for_each [0..<nat n] (\<lambda>i. after [check (i < LOGSIZE)]
       (call (gets (\<lambda>s. lh_sector s i)) (\<lambda>x. ret (if x = sec then Some i else None)))))
     (\<lambda>r. ret (case r of Some i \<Rightarrow> i | None \<Rightarrow> nat n)))"

definition log_append :: "nat \<Rightarrow> ('d xv6, unit) prog" where
  "log_append b = call (buf_get b b_sector) (\<lambda>sec. call (log_index sec) (\<lambda>i. steps [
     check (i < LOGSIZE),
     modify (\<lambda>s. s\<lparr>lh_sector := (lh_sector s)(i := sec)\<rparr>),
     call (gets lh_n) (\<lambda>n. provided (int i = n) (modify (\<lambda>s. s\<lparr>lh_n := lh_n s + 1\<rparr>))),
     buf_set b (\<lambda>bf. bf\<lparr>b_dirty := True\<rparr>)]))"

text \<open>The common part of the functions \<open>initlog\<close>.\<close>

definition log_setup :: "'d disk_ops \<Rightarrow> ('d xv6, unit) prog" where
  "log_setup D = (if 4 * (1 + LOGSIZE) \<ge> BSIZE then panicp ''initlog: too big logheader''
     else call (readsb D ROOTDEV) (\<lambda>sb. steps [
       modify (\<lambda>s. s\<lparr>log_start := sub32 (sb_size sb) (sb_nlog sb)\<rparr>),
       modify (\<lambda>s. s\<lparr>log_size := sb_nlog sb\<rparr>),
       modify (\<lambda>s. s\<lparr>log_dev := ROOTDEV\<rparr>)]))"

section \<open>sclog.c\<close>

definition sc_initlog :: "'d disk_ops \<Rightarrow> ('d xv6, unit) prog" where
  "sc_initlog D = steps [log_setup D, modify (\<lambda>s. s\<lparr>lh_n := 0\<rparr>)]"

definition sc_write_log :: "'d disk_ops \<Rightarrow> ('d xv6, unit) prog" where
  "sc_write_log D = call (gets lh_n) (\<lambda>n. for_all [0..<nat n] (\<lambda>tail. steps [
     check (tail < LOGSIZE),
     call (gets (\<lambda>s. (log_dev s, lh_sector s tail))) (\<lambda>(dev, sec).
       call (bread D dev sec) (\<lambda>from. steps [
         bwrite D from,
         brelse from]))]))"

definition sc_commit :: "'d disk_ops \<Rightarrow> ('d xv6, unit) prog" where
  "sc_commit D = call (gets lh_n) (\<lambda>n. steps [
     provided (n > 0) (sc_write_log D),
     modify (\<lambda>s. s\<lparr>lh_n := 0\<rparr>),
     ideflush D])"

definition sc_end_op :: "'d disk_ops \<Rightarrow> ('d xv6, unit) prog" where
  "sc_end_op D = end_op (sc_commit D)"

definition sc_log_write :: "nat \<Rightarrow> ('d xv6, unit) prog" where
  "sc_log_write b = call (gets outstanding) (\<lambda>n.
     if n < 1 then panicp ''log_write outside of trans'' else log_append b)"

definition sclog :: "'d disk_ops \<Rightarrow> 'd env" where
  "sclog D = \<lparr>e_disk = D, e_begin_op = begin_op, e_end_op = sc_end_op D, e_log_write = sc_log_write\<rparr>"

section \<open>sclog-gcm.c\<close>

text \<open>Every function but \<open>commit\<close> is that of \<^verbatim>\<open>xv6/sclog.c\<close>.\<close>

definition gcm_initlog :: "'d disk_ops \<Rightarrow> ('d xv6, unit) prog" where
  "gcm_initlog D = sc_initlog D"

definition gcm_write_log :: "'d disk_ops \<Rightarrow> ('d xv6, unit) prog" where
  "gcm_write_log D = sc_write_log D"

definition gcm_log_write :: "nat \<Rightarrow> ('d xv6, unit) prog" where
  "gcm_log_write b = sc_log_write b"

definition gcm_commit :: "'d disk_ops \<Rightarrow> ('d xv6, unit) prog" where
  "gcm_commit D = call (gets lh_n) (\<lambda>n. steps [
     provided (n > 0) (steps [
       gcm_write_log D,
       modify (\<lambda>s. s\<lparr>acc_commit := acc_commit s + 1\<rparr>)]),
     modify (\<lambda>s. s\<lparr>lh_n := 0\<rparr>),
     call (gets acc_commit) (\<lambda>k. provided (k = 200) (steps [
       modify (\<lambda>s. s\<lparr>acc_commit := 0\<rparr>),
       ideflush D]))])"

definition gcm_end_op :: "'d disk_ops \<Rightarrow> ('d xv6, unit) prog" where
  "gcm_end_op D = end_op (gcm_commit D)"

definition sclog_gcm :: "'d disk_ops \<Rightarrow> 'd env" where
  "sclog_gcm D = \<lparr>e_disk = D, e_begin_op = begin_op, e_end_op = gcm_end_op D, e_log_write = gcm_log_write\<rparr>"

section \<open>synclog.c and asynclog.c\<close>

text \<open>The two files differ in the flushes of \<open>write_head\<close>, which \<open>barrier\<close> stands for.\<close>

definition install_trans :: "'d disk_ops \<Rightarrow> ('d xv6, unit) prog" where
  "install_trans D = call (gets lh_n) (\<lambda>n. for_all [0..<nat n] (\<lambda>tail. steps [
     check (tail < LOGSIZE),
     call (gets (\<lambda>s. (log_dev s, log_start s, lh_sector s tail))) (\<lambda>(dev, start, sec).
       call (bread D dev (start + tail + 1)) (\<lambda>lbuf. call (bread D dev sec) (\<lambda>dbuf. steps [
         call (buf_get lbuf b_data) (\<lambda>d. buf_set dbuf (\<lambda>bf. bf\<lparr>b_data := move_bytes 0 d 0 BSIZE (b_data bf)\<rparr>)),
         bwrite D dbuf,
         brelse lbuf,
         brelse dbuf])))]))"

definition read_head :: "'d disk_ops \<Rightarrow> ('d xv6, unit) prog" where
  "read_head D = call (gets (\<lambda>s. (log_dev s, log_start s))) (\<lambda>(dev, start).
     call (bread D dev start) (\<lambda>b. call (buf_get b b_data) (\<lambda>d. steps [
       modify (\<lambda>s. s\<lparr>lh_n := s32 (get32 d 0)\<rparr>),
       for_all [0..<nat (s32 (get32 d 0))] (\<lambda>i. steps [
         check (i < LOGSIZE),
         modify (\<lambda>s. s\<lparr>lh_sector := (lh_sector s)(i := get32 d (4 + 4 * i))\<rparr>)]),
       brelse b])))"

definition write_head :: "'d disk_ops \<Rightarrow> ('d xv6, unit) prog \<Rightarrow> ('d xv6, unit) prog" where
  "write_head D barrier = steps [
     barrier,
     call (gets (\<lambda>s. (log_dev s, log_start s))) (\<lambda>(dev, start).
     call (bread D dev start) (\<lambda>buf. steps [
       call (gets lh_n) (\<lambda>n. buf_set buf (\<lambda>bf. bf\<lparr>b_data := put32 0 (nat (n mod 4294967296)) (b_data bf)\<rparr>)),
       call (gets lh_n) (\<lambda>n. for_all [0..<nat n] (\<lambda>i. steps [
         check (i < LOGSIZE),
         call (gets (\<lambda>s. lh_sector s i)) (\<lambda>x. buf_set buf (\<lambda>bf. bf\<lparr>b_data := put32 (4 + 4 * i) x (b_data bf)\<rparr>))])),
       bwrite D buf,
       barrier,
       brelse buf]))]"

definition recover_from_log :: "'d disk_ops \<Rightarrow> ('d xv6, unit) prog \<Rightarrow> ('d xv6, unit) prog" where
  "recover_from_log D barrier = steps [
     read_head D,
     install_trans D,
     modify (\<lambda>s. s\<lparr>lh_n := 0\<rparr>),
     write_head D barrier]"

definition wal_initlog :: "'d disk_ops \<Rightarrow> ('d xv6, unit) prog \<Rightarrow> ('d xv6, unit) prog" where
  "wal_initlog D barrier = steps [log_setup D, recover_from_log D barrier]"

definition wal_write_log :: "'d disk_ops \<Rightarrow> ('d xv6, unit) prog" where
  "wal_write_log D = call (gets lh_n) (\<lambda>n. for_all [0..<nat n] (\<lambda>tail. steps [
     check (tail < LOGSIZE),
     call (gets (\<lambda>s. (log_dev s, log_start s, lh_sector s tail))) (\<lambda>(dev, start, sec).
       call (bread D dev (start + tail + 1)) (\<lambda>to. call (bread D dev sec) (\<lambda>from. steps [
         call (buf_get from b_data) (\<lambda>d. buf_set to (\<lambda>bf. bf\<lparr>b_data := move_bytes 0 d 0 BSIZE (b_data bf)\<rparr>)),
         bwrite D to,
         brelse from,
         brelse to])))]))"

definition wal_commit :: "'d disk_ops \<Rightarrow> ('d xv6, unit) prog \<Rightarrow> ('d xv6, unit) prog" where
  "wal_commit D barrier = call (gets lh_n) (\<lambda>n. provided (n > 0) (steps [
     wal_write_log D,
     write_head D barrier,
     install_trans D,
     modify (\<lambda>s. s\<lparr>lh_n := 0\<rparr>),
     write_head D barrier]))"

definition wal_end_op :: "'d disk_ops \<Rightarrow> ('d xv6, unit) prog \<Rightarrow> ('d xv6, unit) prog" where
  "wal_end_op D barrier = end_op (wal_commit D barrier)"

definition wal_log_write :: "nat \<Rightarrow> ('d xv6, unit) prog" where
  "wal_log_write b = call (gets (\<lambda>s. (lh_n s, log_size s))) (\<lambda>(n, size).
     if n \<ge> int LOGSIZE \<or> n \<ge> int size - 1 then panicp ''too big a transaction''
     else call (gets outstanding) (\<lambda>k. if k < 1 then panicp ''log_write outside of trans'' else log_append b))"

definition sync_initlog :: "'d disk_ops \<Rightarrow> ('d xv6, unit) prog" where
  "sync_initlog D = wal_initlog D (ret ())"

definition sync_end_op :: "'d disk_ops \<Rightarrow> ('d xv6, unit) prog" where
  "sync_end_op D = wal_end_op D (ret ())"

definition async_initlog :: "'d disk_ops \<Rightarrow> ('d xv6, unit) prog" where
  "async_initlog D = wal_initlog D (ideflush D)"

definition async_write_head :: "'d disk_ops \<Rightarrow> ('d xv6, unit) prog" where
  "async_write_head D = write_head D (ideflush D)"

definition async_recover_from_log :: "'d disk_ops \<Rightarrow> ('d xv6, unit) prog" where
  "async_recover_from_log D = recover_from_log D (ideflush D)"

definition async_commit :: "'d disk_ops \<Rightarrow> ('d xv6, unit) prog" where
  "async_commit D = wal_commit D (ideflush D)"

definition async_end_op :: "'d disk_ops \<Rightarrow> ('d xv6, unit) prog" where
  "async_end_op D = wal_end_op D (ideflush D)"

definition synclog :: "'d disk_ops \<Rightarrow> 'd env" where
  "synclog D = \<lparr>e_disk = D, e_begin_op = begin_op, e_end_op = sync_end_op D, e_log_write = wal_log_write\<rparr>"

definition asynclog :: "'d disk_ops \<Rightarrow> 'd env" where
  "asynclog D = \<lparr>e_disk = D, e_begin_op = begin_op, e_end_op = async_end_op D, e_log_write = wal_log_write\<rparr>"

end
