(* ===== verification/LogInv.thy ===== *)
theory LogInv
  imports XvLog
begin

text \<open>
  Transactions. The sectors in the header of the log are those of the dirty buffers; \<open>begin_op\<close> and
  \<open>log_write\<close> keep that, and \<open>commit\<close> of \<^verbatim>\<open>xv6/sclog.c\<close> makes the transaction
  the snapshot of the disk in one step.
\<close>

section \<open>The header\<close>

definition log_list :: "'d xv6 \<Rightarrow> nat list" where
  "log_list s = map (lh_sector s) [0..<nat (lh_n s)]"

definition log_ok :: "'d xv6 \<Rightarrow> acache \<Rightarrow> bool" where
  "log_ok s A \<longleftrightarrow> 0 \<le> lh_n s \<and> lh_n s \<le> int LOGSIZE \<and> distinct (log_list s) \<and> set (log_list s) = a_dirty A
     \<and> log_dev s = ROOTDEV"

lemma log_list_cong: "lh_n t = lh_n s \<Longrightarrow> lh_sector t = lh_sector s \<Longrightarrow> log_list t = log_list s"
  by (simp add: log_list_def)

lemma log_ok_same:
  assumes "log_ok s A" "same_fs s t" "a_dirty A' = a_dirty A"
  shows "log_ok t A'"
  using assms same_fsD [OF assms(2)] log_list_cong [of t s] by (simp add: log_ok_def)

lemma log_ok_card: "log_ok s A \<Longrightarrow> finite (a_dirty A) \<and> card (a_dirty A) = nat (lh_n s) \<and> card (a_dirty A) \<le> LOGSIZE"
  using distinct_card [of "log_list s"] finite_set [of "log_list s"] unfolding log_ok_def by (auto simp: log_list_def)

lemma same_fs_lh:
  assumes "same_fs s t"
  shows "same_fs (s\<lparr>lh_n := n\<rparr>) (t\<lparr>lh_n := n\<rparr>)"
proof -
  obtain d f B where "t = s\<lparr>dsk := d, fsstats := f, bufs := B\<rparr>" using assms by (auto simp: same_fs_def)
  then have "t\<lparr>lh_n := n\<rparr> = s\<lparr>lh_n := n\<rparr>\<lparr>dsk := d, fsstats := f, bufs := B\<rparr>" by simp
  then show ?thesis unfolding same_fs_def by blast
qed

text \<open>While a transaction is not too big there is room in the cache for the buffers held.\<close>

lemma log_room:
  assumes "log_ok s A" "finite (dom (a_held A))" "card (dom (a_held A)) \<le> 8000"
  shows "room A"
  using log_ok_card [OF assms(1)] assms(2,3) by (simp add: room_def macros)

section \<open>begin_op and log_write\<close>

lemma wp_begin_op:
  assumes "\<not> committing s" "lh_n s + (outstanding s + 1) * 10 \<le> 30" "Q () (s\<lparr>outstanding := outstanding s + 1\<rparr>)"
  shows "wpm begin_op Q C s"
  using assms by (simp add: begin_op_def wpm_simps wpm_loop_unfold macros)

lemma wp_log_index:
  assumes n: "0 \<le> lh_n s" "lh_n s \<le> int LOGSIZE"
  shows "wpm (log_index sec) Q C s = Q (case find (\<lambda>i. lh_sector s i = sec) [0..<nat (lh_n s)] of Some i \<Rightarrow> i | None \<Rightarrow> nat (lh_n s)) s"
proof -
  have "wpm (for_each xs (\<lambda>i. after [check (i < LOGSIZE)]
       (call (gets (\<lambda>s. lh_sector s i)) (\<lambda>x. ret (if x = sec then Some i else None))))) R C s
    = R (find (\<lambda>i. lh_sector s i = sec) xs) s" if "\<forall>i\<in>set xs. i < LOGSIZE" for xs R
    using that by (induction xs) (simp_all add: wpm_simps cong: wpm_cong)
  moreover have "\<forall>i\<in>set [0..<nat (lh_n s)]. i < LOGSIZE" using n by auto
  ultimately show ?thesis by (simp add: log_index_def wpm_simps cong: wpm_cong)
qed

text \<open>The buffer is recorded in the header, unless it is already there, and becomes dirty.\<close>

lemma wp_log_append:
  assumes inv: "cache_inv up s A" and log: "log_ok s A" and h: "a_held A b = Some sec"
    and fit: "sec \<in> a_dirty A \<or> lh_n s < int LOGSIZE"
    and Q: "\<And>t. cache_inv up t (A\<lparr>a_dirty := insert sec (a_dirty A)\<rparr>) \<Longrightarrow> log_ok t (A\<lparr>a_dirty := insert sec (a_dirty A)\<rparr>)
      \<Longrightarrow> lh_n t = (if sec \<in> a_dirty A then lh_n s else lh_n s + 1) \<Longrightarrow> outstanding t = outstanding s
      \<Longrightarrow> icache t = icache s \<Longrightarrow> ftable t = ftable s \<Longrightarrow> same_fs (s\<lparr>lh_n := lh_n t, lh_sector := lh_sector t\<rparr>) t \<Longrightarrow> Q () t"
  shows "wpm (log_append b) Q C s"
proof -
  note b = held_buf [OF inv h]
  have L: "0 \<le> lh_n s" "lh_n s \<le> int LOGSIZE" "distinct (log_list s)" "set (log_list s) = a_dirty A" using log by (auto simp: log_ok_def)
  have len: "length (log_list s) = nat (lh_n s)" by (simp add: log_list_def)
  let ?A = "A\<lparr>a_dirty := insert sec (a_dirty A)\<rparr>"
  show ?thesis
  proof (cases "find (\<lambda>i. lh_sector s i = sec) [0..<nat (lh_n s)]")
    case (Some i)
    then have i: "i < nat (lh_n s)" "lh_sector s i = sec" by (auto simp: find_Some_iff)
    then have "sec \<in> set (log_list s)" by (auto simp: log_list_def)
    then have sec: "sec \<in> a_dirty A" using L by simp
    have same: "(lh_sector s)(i := sec) = lh_sector s" using i(2) by auto
    have "wpm (buf_set b (\<lambda>bf. bf\<lparr>b_dirty := True\<rparr>)) Q C s"
    proof (rule wp_buf_dirty [OF inv h])
      fix t assume t: "cache_inv up t ?A" "same_fs s t"
      have "log_ok t ?A" by (rule log_ok_same [OF log t(2)]) (use sec in auto)
      then show "Q () t"
        using t sec same_fsD [OF t(2)] by (intro Q) auto
    qed
    moreover have "int i < lh_n s" "i < LOGSIZE" using i(1) L by linarith+
    ultimately show ?thesis
      using Some b same by (simp add: log_append_def wpm_simps wp_log_index [OF L(1,2)] cong: wpm_cong)
  next
    case None
    then have new: "sec \<notin> set (log_list s)" by (auto simp: find_None_iff log_list_def)
    then have sec: "sec \<notin> a_dirty A" and n: "nat (lh_n s) < LOGSIZE" using L fit by auto
    let ?s = "s\<lparr>lh_sector := (lh_sector s)(nat (lh_n s) := sec), lh_n := lh_n s + 1\<rparr>"
    have ll: "log_list ?s = log_list s @ [sec]"
      using L(1) by (simp add: log_list_def nat_add_distrib)
    have inv': "cache_inv up ?s A" using inv by (simp add: cache_inv_def)
    have "wpm (buf_set b (\<lambda>bf. bf\<lparr>b_dirty := True\<rparr>)) Q C ?s"
    proof (rule wp_buf_dirty [OF inv' h])
      fix t assume t: "cache_inv up t ?A" "same_fs ?s t"
      note f = same_fsD [OF t(2), simplified]
      have "log_list t = log_list s @ [sec]" using ll log_list_cong [of t ?s] f by simp
      then have "log_ok t ?A" using log f new n by (auto simp: log_ok_def)
      moreover have "?s = s\<lparr>lh_n := lh_n t, lh_sector := lh_sector t\<rparr>" using f by simp
      ultimately show "Q () t" using t(1) sec f t(2) [unfolded \<open>?s = _\<close>] by (intro Q) simp_all
    qed
    then show ?thesis
      using None b n L(1) by (simp add: log_append_def wpm_simps wp_log_index [OF L(1,2)] cong: wpm_cong)
  qed
qed

section \<open>Commit\<close>

text \<open>The contents of the disk as bytes.\<close>

definition same_blks :: "contents \<Rightarrow> (nat \<Rightarrow> bytes) \<Rightarrow> bool" where
  "same_blks vol v \<longleftrightarrow> (\<forall>sec<N_LAS. blk vol sec = v sec)"

definition same_view :: "(nat \<Rightarrow> bytes) \<Rightarrow> (nat \<Rightarrow> bytes) \<Rightarrow> bool" where
  "same_view v w \<longleftrightarrow> (\<forall>sec<N_LAS. v sec = w sec)"

context snapshot_disk
begin

text \<open>Writing the blocks of the transaction in place.\<close>

lemma wp_sc_write_log:
  assumes inv: "cache_inv up s A" and log: "log_ok s A" and h: "a_held A = Map.empty" and n: "a_n A + LOGSIZE \<le> MAX_WCNT"
    and Q: "\<And>t v vol n. cache_inv up t (A\<lparr>a_view := v, a_dirty := {}, a_vol := vol, a_n := n\<rparr>) \<Longrightarrow> same_view v (a_view A)
      \<Longrightarrow> same_fs s t \<Longrightarrow> Q () t"
    and C: "\<And>t. down (dsk t) (a_st A) \<Longrightarrow> C t"
  shows "wpm (sc_write_log ops) Q C s"
proof -
  have L: "0 \<le> lh_n s" "lh_n s \<le> int LOGSIZE" "distinct (log_list s)" "set (log_list s) = a_dirty A" "log_dev s = ROOTDEV"
    using log by (auto simp: log_ok_def)
  let ?N = "nat (lh_n s)"
  have N: "?N \<le> LOGSIZE" using L by simp
  let ?R = "\<lambda>k v vol n. A\<lparr>a_view := v, a_dirty := set (drop k (log_list s)), a_vol := vol, a_n := n\<rparr>"
  define P where "P k t = (\<exists>v vol n. cache_inv up t (?R k v vol n) \<and> same_view v (a_view A) \<and> n \<le> a_n A + k \<and> same_fs s t)" for k t
  let ?I = "\<lambda>ys t. \<exists>k. k \<le> ?N \<and> ys = [k..<?N] \<and> P k t"
  let ?body = "\<lambda>tail. steps [check (tail < LOGSIZE), call (gets (\<lambda>s. (log_dev s, lh_sector s tail))) (\<lambda>(dev, sec).
       call (bread ops dev sec) (\<lambda>from. steps [bwrite ops from, brelse from]))]"
  have step: "wpm (?body y) (\<lambda>_. ?I ys) C t" if I: "?I (y # ys) t" for y ys t
  proof -
    obtain k where k: "[k..<?N] = y # ys" "P k t" "k \<le> ?N" using I by metis
    then have y: "y = k" "ys = [Suc k..<?N]" "k < ?N" by (auto simp: upt_eq_Cons_conv)
    obtain v vol n' where inv_t: "cache_inv up t (?R k v vol n')" (is "cache_inv up t ?A") and v: "same_view v (a_view A)"
      and n': "n' \<le> a_n A + k" and fs: "same_fs s t"
      using k(2) by (auto simp: P_def)
    let ?sec = "lh_sector s k"
    have dr: "drop k (log_list s) = ?sec # drop (Suc k) (log_list s)"
      using y(3) by (subst Cons_nth_drop_Suc [symmetric]) (simp_all add: log_list_def)
    then have sec: "?sec \<in> set (drop k (log_list s))" "?sec \<notin> set (drop (Suc k) (log_list s))"
      using distinct_drop [OF L(3), of k] by auto
    have "?sec \<in> a_dirty ?A" using sec(1) by simp
    then have cached: "\<exists>b. caches (bufs t) b ?sec" using inv_t unfolding cache_inv_def by (metis bufs_okD(4))
    have "wpm (bread ops ROOTDEV ?sec) (\<lambda>from. wpm (steps [bwrite ops from, brelse from]) (\<lambda>_. ?I ys) C) C t"
    proof (rule wp_bread_any [OF inv_t])
      fix b x u assume x: "?sec < N_LAS \<Longrightarrow> x = a_view ?A ?sec" and u: "same_fs t u"
        "cache_inv up u (?A\<lparr>a_view := (a_view ?A)(?sec := x), a_held := (a_held ?A)(b := Some ?sec)\<rparr>)" (is "cache_inv up u ?A1")
      have "same_view (v(?sec := x)) (a_view A)" using v x by (simp add: same_view_def)
      moreover have "wpm (bwrite ops b) (\<lambda>_. wpm (brelse b) (\<lambda>_. ?I ys) C) C u" if v': "same_view (v(?sec := x)) (a_view A)"
      proof (rule wp_bwrite_any [OF u(2)])
        fix w vol2 n2 assume w: "cache_inv up w (?A1\<lparr>a_dirty := a_dirty ?A1 - {?sec}, a_vol := vol2, a_n := n2\<rparr>)" (is "cache_inv up w ?A2") "same_fs u w"
          and vol2: "vol2 = (if ?sec < N_LAS then (a_vol ?A1)(?sec := words_of (a_view ?A1 ?sec)) else a_vol ?A1)"
          and n2: "n2 = (if ?sec < N_LAS then Suc (a_n ?A1) else a_n ?A1)"
        have held: "a_held ?A2 b = Some ?sec" by simp
        have "blk (a_vol ?A2) ?sec = a_view ?A2 ?sec" if "?sec < N_LAS"
          using vol2 that held_buf(6) [OF w(1) held] by (simp add: bytes_of_words_of)
        then show "wpm (brelse b) (\<lambda>_. ?I ys) C w"
        proof (intro wp_brelse [OF w(1) held])
          fix z assume z: "cache_inv up z (?A2\<lparr>a_held := (a_held ?A2)(b := None)\<rparr>)" "same_fs w z"
          have "?A2\<lparr>a_held := (a_held ?A2)(b := None)\<rparr> = ?R (Suc k) (v(?sec := x)) vol2 n2"
            using dr sec(2) h by simp
          moreover have "n2 \<le> a_n A + Suc k" using n2 n' by simp
          ultimately have "P (Suc k) z"
            using z v' same_fs_trans [OF fs same_fs_trans [OF u(1) same_fs_trans [OF w(2) z(2)]]] unfolding P_def by metis
          then show "?I ys z" using y(2,3) by (intro exI [of _ "Suc k"]) simp
        qed simp_all
      qed (use n n' y(3) N C in simp_all)
      ultimately show "wpm (steps [bwrite ops b, brelse b]) (\<lambda>_. ?I ys) C u" by (simp add: wpm_simps cong: wpm_cong)
    qed (use cached h in simp_all)
    then show ?thesis
      using y(1,3) N L(5) same_fsD [OF fs] by (simp add: wpm_simps cong: wpm_cong)
  qed
  have "P 0 s" unfolding P_def
    by (rule exI [where x = "a_view A"], rule exI [where x = "a_vol A"], rule exI [where x = "a_n A"])
      (use inv L(4) in \<open>simp add: same_view_def\<close>)
  then have start: "?I [0..<?N] s" by auto
  have stop: "Q () t" if I: "?I [] t" for t
  proof -
    obtain k where k: "[k..<?N] = []" "k \<le> ?N" "P k t" using I by metis
    then have "k = ?N" by auto
    then show ?thesis using k(3) by (auto simp: P_def log_list_def intro: Q)
  qed
  have "wpm (for_all [0..<?N] ?body) Q C s"
    by (rule wpm_for_all [where I = ?I]) (rule start, erule step, erule stop)
  then show ?thesis by (simp add: sc_write_log_def wpm_simps)
qed

text \<open>A commit: the disk, and its snapshot, become what the file system sees; a power loss leaves the snapshot as it was or has it so.\<close>

lemma wp_sc_commit:
  assumes inv: "cache_inv up s A" and log: "log_ok s A" and h: "a_held A = Map.empty" and n: "a_n A + LOGSIZE \<le> MAX_WCNT"
    and Q: "\<And>t v vol. cache_inv up t (A\<lparr>a_view := v, a_dirty := {}, a_vol := vol, a_st := vol, a_n := 0\<rparr>) \<Longrightarrow> same_view v (a_view A)
      \<Longrightarrow> same_blks vol (a_view A) \<Longrightarrow> same_fs (s\<lparr>lh_n := 0\<rparr>) t \<Longrightarrow> Q () t"
    and C: "\<And>t st. down (dsk t) st \<Longrightarrow> st = a_st A \<or> same_blks st (a_view A) \<Longrightarrow> C t"
  shows "wpm (sc_commit ops) Q C s"
proof -
  have flush: "wpm (steps [modify (\<lambda>s. s\<lparr>lh_n := 0\<rparr>), ideflush ops]) Q C t"
    if t: "cache_inv up t (A\<lparr>a_view := v, a_dirty := {}, a_vol := vol, a_n := k\<rparr>)" "same_view v (a_view A)" "same_fs s t" for t v vol k
  proof -
    let ?A = "A\<lparr>a_view := v, a_dirty := {}, a_vol := vol, a_n := k\<rparr>"
    have same: "same_blks vol (a_view A)"
      using t(1,2) h by (simp add: cache_inv_def view_ok_def same_blks_def same_view_def)
    have t': "cache_inv up (t\<lparr>lh_n := 0\<rparr>) ?A" using t(1) by (simp add: cache_inv_def)
    have "wpm (ideflush ops) Q C (t\<lparr>lh_n := 0\<rparr>)"
    proof (rule wp_ideflush [OF t'])
      fix u assume u: "cache_inv up u (?A\<lparr>a_st := a_vol ?A, a_n := 0\<rparr>)" "same_fs (t\<lparr>lh_n := 0\<rparr>) u"
      have "same_fs (s\<lparr>lh_n := 0\<rparr>) (t\<lparr>lh_n := 0\<rparr>)" by (rule same_fs_lh [OF t(3)])
      then show "Q () u" using u same t(2) by (intro Q [where v = v and vol = vol]) (auto intro: same_fs_trans)
    qed (use C same in auto)
    then show ?thesis by (simp add: wpm_simps)
  qed
  show ?thesis
  proof (cases "lh_n s > 0")
    case True
    have "wpm (sc_write_log ops) (\<lambda>_. wpm (steps [modify (\<lambda>s. s\<lparr>lh_n := 0\<rparr>), ideflush ops]) Q C) C s"
      by (rule wp_sc_write_log [OF inv log h n]) (auto intro: flush C)
    then show ?thesis using True by (simp add: sc_commit_def steps_def wpm_simps)
  next
    case False
    then have "a_dirty A = {}" using log by (auto simp: log_ok_def log_list_def)
    then have "A\<lparr>a_dirty := {}\<rparr> = A" by simp
    then have "wpm (steps [modify (\<lambda>s. s\<lparr>lh_n := 0\<rparr>), ideflush ops]) Q C s"
      using inv by (intro flush [where t = s and v = "a_view A" and vol = "a_vol A" and k = "a_n A"]) (simp_all add: same_view_def)
    then show ?thesis using False by (simp add: sc_commit_def wpm_simps cong: wpm_cong)
  qed
qed

end

end
