(* ===== verification/XvFs.thy ===== *)
theory XvFs
  imports LogInv
begin

text \<open>
  The file system proper, \<^verbatim>\<open>xv6/fs.c\<close>: the block allocator, the inodes and their cache, the
  contents of files, directories and path names. A pointer to an inode is its index in
  \<open>icache.inode\<close>, and the null pointer is \<open>None\<close>; a name is the array of its
  \<open>DIRSIZ\<close> bytes, a path the string up to its final zero. The locks of \<^verbatim>\<open>xv6/spinlock.c\<close>
  do nothing and are left out.
\<close>

unbundle bit_operations_syntax

section \<open>Blocks\<close>

definition xv6_bzero :: "'d env \<Rightarrow> nat \<Rightarrow> nat \<Rightarrow> ('d xv6, unit) prog" where
  "xv6_bzero E dev bno = call (bread (e_disk E) dev bno) (\<lambda>bp. steps [
     buf_set bp (\<lambda>bf. bf\<lparr>b_data := set_bytes 0 0 BSIZE (b_data bf)\<rparr>),
     e_log_write E bp,
     brelse bp])"

text \<open>The inner loop of \<open>balloc\<close>: the bits of one bitmap block.\<close>

definition balloc_scan :: "'d env \<Rightarrow> nat \<Rightarrow> nat \<Rightarrow> nat \<Rightarrow> nat \<Rightarrow> ('d xv6, nat option) prog" where
  "balloc_scan E dev bp b sz = for_each [0..<min BPB (sz - b)] (\<lambda>bi. call (buf_get bp b_data) (\<lambda>d.
     let m = push_bit (bi mod 8) 1 in
     if d (bi div 8) AND m = 0 then after [
         buf_set bp (\<lambda>bf. bf\<lparr>b_data := (b_data bf)(bi div 8 := b_data bf (bi div 8) OR m)\<rparr>),
         e_log_write E bp,
         brelse bp,
         xv6_bzero E dev (b + bi)]
       (ret (Some (b + bi)))
     else ret None))"

definition balloc :: "'d env \<Rightarrow> nat \<Rightarrow> ('d xv6, nat) prog" where
  "balloc E dev = call (readsb (e_disk E) dev) (\<lambda>sb.
     call (for_each (map (\<lambda>k. k * BPB) [0..<(sb_size sb + (BPB - 1)) div BPB]) (\<lambda>b.
       call (bread (e_disk E) dev (BBLOCK b (sb_ninodes sb))) (\<lambda>bp.
       call (balloc_scan E dev bp b (sb_size sb)) (\<lambda>r. case r of
         Some x \<Rightarrow> ret (Some x)
       | None \<Rightarrow> after [brelse bp] (ret None)))))
     (\<lambda>r. case r of Some x \<Rightarrow> ret x | None \<Rightarrow> panicp ''balloc: out of blocks''))"

definition bfree :: "'d env \<Rightarrow> nat \<Rightarrow> nat \<Rightarrow> ('d xv6, unit) prog" where
  "bfree E dev b = call (readsb (e_disk E) dev) (\<lambda>sb.
     call (bread (e_disk E) dev (BBLOCK b (sb_ninodes sb))) (\<lambda>bp. call (buf_get bp b_data) (\<lambda>d.
     let bi = b mod BPB; m = push_bit (bi mod 8) 1 in
     if d (bi div 8) AND m = 0 then panicp ''freeing free block''
     else steps [
       buf_set bp (\<lambda>bf. bf\<lparr>b_data := (b_data bf)(bi div 8 := unset_bit (bi mod 8) (b_data bf (bi div 8)))\<rparr>),
       e_log_write E bp,
       brelse bp])))"

section \<open>Inodes\<close>

text \<open>\<open>iinit\<close> only initialises a lock.\<close>

definition iinit :: "('d xv6, unit) prog" where
  "iinit = ret ()"

text \<open>
  The loop of \<open>iget\<close>: the entry of the inode, or the first free entry; \<open>free\<close> is the local
  variable \<open>empty\<close>.
\<close>

primrec iget_scan :: "nat \<Rightarrow> nat \<Rightarrow> nat option \<Rightarrow> nat list \<Rightarrow> ('d xv6, nat + nat option) prog" where
  "iget_scan dev inum free [] = ret (Inr free)"
| "iget_scan dev inum free (i # js) = call (inode_get i id) (\<lambda>ip.
     if i_ref ip > 0 \<and> i_dev ip = dev \<and> i_inum ip = inum
     then after [inode_set i (\<lambda>ip. ip\<lparr>i_ref := i_ref ip + 1\<rparr>)] (ret (Inl i))
     else iget_scan dev inum (if free = None \<and> i_ref ip = 0 then Some i else free) js)"

definition iget :: "nat \<Rightarrow> nat \<Rightarrow> ('d xv6, nat) prog" where
  "iget dev inum = call (iget_scan dev inum None [0..<NINODE]) (\<lambda>r. case r of
     Inl ip \<Rightarrow> ret ip
   | Inr None \<Rightarrow> panicp ''iget: no inodes''
   | Inr (Some ip) \<Rightarrow> after [
       inode_set ip (\<lambda>i. i\<lparr>i_dev := dev\<rparr>),
       inode_set ip (\<lambda>i. i\<lparr>i_inum := inum\<rparr>),
       inode_set ip (\<lambda>i. i\<lparr>i_ref := 1\<rparr>),
       inode_set ip (\<lambda>i. i\<lparr>i_busy := False, i_valid := False\<rparr>)] (ret ip))"

definition ialloc :: "'d env \<Rightarrow> nat \<Rightarrow> int \<Rightarrow> ('d xv6, nat) prog" where
  "ialloc E dev type = call (readsb (e_disk E) dev) (\<lambda>sb.
     call (for_each [1..<sb_ninodes sb] (\<lambda>inum. call (bread (e_disk E) dev (IBLOCK inum)) (\<lambda>bp.
       call (buf_get bp b_data) (\<lambda>d.
       let o' = inum mod IPB * DINODE_SIZE in
       if get_short d o' = 0 then after [
           buf_set bp (\<lambda>bf. bf\<lparr>b_data := set_bytes o' 0 DINODE_SIZE (b_data bf)\<rparr>),
           buf_set bp (\<lambda>bf. bf\<lparr>b_data := put_short o' type (b_data bf)\<rparr>),
           e_log_write E bp,
           brelse bp]
         (call (iget dev inum) (\<lambda>ip. ret (Some ip)))
       else after [brelse bp] (ret None)))))
     (\<lambda>r. case r of Some ip \<Rightarrow> ret ip | None \<Rightarrow> panicp ''ialloc: no inodes''))"

text \<open>The fields of an in-memory inode that are stored on the disk.\<close>

definition dinode_of :: "inode \<Rightarrow> dinode" where
  "dinode_of ip = \<lparr>d_type = i_type ip, d_major = i_major ip, d_minor = i_minor ip, d_nlink = i_nlink ip, d_size = i_size ip,
     d_ctime = i_ctime ip, d_atime = i_atime ip, d_mtime = i_mtime ip, d_addrs = i_addrs ip\<rparr>"

text \<open>The array \<open>addrs\<close> of an in-memory inode has \<open>NDIRECT + 1\<close> entries.\<close>

definition iupdate :: "'d env \<Rightarrow> nat \<Rightarrow> ('d xv6, unit) prog" where
  "iupdate E ip = call (inode_get ip id) (\<lambda>i. call (bread (e_disk E) (i_dev i) (IBLOCK (i_inum i))) (\<lambda>bp. steps [
     buf_set bp (\<lambda>bf. bf\<lparr>b_data := put_dinode (i_inum i mod IPB) (dinode_of i) (NDIRECT + 1) (b_data bf)\<rparr>),
     e_log_write E bp,
     brelse bp]))"

definition idup :: "nat \<Rightarrow> ('d xv6, nat) prog" where
  "idup ip = after [inode_set ip (\<lambda>i. i\<lparr>i_ref := i_ref i + 1\<rparr>)] (ret ip)"

definition load_dinode :: "dinode \<Rightarrow> inode \<Rightarrow> inode" where
  "load_dinode di i = i\<lparr>i_type := d_type di, i_major := d_major di, i_minor := d_minor di, i_nlink := d_nlink di,
     i_size := d_size di, i_mtime := d_mtime di, i_atime := d_atime di, i_ctime := d_ctime di,
     i_addrs := (\<lambda>k. if k < NDIRECT + 1 then d_addrs di k else i_addrs i k)\<rparr>"

definition ilock :: "'d env \<Rightarrow> nat \<Rightarrow> ('d xv6, unit) prog" where
  "ilock E ip = call (inode_get ip i_ref) (\<lambda>ref. if ref < 1 then panicp ''ilock'' else steps [
     loop (\<lambda>_ :: unit. call (inode_get ip i_busy) (\<lambda>busy. ret (if busy then Inl () else Inr ()))) (),
     inode_set ip (\<lambda>i. i\<lparr>i_busy := True\<rparr>),
     call (inode_get ip id) (\<lambda>i. provided (\<not> i_valid i)
       (call (bread (e_disk E) (i_dev i) (IBLOCK (i_inum i))) (\<lambda>bp. call (buf_get bp b_data) (\<lambda>d. steps [
          inode_set ip (load_dinode (get_dinode d (i_inum i mod IPB))),
          brelse bp,
          inode_set ip (\<lambda>i. i\<lparr>i_valid := True\<rparr>),
          call (inode_get ip i_type) (\<lambda>type. if type = 0 then panicp ''ilock: no type'' else ret ())]))))])"

definition iunlock :: "nat \<Rightarrow> ('d xv6, unit) prog" where
  "iunlock ip = call (inode_get ip id) (\<lambda>i.
     if \<not> i_busy i \<or> i_ref i < 1 then panicp ''iunlock''
     else inode_set ip (\<lambda>i. i\<lparr>i_busy := False\<rparr>))"

section \<open>Inode content\<close>

text \<open>An entry of an indirect block: the address there, or a new block that is recorded there.\<close>

definition bmap_entry :: "'d env \<Rightarrow> nat \<Rightarrow> nat \<Rightarrow> nat \<Rightarrow> ('d xv6, nat) prog" where
  "bmap_entry E ip ib bn = call (inode_get ip i_dev) (\<lambda>dev. call (bread (e_disk E) dev ib) (\<lambda>bp. call (buf_get bp b_data) (\<lambda>d.
     if get32 d (4 * bn) = 0
     then call (balloc E dev) (\<lambda>addr. after [
       buf_set bp (\<lambda>bf. bf\<lparr>b_data := put32 (4 * bn) addr (b_data bf)\<rparr>),
       e_log_write E bp,
       brelse bp] (ret addr))
     else after [brelse bp] (ret (get32 d (4 * bn))))))"

text \<open>An entry of \<open>ip->addrs\<close>, likewise.\<close>

definition bmap_addr :: "'d env \<Rightarrow> nat \<Rightarrow> nat \<Rightarrow> ('d xv6, nat) prog" where
  "bmap_addr E ip k = after [check (k < NDIRECT + 1)] (call (inode_get ip id) (\<lambda>i.
     if i_addrs i k = 0
     then call (balloc E (i_dev i)) (\<lambda>addr. after [
       inode_set ip (\<lambda>i. i\<lparr>i_addrs := (i_addrs i)(k := addr)\<rparr>)] (ret addr))
     else ret (i_addrs i k)))"

definition bmap :: "'d env \<Rightarrow> nat \<Rightarrow> nat \<Rightarrow> ('d xv6, nat) prog" where
  "bmap E ip bn = (
     if bn < NDIRECT then bmap_addr E ip bn
     else let bn = bn - NDIRECT in
     if bn < NINDIRECT then call (bmap_addr E ip NDIRECT) (\<lambda>addr. bmap_entry E ip addr bn)
     else if bn < MAXFILE - NDIRECT then
       let bn = bn - NINDIRECT in
       call (bmap_addr E ip (NDIRECT + 1)) (\<lambda>addr.
       call (bmap_entry E ip addr (bn div NINDIRECT)) (\<lambda>addr.
       call (bmap_entry E ip addr (bn mod NINDIRECT)) (\<lambda>addr.
       call (inode_get ip i_dev) (\<lambda>dev. call (bread (e_disk E) dev addr) (\<lambda>bp.
       after [brelse bp] (ret addr))))))
     else panicp ''bmap: out of range'')"

definition itrunc :: "'d env \<Rightarrow> nat \<Rightarrow> ('d xv6, unit) prog" where
  "itrunc E ip = steps [
     for_all [0..<NDIRECT] (\<lambda>k. call (inode_get ip id) (\<lambda>i. provided (i_addrs i k \<noteq> 0) (steps [
       bfree E (i_dev i) (i_addrs i k),
       inode_set ip (\<lambda>i. i\<lparr>i_addrs := (i_addrs i)(k := 0)\<rparr>)]))),
     call (inode_get ip id) (\<lambda>i. provided (i_addrs i NDIRECT \<noteq> 0)
       (call (bread (e_disk E) (i_dev i) (i_addrs i NDIRECT)) (\<lambda>bp. steps [
          for_all [0..<NINDIRECT] (\<lambda>j. call (buf_get bp b_data) (\<lambda>d.
            provided (get32 d (4 * j) \<noteq> 0) (bfree E (i_dev i) (get32 d (4 * j))))),
          brelse bp,
          bfree E (i_dev i) (i_addrs i NDIRECT),
          inode_set ip (\<lambda>i. i\<lparr>i_addrs := (i_addrs i)(NDIRECT := 0)\<rparr>)]))),
     inode_set ip (\<lambda>i. i\<lparr>i_size := 0\<rparr>),
     iupdate E ip]"

definition iput :: "'d env \<Rightarrow> nat \<Rightarrow> ('d xv6, unit) prog" where
  "iput E ip = steps [
     call (inode_get ip id) (\<lambda>i. provided (i_ref i = 1 \<and> i_valid i \<and> i_nlink i = 0)
       (if i_busy i then panicp ''iput busy'' else steps [
          inode_set ip (\<lambda>i. i\<lparr>i_busy := True\<rparr>),
          itrunc E ip,
          inode_set ip (\<lambda>i. i\<lparr>i_type := 0\<rparr>),
          iupdate E ip,
          inode_set ip (\<lambda>i. i\<lparr>i_busy := False, i_valid := False\<rparr>)])),
     inode_set ip (\<lambda>i. i\<lparr>i_ref := i_ref i - 1\<rparr>)]"

definition iunlockput :: "'d env \<Rightarrow> nat \<Rightarrow> ('d xv6, unit) prog" where
  "iunlockput E ip = steps [iunlock ip, iput E ip]"

record xstat =
  st_type :: int
  st_dev :: nat
  st_ino :: nat
  st_nlink :: int
  st_size :: nat
  st_atime :: nat
  st_mtime :: nat
  st_ctime :: nat

definition stati :: "nat \<Rightarrow> ('d xv6, xstat) prog" where
  "stati ip = inode_get ip (\<lambda>i. \<lparr>st_type = i_type i, st_dev = i_dev i, st_ino = i_inum i, st_nlink = i_nlink i,
     st_size = i_size i, st_atime = i_atime i, st_mtime = i_mtime i, st_ctime = i_ctime i\<rparr>)"

text \<open>
  The device switch is never filled in, so that a device can neither be read nor written. The array
  \<open>dst\<close> is returned as it is after the call.
\<close>

definition readi :: "'d env \<Rightarrow> nat \<Rightarrow> bytes \<Rightarrow> nat \<Rightarrow> nat \<Rightarrow> ('d xv6, int \<times> bytes) prog" where
  "readi E ip dst off n = call (inode_get ip id) (\<lambda>i.
     if i_type i = T_DEV then ret (-1, dst)
     else if off > i_size i \<or> u32 (off + n) < off then ret (-1, dst)
     else let n = (if u32 (off + n) > i_size i then i_size i - off else n) in
       call (loop (\<lambda>(tot, off, dst).
         if tot < n then
           call (bmap E ip (off div BSIZE)) (\<lambda>addr. call (bread (e_disk E) (i_dev i) addr) (\<lambda>bp.
           let m = min (n - tot) (BSIZE - off mod BSIZE) in
           call (buf_get bp b_data) (\<lambda>d. after [brelse bp]
             (ret (Inl (u32 (tot + m), u32 (off + m), move_bytes tot d (off mod BSIZE) m dst))))))
         else ret (Inr dst)) (0, off, dst))
       (\<lambda>dst. ret (s32 n, dst)))"

definition zeroi :: "'d env \<Rightarrow> nat \<Rightarrow> nat \<Rightarrow> nat \<Rightarrow> ('d xv6, unit) prog" where
  "zeroi E ip off n = call (inode_get ip i_dev) (\<lambda>dev.
     call (loop (\<lambda>(tot, off).
       if tot < n then
         call (bmap E ip (off div BSIZE)) (\<lambda>addr. call (bread (e_disk E) dev addr) (\<lambda>bp.
         let m = min (n - tot) (BSIZE - off mod BSIZE) in after [
           buf_set bp (\<lambda>bf. bf\<lparr>b_data := set_bytes (off mod BSIZE) 0 m (b_data bf)\<rparr>),
           e_log_write E bp,
           brelse bp]
           (ret (Inl (u32 (tot + m), u32 (off + m))))))
       else ret (Inr off)) (0, off))
     (\<lambda>off. steps [
       inode_set ip (\<lambda>i. i\<lparr>i_size := off\<rparr>),
       call unix_time (\<lambda>t. inode_set ip (\<lambda>i. i\<lparr>i_mtime := t\<rparr>)),
       iupdate E ip]))"

definition writei :: "'d env \<Rightarrow> nat \<Rightarrow> bytes \<Rightarrow> nat \<Rightarrow> nat \<Rightarrow> ('d xv6, int) prog" where
  "writei E ip src off n = call (inode_get ip id) (\<lambda>i.
     if i_type i = T_DEV then ret (-1)
     else if off > i_size i \<or> u32 (off + n) < off then ret (-1)
     else if u32 (off + n) > MAXFILE * BSIZE then ret (-1)
     else
       call (loop (\<lambda>(tot, off).
         if tot < n then
           call (bmap E ip (off div BSIZE)) (\<lambda>addr. call (bread (e_disk E) (i_dev i) addr) (\<lambda>bp.
           let m = min (n - tot) (BSIZE - off mod BSIZE) in after [
             buf_set bp (\<lambda>bf. bf\<lparr>b_data := move_bytes (off mod BSIZE) src tot m (b_data bf)\<rparr>),
             e_log_write E bp,
             brelse bp]
             (ret (Inl (u32 (tot + m), u32 (off + m))))))
         else ret (Inr off)) (0, off))
       (\<lambda>off. call (inode_get ip i_size) (\<lambda>size. after [
         provided (n > 0 \<and> off > size) (steps [
           inode_set ip (\<lambda>i. i\<lparr>i_size := off\<rparr>),
           call unix_time (\<lambda>t. inode_set ip (\<lambda>i. i\<lparr>i_mtime := t\<rparr>)),
           iupdate E ip])]
         (ret (s32 n)))))"

section \<open>Directories\<close>

text \<open>\<^verbatim>\<open>strncmp\<close> and \<^verbatim>\<open>strncpy\<close> on arrays of bytes.\<close>

primrec strncmp :: "bytes \<Rightarrow> bytes \<Rightarrow> nat \<Rightarrow> nat \<Rightarrow> int" where
  "strncmp s t i 0 = 0"
| "strncmp s t i (Suc n) = (if s i \<noteq> t i then int (s i) - int (t i) else if s i = 0 then 0 else strncmp s t (Suc i) n)"

primrec strncpy :: "bytes \<Rightarrow> bytes \<Rightarrow> nat \<Rightarrow> nat \<Rightarrow> bytes" where
  "strncpy d s i 0 = d"
| "strncpy d s i (Suc n) = (if s i = 0 then set_bytes i 0 (Suc n) d else strncpy (d(i := s i)) s (Suc i) n)"

definition namecmp :: "bytes \<Rightarrow> bytes \<Rightarrow> int" where
  "namecmp s t = strncmp s t 0 DIRSIZ"

text \<open>A directory entry is an array of \<open>DIRENT_SIZE\<close> bytes: the inode number and the name.\<close>

definition de_inum :: "bytes \<Rightarrow> nat" where
  "de_inum de = get16 de 0"

definition de_name :: "bytes \<Rightarrow> bytes" where
  "de_name de = (\<lambda>k. de (2 + k))"

definition de_set_name :: "bytes \<Rightarrow> bytes \<Rightarrow> bytes" where
  "de_set_name nm de = move_bytes 2 nm 0 DIRSIZ de"

text \<open>The offsets of the entries of a directory of the given size, from entry \<open>k\<close> on.\<close>

definition dir_offs :: "nat \<Rightarrow> nat \<Rightarrow> nat list" where
  "dir_offs k sz = map (\<lambda>j. j * DIRENT_SIZE) [k..<(sz + (DIRENT_SIZE - 1)) div DIRENT_SIZE]"

definition dirlookup :: "'d env \<Rightarrow> nat \<Rightarrow> bytes \<Rightarrow> ('d xv6, (nat \<times> nat) option) prog" where
  "dirlookup E dp name = call (inode_get dp id) (\<lambda>d.
     if i_type d \<noteq> T_DIR then panicp ''dirlookup not DIR''
     else for_each (dir_offs 0 (i_size d)) (\<lambda>off. call (readi E dp (\<lambda>_. 0) off DIRENT_SIZE) (\<lambda>(r, de).
       if r \<noteq> int DIRENT_SIZE then panicp ''dirlink read''
       else if de_inum de = 0 then ret None
       else if namecmp name (de_name de) = 0
       then call (iget (i_dev d) (de_inum de)) (\<lambda>ip. ret (Some (ip, off)))
       else ret None)))"

definition dirlink :: "'d env \<Rightarrow> nat \<Rightarrow> bytes \<Rightarrow> nat \<Rightarrow> ('d xv6, int) prog" where
  "dirlink E dp name inum = call (dirlookup E dp name) (\<lambda>r. case r of
     Some (ip, _) \<Rightarrow> after [iput E ip] (ret (-1))
   | None \<Rightarrow> call (inode_get dp i_size) (\<lambda>size.
       call (for_each (dir_offs 0 size) (\<lambda>off. call (readi E dp (\<lambda>_. 0) off DIRENT_SIZE) (\<lambda>(r, de).
         if r \<noteq> int DIRENT_SIZE then panicp ''dirlink read''
         else if de_inum de = 0 then ret (Some off)
         else ret None)))
       (\<lambda>r. let off = (case r of Some off \<Rightarrow> off | None \<Rightarrow> (size + (DIRENT_SIZE - 1)) div DIRENT_SIZE * DIRENT_SIZE);
                de = put16 0 (u16 inum) (de_set_name (strncpy (\<lambda>_. 0) name 0 DIRSIZ) (\<lambda>_. 0)) in
         call (writei E dp de off DIRENT_SIZE) (\<lambda>w.
         if w \<noteq> int DIRENT_SIZE then panicp ''dirlink'' else ret 0))))"

section \<open>Paths\<close>

definition copy_str :: "string \<Rightarrow> bytes \<Rightarrow> bytes" where
  "copy_str cs nm = (\<lambda>i. if i < length cs then of_char (cs ! i) else nm i)"

definition skipelem :: "string \<Rightarrow> bytes \<Rightarrow> (string \<times> bytes) option" where
  "skipelem path name = (let s = dropWhile (\<lambda>c. c = CHR ''/'') path in
     if s = [] then None
     else let elem = takeWhile (\<lambda>c. c \<noteq> CHR ''/'') s; path = dropWhile (\<lambda>c. c \<noteq> CHR ''/'') s; len = length elem in
       Some (dropWhile (\<lambda>c. c = CHR ''/'') path,
             if len \<ge> DIRSIZ then copy_str (take DIRSIZ elem) name else (copy_str elem name)(len := 0)))"

definition namex :: "'d env \<Rightarrow> string \<Rightarrow> bool \<Rightarrow> bytes \<Rightarrow> ('d xv6, nat option \<times> bytes) prog" where
  "namex E path nameiparent name =
     call (if path \<noteq> [] \<and> hd path = CHR ''/'' then iget ROOTDEV ROOTINO
           else call (gets cwd) (\<lambda>c. case c of None \<Rightarrow> fault OutOfBounds | Some ip \<Rightarrow> idup ip)) (\<lambda>ip.
     loop (\<lambda>(path, name, ip). case skipelem path name of
       None \<Rightarrow> if nameiparent then after [iput E ip] (ret (Inr (None, name))) else ret (Inr (Some ip, name))
     | Some (path, name) \<Rightarrow> after [ilock E ip] (call (inode_get ip i_type) (\<lambda>type.
         if type \<noteq> T_DIR then after [iunlockput E ip] (ret (Inr (None, name)))
         else if nameiparent \<and> path = [] then after [iunlock ip] (ret (Inr (Some ip, name)))
         else call (dirlookup E ip name) (\<lambda>r. case r of
           None \<Rightarrow> after [iunlockput E ip] (ret (Inr (None, name)))
         | Some (next_ip, _) \<Rightarrow> after [iunlockput E ip] (ret (Inl (path, name, next_ip)))))))
     (path, name, ip))"

definition namei :: "'d env \<Rightarrow> string \<Rightarrow> ('d xv6, nat option) prog" where
  "namei E path = call (namex E path False (\<lambda>_. 0)) (\<lambda>(ip, _). ret ip)"

definition nameiparent :: "'d env \<Rightarrow> string \<Rightarrow> bytes \<Rightarrow> ('d xv6, nat option \<times> bytes) prog" where
  "nameiparent E path name = namex E path True name"

end
