(* ===== verification/XvFile.thy ===== *)
theory XvFile
  imports XvFs
begin

text \<open>
  Open files, \<^verbatim>\<open>xv6/file.c\<close>, with the pipes of \<^verbatim>\<open>xv6/pipe.c\<close>, which are stubs. A
  pointer to a file is its index in \<open>ftable.file\<close>. The memory that a call reads or fills is an
  array of bytes, returned as it is after the call.
\<close>

section \<open>pipe.c\<close>

definition pipeclose :: "('d xv6, unit) prog" where
  "pipeclose = ret ()"

definition piperead :: "('d xv6, int) prog" where
  "piperead = ret (-1)"

definition pipewrite :: "('d xv6, int) prog" where
  "pipewrite = ret (-1)"

section \<open>file.c\<close>

text \<open>\<open>fileinit\<close> only initialises a lock.\<close>

definition fileinit :: "('d xv6, unit) prog" where
  "fileinit = ret ()"

definition filealloc :: "('d xv6, nat option) prog" where
  "filealloc = for_each [0..<NFILE] (\<lambda>f. call (file_get f f_ref) (\<lambda>ref.
     if ref = 0 then after [file_set f (\<lambda>x. x\<lparr>f_ref := 1\<rparr>)] (ret (Some f)) else ret None))"

definition filedup :: "nat \<Rightarrow> ('d xv6, nat) prog" where
  "filedup f = call (file_get f f_ref) (\<lambda>ref.
     if ref < 1 then panicp ''filedup'' else after [file_set f (\<lambda>x. x\<lparr>f_ref := f_ref x + 1\<rparr>)] (ret f))"

definition fileclose :: "'d env \<Rightarrow> nat \<Rightarrow> ('d xv6, unit) prog" where
  "fileclose E f = call (file_get f f_ref) (\<lambda>ref. if ref < 1 then panicp ''fileclose'' else steps [
     file_set f (\<lambda>x. x\<lparr>f_ref := f_ref x - 1\<rparr>),
     call (file_get f id) (\<lambda>ff. if f_ref ff > 0 then ret () else steps [
       file_set f (\<lambda>x. x\<lparr>f_ref := 0\<rparr>),
       file_set f (\<lambda>x. x\<lparr>f_type := FD_NONE\<rparr>),
       case f_type ff of
         FD_PIPE \<Rightarrow> pipeclose
       | FD_INODE \<Rightarrow> steps [e_begin_op E, iput E (f_ip ff), e_end_op E]
       | FD_NONE \<Rightarrow> ret ()])])"

definition filestat :: "'d env \<Rightarrow> nat \<Rightarrow> xstat \<Rightarrow> ('d xv6, int \<times> xstat) prog" where
  "filestat E f st = call (file_get f id) (\<lambda>ff. if f_type ff = FD_INODE
     then after [ilock E (f_ip ff)] (call (stati (f_ip ff)) (\<lambda>st. after [iunlock (f_ip ff)] (ret (0, st))))
     else ret (-1, st))"

text \<open>An \<^verbatim>\<open>int\<close> as the \<^verbatim>\<open>uint\<close> it is converted to.\<close>

definition uint_of :: "int \<Rightarrow> nat" where
  "uint_of n = nat (n mod 4294967296)"

definition fileread :: "'d env \<Rightarrow> nat \<Rightarrow> bytes \<Rightarrow> int \<Rightarrow> ('d xv6, int \<times> bytes) prog" where
  "fileread E f addr n = call (file_get f id) (\<lambda>ff.
     if \<not> f_readable ff then ret (-1, addr)
     else case f_type ff of
       FD_PIPE \<Rightarrow> call piperead (\<lambda>r. ret (r, addr))
     | FD_INODE \<Rightarrow> after [ilock E (f_ip ff)] (call (readi E (f_ip ff) addr (f_off ff) (uint_of n)) (\<lambda>(r, addr). after [
         provided (r > 0) (file_set f (\<lambda>x. x\<lparr>f_off := u32 (f_off x + nat r)\<rparr>)),
         iunlock (f_ip ff)] (ret (r, addr))))
     | FD_NONE \<Rightarrow> panicp ''fileread'')"

definition write_max :: int where
  "write_max = (int LOGSIZE - 1 - 1 - 2) div 2 * 512"

text \<open>The hole between the end of the file and the offset is filled with zeros in one transaction.\<close>

definition fill_hole :: "'d env \<Rightarrow> nat \<Rightarrow> ('d xv6, unit) prog" where
  "fill_hole E f = call (file_get f id) (\<lambda>ff. call (inode_get (f_ip ff) i_size) (\<lambda>sz.
     provided (f_off ff > sz) (steps [
       e_begin_op E,
       ilock E (f_ip ff),
       call (inode_get (f_ip ff) i_size) (\<lambda>sz'. zeroi E (f_ip ff) sz' (sub32 (f_off ff) sz)),
       iunlock (f_ip ff),
       e_end_op E])))"

definition filewrite :: "'d env \<Rightarrow> nat \<Rightarrow> bytes \<Rightarrow> int \<Rightarrow> ('d xv6, int) prog" where
  "filewrite E f addr n = call (file_get f id) (\<lambda>ff.
     if \<not> f_writable ff then ret (-1)
     else case f_type ff of
       FD_PIPE \<Rightarrow> pipewrite
     | FD_INODE \<Rightarrow> after [fill_hole E f] (
         call (loop (\<lambda>i. if i < n then
             let n1 = (if n - i > write_max then write_max else n - i) in
             after [e_begin_op E, ilock E (f_ip ff)] (call (file_get f f_off) (\<lambda>off.
               call (writei E (f_ip ff) (\<lambda>k. addr (nat i + k)) off (uint_of n1)) (\<lambda>r. after [
                 provided (r > 0) (file_set f (\<lambda>x. x\<lparr>f_off := u32 (f_off x + nat r)\<rparr>)),
                 iunlock (f_ip ff),
                 e_end_op E]
               (if r < 0 then ret (Inr i)
                else if r \<noteq> n1 then panicp ''short filewrite''
                else ret (Inl (i + r))))))
           else ret (Inr i)) 0)
         (\<lambda>i. ret (if i = n then n else -1)))
     | FD_NONE \<Rightarrow> panicp ''filewrite'')"

end
