(* ===== verification/XvSys.thy ===== *)
theory XvSys
  imports XvFile
begin

text \<open>
  The calls of the file system, \<^verbatim>\<open>xv6/sysfile.c\<close>. A file handle is the pointer to the open
  file, and the null pointer is \<open>None\<close>.
\<close>

definition O_RDONLY :: nat where "O_RDONLY = 0x000"
definition O_WRONLY :: nat where "O_WRONLY = 0x001"
definition O_RDWR :: nat where "O_RDWR = 0x002"
definition O_CREATE :: nat where "O_CREATE = 0x200"

lemma open_vals [macros]: "O_RDONLY = 0" "O_WRONLY = 1" "O_RDWR = 2" "O_CREATE = 512"
  by (simp_all add: O_RDONLY_def O_WRONLY_def O_RDWR_def O_CREATE_def)

text \<open>A string constant as an array of bytes, and a local array, whose contents do not matter before it is set.\<close>

definition cstr :: "string \<Rightarrow> bytes" where
  "cstr cs = copy_str cs (\<lambda>_. 0)"

definition local_name :: bytes where
  "local_name = (\<lambda>_. 0)"

text \<open>The new inode of \<open>create\<close>, entered in the directory \<open>dp\<close> under the name given.\<close>

definition create_new :: "'d env \<Rightarrow> nat \<Rightarrow> bytes \<Rightarrow> int \<Rightarrow> int \<Rightarrow> int \<Rightarrow> ('d xv6, nat) prog" where
  "create_new E dp name type major minor = call (inode_get dp i_dev) (\<lambda>dev. call (ialloc E dev type) (\<lambda>ip. after [
     ilock E ip,
     inode_set ip (\<lambda>i. i\<lparr>i_major := major\<rparr>),
     inode_set ip (\<lambda>i. i\<lparr>i_minor := minor\<rparr>),
     inode_set ip (\<lambda>i. i\<lparr>i_nlink := 1\<rparr>),
     call unix_time (\<lambda>t. inode_set ip (\<lambda>i. i\<lparr>i_ctime := t, i_mtime := t, i_atime := t\<rparr>)),
     iupdate E ip,
     provided (type = T_DIR) (steps [
       inode_set dp (\<lambda>i. i\<lparr>i_nlink := s16 (i_nlink i + 1)\<rparr>),
       iupdate E dp,
       call (inode_get ip i_inum) (\<lambda>inum. call (dirlink E ip (cstr ''.'') inum) (\<lambda>r.
         if r < 0 then panicp ''create dots''
         else call (inode_get dp i_inum) (\<lambda>pinum. call (dirlink E ip (cstr ''..'') pinum) (\<lambda>r.
           if r < 0 then panicp ''create dots'' else ret ()))))]),
     call (inode_get ip i_inum) (\<lambda>inum. call (dirlink E dp name inum) (\<lambda>r.
       if r < 0 then panicp ''create: dirlink'' else ret ())),
     iunlockput E dp]
     (ret ip)))"

definition create :: "'d env \<Rightarrow> string \<Rightarrow> int \<Rightarrow> int \<Rightarrow> int \<Rightarrow> ('d xv6, nat option) prog" where
  "create E path type major minor = call (nameiparent E path local_name) (\<lambda>(dp, name). case dp of
     None \<Rightarrow> ret None
   | Some dp \<Rightarrow> after [ilock E dp] (call (dirlookup E dp name) (\<lambda>r. case r of
       Some (ip, _) \<Rightarrow> after [iunlockput E dp, ilock E ip] (call (inode_get ip i_type) (\<lambda>itype.
         if type = T_FILE \<and> itype = T_FILE then ret (Some ip)
         else after [iunlockput E ip] (ret None)))
     | None \<Rightarrow> call (create_new E dp name type major minor) (\<lambda>ip. ret (Some ip)))))"

text \<open>The inode that \<open>sys_open\<close> opens, locked; \<open>None\<close> when the call fails, with the transaction ended.\<close>

definition open_inode :: "'d env \<Rightarrow> string \<Rightarrow> nat \<Rightarrow> ('d xv6, nat option) prog" where
  "open_inode E path omode = (if omode AND O_CREATE \<noteq> 0
     then call (create E path T_FILE 0 0) (\<lambda>r. case r of
       None \<Rightarrow> after [e_end_op E] (ret None)
     | Some ip \<Rightarrow> ret (Some ip))
     else call (namei E path) (\<lambda>r. case r of
       None \<Rightarrow> after [e_end_op E] (ret None)
     | Some ip \<Rightarrow> after [ilock E ip] (call (inode_get ip i_type) (\<lambda>type.
         if type = T_DIR \<and> omode \<noteq> O_RDONLY then after [iunlockput E ip, e_end_op E] (ret None)
         else ret (Some ip)))))"

definition sys_open :: "'d env \<Rightarrow> string \<Rightarrow> nat \<Rightarrow> ('d xv6, nat option) prog" where
  "sys_open E path omode = after [e_begin_op E] (call (open_inode E path omode) (\<lambda>r. case r of
     None \<Rightarrow> ret None
   | Some ip \<Rightarrow> call filealloc (\<lambda>r. case r of
       None \<Rightarrow> after [iunlockput E ip, e_end_op E] (ret None)
     | Some f \<Rightarrow> after [
         iunlock ip,
         e_end_op E,
         file_set f (\<lambda>x. x\<lparr>f_type := FD_INODE\<rparr>),
         file_set f (\<lambda>x. x\<lparr>f_ip := ip\<rparr>),
         file_set f (\<lambda>x. x\<lparr>f_off := 0\<rparr>),
         file_set f (\<lambda>x. x\<lparr>f_readable := (omode AND O_WRONLY = 0)\<rparr>),
         file_set f (\<lambda>x. x\<lparr>f_writable := (omode AND O_WRONLY \<noteq> 0 \<or> omode AND O_RDWR \<noteq> 0)\<rparr>)]
         (ret (Some f)))))"

text \<open>\<open>sys_fileclose\<close> does not check the handle: the null pointer is dereferenced.\<close>

definition sys_fileclose :: "'d env \<Rightarrow> nat option \<Rightarrow> ('d xv6, int) prog" where
  "sys_fileclose E fh = (case fh of None \<Rightarrow> fault OutOfBounds | Some f \<Rightarrow> after [fileclose E f] (ret 0))"

definition sys_read :: "'d env \<Rightarrow> nat option \<Rightarrow> bytes \<Rightarrow> nat \<Rightarrow> nat \<Rightarrow> ('d xv6, int \<times> bytes) prog" where
  "sys_read E fh buf sz off = (case fh of
     None \<Rightarrow> ret (-1, buf)
   | Some f \<Rightarrow> after [file_set f (\<lambda>x. x\<lparr>f_off := off\<rparr>)] (fileread E f buf (s32 (u32 sz))))"

definition sys_write :: "'d env \<Rightarrow> nat option \<Rightarrow> bytes \<Rightarrow> nat \<Rightarrow> nat \<Rightarrow> ('d xv6, int) prog" where
  "sys_write E fh buf sz off = (case fh of
     None \<Rightarrow> ret (-1)
   | Some f \<Rightarrow> after [file_set f (\<lambda>x. x\<lparr>f_off := off\<rparr>)] (filewrite E f buf (s32 (u32 sz))))"

definition sys_fstat :: "'d env \<Rightarrow> string \<Rightarrow> xstat \<Rightarrow> ('d xv6, int \<times> xstat) prog" where
  "sys_fstat E path st = call (sys_open E path O_RDONLY) (\<lambda>fh. case fh of
     None \<Rightarrow> ret (-1, st)
   | Some f \<Rightarrow> call (filestat E f st) (\<lambda>(r, st). after [fileclose E f] (ret (r, st))))"

definition sys_readdirent :: "'d env \<Rightarrow> nat option \<Rightarrow> bytes \<Rightarrow> nat \<Rightarrow> ('d xv6, int \<times> bytes) prog" where
  "sys_readdirent E fh e off = (case fh of
     None \<Rightarrow> ret (-1, e)
   | Some f \<Rightarrow> call (file_get f f_ip) (\<lambda>ip. call (inode_get ip id) (\<lambda>i.
       if i_type i \<noteq> T_DIR then ret (-1, e)
       else if off \<ge> i_size i then ret (0, e)
       else after [file_set f (\<lambda>x. x\<lparr>f_off := off\<rparr>)] (fileread E f e (int DIRENT_SIZE)))))"

definition sys_truncate :: "'d env \<Rightarrow> string \<Rightarrow> ('d xv6, int) prog" where
  "sys_truncate E path = call (sys_open E path O_RDWR) (\<lambda>fh. case fh of
     None \<Rightarrow> ret (-1)
   | Some f \<Rightarrow> after [
       e_begin_op E,
       call (file_get f f_ip) (itrunc E),
       e_end_op E,
       fileclose E f] (ret 0))"

definition sys_mkdir :: "'d env \<Rightarrow> string \<Rightarrow> ('d xv6, int) prog" where
  "sys_mkdir E path = after [e_begin_op E] (call (create E path T_DIR 0 0) (\<lambda>r. case r of
     None \<Rightarrow> after [e_end_op E] (ret (-1))
   | Some ip \<Rightarrow> after [iunlockput E ip, e_end_op E] (ret 0)))"

definition sys_mksock :: "'d env \<Rightarrow> string \<Rightarrow> ('d xv6, int) prog" where
  "sys_mksock E path = after [e_begin_op E] (call (create E path T_SOCK 0 0) (\<lambda>r. case r of
     None \<Rightarrow> after [e_end_op E] (ret (-1))
   | Some ip \<Rightarrow> after [iunlockput E ip, e_end_op E] (ret 0)))"

definition isdirempty :: "'d env \<Rightarrow> nat \<Rightarrow> ('d xv6, bool) prog" where
  "isdirempty E dp = call (inode_get dp i_size) (\<lambda>sz.
     call (for_each (dir_offs 2 sz) (\<lambda>off. call (readi E dp (\<lambda>_. 0) off DIRENT_SIZE) (\<lambda>(r, de).
       if r \<noteq> int DIRENT_SIZE then panicp ''isdirempty: readi''
       else ret (if de_inum de \<noteq> 0 then Some () else None))))
     (\<lambda>r. ret (r = None)))"

definition ENOENT :: int where "ENOENT = -2"

text \<open>The end of \<open>sys_dounlink\<close>, once the entry at \<open>off\<close> of \<open>dp\<close> may be removed.\<close>

definition unlink_entry :: "'d env \<Rightarrow> nat \<Rightarrow> nat \<Rightarrow> nat \<Rightarrow> ('d xv6, int) prog" where
  "unlink_entry E dp ip off = after [
     call (writei E dp (\<lambda>_. 0) off DIRENT_SIZE) (\<lambda>w. if w \<noteq> int DIRENT_SIZE then panicp ''unlink: writei'' else ret ()),
     call (inode_get ip i_type) (\<lambda>type. provided (type = T_DIR) (steps [
       inode_set dp (\<lambda>i. i\<lparr>i_nlink := s16 (i_nlink i - 1)\<rparr>),
       iupdate E dp])),
     iunlockput E dp,
     inode_set ip (\<lambda>i. i\<lparr>i_nlink := s16 (i_nlink i - 1)\<rparr>),
     iupdate E ip,
     iunlockput E ip] (ret 0)"

definition sys_dounlink :: "'d env \<Rightarrow> string \<Rightarrow> ('d xv6, int) prog" where
  "sys_dounlink E path = call (nameiparent E path local_name) (\<lambda>(dp, name). case dp of
     None \<Rightarrow> ret (-1)
   | Some dp \<Rightarrow> after [ilock E dp] (
       if namecmp name (cstr ''.'') = 0 \<or> namecmp name (cstr ''..'') = 0
       then after [iunlockput E dp] (ret (-1))
       else call (dirlookup E dp name) (\<lambda>r. case r of
         None \<Rightarrow> after [iunlockput E dp] (ret ENOENT)
       | Some (ip, off) \<Rightarrow> after [ilock E ip] (call (inode_get ip id) (\<lambda>i.
           if i_nlink i < 1 then panicp ''unlink: nlink < 1''
           else call (if i_type i = T_DIR then isdirempty E ip else ret True) (\<lambda>ok.
             if \<not> ok then after [iunlockput E ip, iunlockput E dp] (ret (-1))
             else unlink_entry E dp ip off))))))"

definition sys_unlink :: "'d env \<Rightarrow> string \<Rightarrow> ('d xv6, int) prog" where
  "sys_unlink E path = after [e_begin_op E] (call (sys_dounlink E path) (\<lambda>r. after [e_end_op E] (ret r)))"

text \<open>The label \<^verbatim>\<open>bad\<close> of \<open>sys_dolink\<close>.\<close>

definition dolink_bad :: "'d env \<Rightarrow> nat \<Rightarrow> ('d xv6, int) prog" where
  "dolink_bad E ip = after [
     ilock E ip,
     inode_set ip (\<lambda>i. i\<lparr>i_nlink := s16 (i_nlink i - 1)\<rparr>),
     iupdate E ip,
     iunlockput E ip] (ret (-1))"

definition sys_dolink :: "'d env \<Rightarrow> string \<Rightarrow> string \<Rightarrow> ('d xv6, int) prog" where
  "sys_dolink E old new = call (namei E old) (\<lambda>r. case r of
     None \<Rightarrow> after [e_end_op E] (ret (-1))
   | Some ip \<Rightarrow> after [ilock E ip] (call (inode_get ip i_type) (\<lambda>type.
       if type = T_DIR then after [iunlockput E ip, e_end_op E] (ret (-1))
       else after [
         inode_set ip (\<lambda>i. i\<lparr>i_nlink := s16 (i_nlink i + 1)\<rparr>),
         iupdate E ip,
         iunlock ip]
         (call (nameiparent E new local_name) (\<lambda>(dp, name). case dp of
            None \<Rightarrow> dolink_bad E ip
          | Some dp \<Rightarrow> after [ilock E dp] (call (inode_get dp i_dev) (\<lambda>ddev. call (inode_get ip id) (\<lambda>i.
              call (if ddev \<noteq> i_dev i then ret (-1) else dirlink E dp name (i_inum i)) (\<lambda>r.
                if r < 0 then after [iunlockput E dp] (dolink_bad E ip)
                else after [iunlockput E dp, iput E ip] (ret 0))))))))))"

definition sys_rename :: "'d env \<Rightarrow> string \<Rightarrow> string \<Rightarrow> ('d xv6, int) prog" where
  "sys_rename E path1 path2 = after [e_begin_op E] (call (sys_dounlink E path2) (\<lambda>r.
     call (if r = 0 \<or> r = ENOENT
           then call (sys_dolink E path1 path2) (\<lambda>r. if r = 0 then sys_dounlink E path1 else ret r)
           else ret r)
     (\<lambda>r. after [e_end_op E] (ret r))))"

definition sys_utime :: "'d env \<Rightarrow> string \<Rightarrow> nat \<Rightarrow> ('d xv6, int) prog" where
  "sys_utime E path time = call (sys_open E path O_WRONLY) (\<lambda>fh. case fh of
     None \<Rightarrow> ret (-1)
   | Some f \<Rightarrow> call (file_get f f_ip) (\<lambda>ip. after [
       e_begin_op E,
       ilock E ip,
       inode_set ip (\<lambda>i. i\<lparr>i_mtime := time\<rparr>),
       iupdate E ip,
       iunlock ip,
       e_end_op E,
       fileclose E f] (ret 0)))"

end
