(* ===== verification/FsLogic.thy ===== *)
theory FsLogic
  imports XvSys
begin

text \<open>
  A logic for the bodies of transactions. The judgement \<open>logged U F H m \<phi> V G K\<close> says of a
  program \<open>m\<close> that it changes the disk only through the log: started in a state with the invariant
  of the file system it may panic or wait forever, but it never loses power, and when it returns, the
  disk and its snapshot are what they were and the invariant holds again. The other arguments keep track
  of what the program has in hand: the inodes \<open>U\<close> and files \<open>F\<close> known to be in use before, those
  (\<open>V\<close>, \<open>G\<close>) known in addition afterwards, and the buffers held before (\<open>H\<close>) and after
  (\<open>K\<close>), each with its sector and with whether its changes are logged. There is one rule for each
  construct and each function, so that the judgement of a function of \<^verbatim>\<open>xv6/fs.c\<close> follows its
  definition.
\<close>

section \<open>Partial correctness\<close>

definition wlp :: "('s, 'a) prog \<Rightarrow> ('a \<Rightarrow> 's \<Rightarrow> bool) \<Rightarrow> ('s \<Rightarrow> bool) \<Rightarrow> 's \<Rightarrow> bool" where
  "wlp m Q C s = (case m s of Ret x t \<Rightarrow> Q x t | Cut t \<Rightarrow> C t | Err e \<Rightarrow> True)"

lemma wpm_wlp: "wpm m Q C s \<Longrightarrow> wlp m Q C s"
  by (simp add: wpm_def wlp_def split: res.splits)

lemma wlp_call: "wlp (call m f) Q C s = wlp m (\<lambda>x. wlp (f x) Q C) C s"
  by (simp add: wlp_def call_def split: res.split)

lemma wlp_ret: "wlp (ret x) Q C = Q x"
  by (simp add: wlp_def ret_def fun_eq_iff)

lemma wlp_fault: "wlp (fault e) Q C s"
  by (simp add: wlp_def fault_def)

lemma wlp_mono:
  assumes "wlp m Q C s" and "\<And>x t. Q x t \<Longrightarrow> Q' x t" and "\<And>t. C t \<Longrightarrow> C' t"
  shows "wlp m Q' C' s"
  using assms by (auto simp: wlp_def split: res.splits)

lemma wlp_Ret: "wlp m Q C s \<Longrightarrow> m s = Ret x t \<Longrightarrow> Q x t"
  by (simp add: wlp_def)

lemma wlp_Cut: "wlp m Q C s \<Longrightarrow> m s = Cut t \<Longrightarrow> C t"
  by (simp add: wlp_def)

lemma wpm_Ret_eq:
  assumes "\<And>Q C. wpm m Q C s = Q x t"
  shows "m s = Ret x t"
  using assms [of "\<lambda>y u. y = x \<and> u = t" "\<lambda>_. False"] by (auto simp: wpm_def split: res.splits)

text \<open>A loop, with an invariant; a loop whose body comes back to the same value and state never ends.\<close>

lemma wlp_loop:
  fixes f :: "'v \<Rightarrow> ('s, 'v + 'r) prog"
  assumes "I v s" and "\<And>v t. I v t \<Longrightarrow> wlp (f v) (\<lambda>x u. case x of Inl w \<Rightarrow> I w u | Inr r \<Rightarrow> Q r u) C t"
  shows "wlp (loop f v) Q C s"
proof -
  let ?B = "\<lambda>x :: ('s, 'v + 'r) res. case x of Ret (Inl v) t \<Rightarrow> True | _ \<Rightarrow> False"
  let ?C = "\<lambda>x. case x of Ret (Inl v) t \<Rightarrow> f v t | _ \<Rightarrow> x"
  let ?P = "\<lambda>x. case x of Ret (Inl w) u \<Rightarrow> I w u | Ret (Inr r) u \<Rightarrow> Q r u | Cut u \<Rightarrow> C u | Err e \<Rightarrow> True"
  have "?P x" if w: "while_option ?B ?C (Ret (Inl v) s) = Some x" for x
  proof (rule while_option_rule [where P = ?P, OF _ w])
    show "?P (?C y)" if "?P y" "?B y" for y
    proof (cases y)
      case (Ret z t)
      then obtain w where z: "z = Inl w" using \<open>?B y\<close> by (cases z) auto
      then have "I w t" using Ret \<open>?P y\<close> by simp
      from assms(2) [OF this] show ?thesis using Ret z by (auto simp: wlp_def split: res.splits sum.splits)
    qed (use \<open>?B y\<close> in auto)
  qed (use assms(1) in simp)
  then show ?thesis
    by (cases "while_option ?B ?C (Ret (Inl v) s)")
       (auto simp: wlp_def loop_def split: res.splits sum.splits)
qed

lemma loop_stuck:
  fixes f :: "'v \<Rightarrow> ('s, 'v + 'r) prog"
  assumes "f v s = Ret (Inl v) s"
  shows "loop f v s = Err Diverges"
proof -
  let ?B = "\<lambda>x :: ('s, 'v + 'r) res. case x of Ret (Inl v) t \<Rightarrow> True | _ \<Rightarrow> False"
  let ?C = "\<lambda>x. case x of Ret (Inl v) t \<Rightarrow> f v t | _ \<Rightarrow> x"
  have "while_option ?B ?C (Ret (Inl v) s) = None"
  proof (rule ccontr)
    assume "while_option ?B ?C (Ret (Inl v) s) \<noteq> None"
    then obtain x where w: "while_option ?B ?C (Ret (Inl v) s) = Some x" by blast
    have "x = Ret (Inl v) s" by (rule while_option_rule [OF _ w]) (use assms in auto)
    then show False using while_option_stop [OF w] by simp
  qed
  then show ?thesis by (simp add: loop_def)
qed

section \<open>The invariant of the file system\<close>

text \<open>The inodes of the cache that have been used, and the files whose inode has been.\<close>

definition iused :: "'d xv6 \<Rightarrow> nat set" where
  "iused s = {ip. i_dev (icache s ip) = ROOTDEV}"

definition fgood :: "'d xv6 \<Rightarrow> nat set" where
  "fgood s = {f. f_ip (ftable s f) \<in> iused s}"

definition fs_inv :: "('d \<Rightarrow> contents \<Rightarrow> contents \<Rightarrow> nat \<Rightarrow> bool) \<Rightarrow> 'd xv6 \<Rightarrow> acache \<Rightarrow> bool" where
  "fs_inv up s A \<longleftrightarrow> cache_inv up s A \<and> log_ok s A \<and> \<not> committing s \<and> {f. f_type (ftable s f) = FD_INODE} \<subseteq> fgood s
     \<and> set_option (cwd s) \<subseteq> iused s"

text \<open>The buffers held, with their sectors and whether their contents are those of the disk or logged.\<close>

type_synonym held = "nat \<Rightarrow> (nat \<times> bool) option"

definition held_ok :: "acache \<Rightarrow> held \<Rightarrow> bool" where
  "held_ok A H \<longleftrightarrow> (\<forall>b. a_held A b = map_option fst (H b))
     \<and> (\<forall>b sec. H b = Some (sec, True) \<and> sec < N_LAS \<longrightarrow> sec \<in> a_dirty A \<or> a_view A sec = blk (a_vol A) sec)"

text \<open>What holds after a program that was started in \<open>s\<close>.\<close>

definition lg_post :: "('d \<Rightarrow> contents \<Rightarrow> contents \<Rightarrow> nat \<Rightarrow> bool) \<Rightarrow> 'd xv6 \<Rightarrow> acache \<Rightarrow> 'd xv6 \<Rightarrow> nat set \<Rightarrow> nat set \<Rightarrow> held \<Rightarrow> bool" where
  "lg_post up s A t U F H \<longleftrightarrow> (\<exists>A'. fs_inv up t A' \<and> held_ok A' H \<and> a_st A' = a_st A \<and> a_vol A' = a_vol A \<and> a_n A' = a_n A
     \<and> outstanding t = outstanding s \<and> U \<subseteq> iused t \<and> F \<subseteq> fgood t)"

definition logged :: "('d \<Rightarrow> contents \<Rightarrow> contents \<Rightarrow> nat \<Rightarrow> bool) \<Rightarrow> nat set \<Rightarrow> nat set \<Rightarrow> held \<Rightarrow> ('d xv6, 'a) prog
    \<Rightarrow> ('a \<Rightarrow> bool) \<Rightarrow> ('a \<Rightarrow> nat set) \<Rightarrow> ('a \<Rightarrow> nat set) \<Rightarrow> ('a \<Rightarrow> held) \<Rightarrow> bool" where
  "logged up U F H m \<phi> V G K \<longleftrightarrow> (\<forall>s A. fs_inv up s A \<and> held_ok A H \<and> U \<subseteq> iused s \<and> F \<subseteq> fgood s \<longrightarrow>
     wlp m (\<lambda>x t. \<phi> x \<and> lg_post up s A t (U \<union> V x) (F \<union> G x) (K x)) (\<lambda>_. False) s)"

lemma loggedI:
  assumes "\<And>s A. fs_inv up s A \<Longrightarrow> held_ok A H \<Longrightarrow> U \<subseteq> iused s \<Longrightarrow> F \<subseteq> fgood s \<Longrightarrow>
    wlp m (\<lambda>x t. \<phi> x \<and> lg_post up s A t (U \<union> V x) (F \<union> G x) (K x)) (\<lambda>_. False) s"
  shows "logged up U F H m \<phi> V G K"
  using assms by (simp add: logged_def)

lemma loggedD:
  assumes "logged up U F H m \<phi> V G K" "fs_inv up s A" "held_ok A H" "U \<subseteq> iused s" "F \<subseteq> fgood s"
  shows "wlp m (\<lambda>x t. \<phi> x \<and> lg_post up s A t (U \<union> V x) (F \<union> G x) (K x)) (\<lambda>_. False) s"
  using assms by (simp add: logged_def)

lemma lg_post_refl: "fs_inv up s A \<Longrightarrow> held_ok A H \<Longrightarrow> U \<subseteq> iused s \<Longrightarrow> F \<subseteq> fgood s \<Longrightarrow> lg_post up s A s U F H"
  by (auto simp: lg_post_def)

lemma lg_post_mono: "lg_post up s A t U F H \<Longrightarrow> U' \<subseteq> U \<Longrightarrow> F' \<subseteq> F \<Longrightarrow> lg_post up s A t U' F' H"
  unfolding lg_post_def by (meson subset_trans)

named_theorems lg_rules "rules of the judgement logged"

section \<open>Rules for the constructs\<close>

abbreviation yes :: "'a \<Rightarrow> bool" where
  "yes \<equiv> \<lambda>_. True"

abbreviation none :: "'a \<Rightarrow> nat set" where
  "none \<equiv> \<lambda>_. {}"

lemma lg_conseq:
  assumes "logged up U F H m \<phi> V G K"
    and "\<And>x. \<phi> x \<Longrightarrow> \<phi>' x \<and> V' x \<subseteq> U \<union> V x \<and> G' x \<subseteq> F \<union> G x \<and> K' x = K x"
  shows "logged up U F H m \<phi>' V' G' K'"
proof (rule loggedI)
  fix s A assume s: "fs_inv up s A" "held_ok A H" "U \<subseteq> iused s" "F \<subseteq> fgood s"
  show "wlp m (\<lambda>x t. \<phi>' x \<and> lg_post up s A t (U \<union> V' x) (F \<union> G' x) (K' x)) (\<lambda>_. False) s"
    by (rule wlp_mono [OF loggedD [OF assms(1) s]]) (auto dest!: assms(2) elim!: lg_post_mono)
qed

lemma lg_call [lg_rules]:
  assumes "logged up U F H m \<phi> V G K"
    and "\<And>x. \<phi> x \<Longrightarrow> logged up (U \<union> V x) (F \<union> G x) (K x) (f x) \<phi>' V' G' K'"
  shows "logged up U F H (call m f) \<phi>' V' G' K'"
proof (rule loggedI)
  fix s A assume s: "fs_inv up s A" "held_ok A H" "U \<subseteq> iused s" "F \<subseteq> fgood s"
  show "wlp (call m f) (\<lambda>x t. \<phi>' x \<and> lg_post up s A t (U \<union> V' x) (F \<union> G' x) (K' x)) (\<lambda>_. False) s"
    unfolding wlp_call
  proof (rule wlp_mono [OF loggedD [OF assms(1) s]])
    fix x t assume "\<phi> x \<and> lg_post up s A t (U \<union> V x) (F \<union> G x) (K x)"
    then obtain A' where x: "\<phi> x" and A': "fs_inv up t A'" "held_ok A' (K x)" "U \<union> V x \<subseteq> iused t" "F \<union> G x \<subseteq> fgood t"
      "a_st A' = a_st A" "a_vol A' = a_vol A" "a_n A' = a_n A" "outstanding t = outstanding s" by (auto simp: lg_post_def)
    show "wlp (f x) (\<lambda>x t. \<phi>' x \<and> lg_post up s A t (U \<union> V' x) (F \<union> G' x) (K' x)) (\<lambda>_. False) t"
      by (rule wlp_mono [OF loggedD [OF assms(2) [OF x] A'(1-4)]]) (use A'(5-8) in \<open>auto simp: lg_post_def\<close>)
  qed simp
qed

lemma lg_ret [lg_rules]:
  assumes "\<phi> x" "V x \<subseteq> U" "G x \<subseteq> F" "K x = H"
  shows "logged up U F H (ret x) \<phi> V G K"
  using assms by (intro loggedI) (auto simp: wlp_ret intro!: lg_post_refl)

lemma lg_fault [lg_rules]: "logged up U F H (fault e) \<phi> V G K" "logged up U F H (panicp msg) \<phi> V G K"
  by (simp_all add: logged_def wlp_fault panicp_def)

lemma lg_after [lg_rules]:
  "logged up U F H m \<phi> V G K \<Longrightarrow> logged up U F H (after [] m) \<phi> V G K"
  "logged up U F H (call c (\<lambda>_. after cs m)) \<phi> V G K \<Longrightarrow> logged up U F H (after (c # cs) m) \<phi> V G K"
  by simp_all

lemma lg_steps [lg_rules]: "logged up U F H (after cs (ret ())) \<phi> V G K \<Longrightarrow> logged up U F H (steps cs) \<phi> V G K"
  by (simp add: steps_def)

lemma lg_if [lg_rules]:
  "(b \<Longrightarrow> logged up U F H m \<phi> V G K) \<Longrightarrow> (\<not> b \<Longrightarrow> logged up U F H n \<phi> V G K) \<Longrightarrow> logged up U F H (if b then m else n) \<phi> V G K"
  by simp

lemma lg_let [lg_rules]: "logged up U F H (f x) \<phi> V G K \<Longrightarrow> logged up U F H (let y = x in f y) \<phi> V G K"
  by simp

lemma lg_provided [lg_rules]: "(b \<Longrightarrow> logged up U F H c yes none none (\<lambda>_. H)) \<Longrightarrow> logged up U F H (provided b c) yes none none (\<lambda>_. H)"
  by (auto simp: provided_def intro: lg_ret)

lemma lg_check [lg_rules]: "logged up U F H (check b) (\<lambda>_. b) none none (\<lambda>_. H)"
  by (auto simp: check_def intro: lg_ret lg_fault)

lemma lg_option [lg_rules]:
  "(r = None \<Longrightarrow> logged up U F H m \<phi> V G K) \<Longrightarrow> (\<And>x. r = Some x \<Longrightarrow> logged up U F H (f x) \<phi> V G K)
    \<Longrightarrow> logged up U F H (case r of None \<Rightarrow> m | Some x \<Rightarrow> f x) \<phi> V G K"
  by (cases r) auto

lemma lg_prod [lg_rules]:
  "(\<And>x y. p = (x, y) \<Longrightarrow> logged up U F H (f x y) \<phi> V G K) \<Longrightarrow> logged up U F H (case p of (x, y) \<Rightarrow> f x y) \<phi> V G K"
  by (cases p) auto

lemma lg_for_each:
  assumes "\<And>y. y \<in> set ys \<Longrightarrow> logged up U F H (f y) \<phi> V G K" and "\<phi> None" "V None = {}" "G None = {}" "K None = H"
  shows "logged up U F H (for_each ys f) \<phi> V G K"
  using assms(1)
proof (induction ys)
  case Nil
  then show ?case using assms(2-5) by (auto intro: lg_ret)
next
  case (Cons y ys)
  have "logged up U F H (call (f y) (\<lambda>r. case r of None \<Rightarrow> for_each ys f | Some z \<Rightarrow> ret (Some z))) \<phi> V G K"
  proof (rule lg_call)
    show "logged up U F H (f y) \<phi> V G K" by (rule Cons.prems) simp
    show "logged up (U \<union> V x) (F \<union> G x) (K x) (case x of None \<Rightarrow> for_each ys f | Some z \<Rightarrow> ret (Some z)) \<phi> V G K" if "\<phi> x" for x
      using Cons assms(2-5) that by (cases x) (auto intro: lg_ret)
  qed
  then show ?case by simp
qed

lemma lg_for_all [lg_rules]:
  assumes "\<And>y. y \<in> set ys \<Longrightarrow> logged up U F H (f y) yes none none (\<lambda>_. H)"
  shows "logged up U F H (for_all ys f) yes none none (\<lambda>_. H)"
  using assms
proof (induction ys)
  case (Cons y ys)
  have "logged up U F H (f y) yes none none (\<lambda>_. H)" by (rule Cons.prems) simp
  moreover have "logged up U F H (for_all ys f) yes none none (\<lambda>_. H)" using Cons by simp
  ultimately show ?case by (auto intro: lg_call)
qed (auto intro: lg_ret)

text \<open>In a loop \<open>W\<close> are the inodes that the value of the loop has in hand.\<close>

lemma lg_loop:
  assumes "\<And>v. logged up (U \<union> W v) F H (f v) yes (\<lambda>x. case x of Inl w \<Rightarrow> W w | Inr r \<Rightarrow> V r) none (\<lambda>_. H)"
    and "W v \<subseteq> U"
  shows "logged up U F H (loop f v) yes V none (\<lambda>_. H)"
proof (rule loggedI)
  fix s A assume s: "fs_inv up s A" "held_ok A H" "U \<subseteq> iused s" "F \<subseteq> fgood s"
  let ?J = "\<lambda>v t. lg_post up s A t (U \<union> W v) F H"
  show "wlp (loop f v) (\<lambda>x t. True \<and> lg_post up s A t (U \<union> V x) (F \<union> {}) H) (\<lambda>_. False) s"
  proof (rule wlp_loop [where I = ?J])
    show "?J v s" using s assms(2) by (auto intro: lg_post_refl)
    fix v t assume "?J v t"
    then obtain A' where A': "fs_inv up t A'" "held_ok A' H" "U \<union> W v \<subseteq> iused t" "F \<subseteq> fgood t"
      "a_st A' = a_st A" "a_vol A' = a_vol A" "a_n A' = a_n A" "outstanding t = outstanding s" by (auto simp: lg_post_def)
    show "wlp (f v) (\<lambda>x u. case x of Inl w \<Rightarrow> ?J w u | Inr r \<Rightarrow> True \<and> lg_post up s A u (U \<union> V r) (F \<union> {}) H) (\<lambda>_. False) t"
      by (rule wlp_mono [OF loggedD [OF assms(1) A'(1-4)]]) (use A'(5-8) in \<open>auto simp: lg_post_def split: sum.splits\<close>)
  qed
qed

section \<open>Rules for the state\<close>

lemma fs_inv_same:
  assumes "fs_inv up s A" "cache_inv up t A'" "same_fs s t" "a_dirty A' = a_dirty A"
  shows "fs_inv up t A'" "iused t = iused s" "fgood t = fgood s" "outstanding t = outstanding s"
  using assms log_ok_same [of s A t A'] same_fsD [OF assms(3)] by (auto simp: fs_inv_def iused_def fgood_def)

lemma lg_same:
  assumes s: "fs_inv up s A" "U \<subseteq> iused s" "F \<subseteq> fgood s"
    and t: "cache_inv up t A'" "same_fs s t" "a_dirty A' = a_dirty A" "a_st A' = a_st A" "a_vol A' = a_vol A" "a_n A' = a_n A" "held_ok A' K"
  shows "lg_post up s A t U F K"
  using fs_inv_same [OF s(1) t(1-3)] s(2,3) t(4-) by (auto simp: lg_post_def)

lemma lg_read:
  assumes "\<And>s. m s = Ret (g s) s" "\<And>s A. fs_inv up s A \<Longrightarrow> U \<subseteq> iused s \<Longrightarrow> F \<subseteq> fgood s \<Longrightarrow> \<phi> (g s) \<and> V (g s) \<subseteq> iused s \<and> G (g s) \<subseteq> fgood s"
  shows "logged up U F H m \<phi> V G (\<lambda>_. H)"
proof (rule loggedI)
  fix s A assume s: "fs_inv up s A" "held_ok A H" "U \<subseteq> iused s" "F \<subseteq> fgood s"
  then show "wlp m (\<lambda>x t. \<phi> x \<and> lg_post up s A t (U \<union> V x) (F \<union> G x) H) (\<lambda>_. False) s"
    using assms(1) assms(2) [OF s(1,3,4)] by (simp add: wlp_def lg_post_refl)
qed

lemma lg_buf_get [lg_rules]: "logged up U F H (buf_get b g) yes none none (\<lambda>_. H)"
  by (rule lg_read [where g = "\<lambda>s. g (bufs s b)"]) (simp_all add: buf_get_def gets_def)

lemma lg_inode_get [lg_rules]: "logged up U F H (inode_get ip id) (\<lambda>i. ip \<in> U \<longrightarrow> i_dev i = ROOTDEV) none none (\<lambda>_. H)"
  by (rule lg_read [where g = "\<lambda>s. icache s ip"]) (auto simp: inode_get_def gets_def iused_def)

lemma lg_get_dev [lg_rules]: "logged up U F H (inode_get ip i_dev) (\<lambda>dev. ip \<in> U \<longrightarrow> dev = ROOTDEV) none none (\<lambda>_. H)"
  by (rule lg_read [where g = "\<lambda>s. i_dev (icache s ip)"]) (auto simp: inode_get_def gets_def iused_def)

lemma lg_get_field: "logged up U F H (inode_get ip g) yes none none (\<lambda>_. H)"
  by (rule lg_read [where g = "\<lambda>s. g (icache s ip)"]) (auto simp: inode_get_def gets_def)

lemmas lg_get_fields [lg_rules] = lg_get_field [where g = i_ref] lg_get_field [where g = i_busy] lg_get_field [where g = i_type]
  lg_get_field [where g = i_size] lg_get_field [where g = i_inum]

lemma lg_cwd [lg_rules]: "logged up U F H (gets cwd) yes set_option none (\<lambda>_. H)"
  by (rule lg_read [where g = cwd]) (auto simp: gets_def fs_inv_def)

lemma lg_file_get [lg_rules]:
  "logged up U F H (file_get f id) yes (\<lambda>ff. if f_type ff = FD_INODE \<or> f \<in> F then {f_ip ff} else {})
    (\<lambda>ff. if f_type ff = FD_INODE then {f} else {}) (\<lambda>_. H)"
  by (rule lg_read [where g = "\<lambda>s. ftable s f"]) (auto simp: file_get_def gets_def fs_inv_def fgood_def)

lemma lg_file_ip [lg_rules]: "logged up U F H (file_get f f_ip) yes (\<lambda>ip. if f \<in> F then {ip} else {}) none (\<lambda>_. H)"
  by (rule lg_read [where g = "\<lambda>s. f_ip (ftable s f)"]) (auto simp: file_get_def gets_def fs_inv_def fgood_def)

lemma lg_file_off [lg_rules]: "logged up U F H (file_get f f_off) yes none none (\<lambda>_. H)"
  by (rule lg_read [where g = "\<lambda>s. f_off (ftable s f)"]) (auto simp: file_get_def gets_def)

lemma lg_file_ref [lg_rules]: "logged up U F H (file_get f f_ref) yes none none (\<lambda>_. H)"
  by (rule lg_read [where g = "\<lambda>s. f_ref (ftable s f)"]) (auto simp: file_get_def gets_def)

lemma lg_change:
  assumes "\<And>s. m s = Ret x (g s)" "\<And>s A. fs_inv up s A \<Longrightarrow> U \<subseteq> iused s \<Longrightarrow> F \<subseteq> fgood s \<Longrightarrow>
    fs_inv up (g s) A \<and> outstanding (g s) = outstanding s \<and> U \<union> V x \<subseteq> iused (g s) \<and> F \<union> G x \<subseteq> fgood (g s)"
  shows "logged up U F H m yes V G (\<lambda>_. H)"
  using assms by (intro loggedI) (auto simp: wlp_def lg_post_def)

lemma lg_inode_set [lg_rules]:
  assumes "\<And>i. i_dev (f i) = i_dev i"
  shows "logged up U F H (inode_set ip f) yes none none (\<lambda>_. H)"
proof (rule lg_change)
  let ?g = "\<lambda>s. s\<lparr>icache := (icache s)(ip := f (icache s ip))\<rparr>"
  show "inode_set ip f s = Ret () (?g s)" for s :: "'a xv6" by (simp add: inode_set_def modify_def)
  fix s :: "'a xv6" and A assume s: "fs_inv up s A" "U \<subseteq> iused s" "F \<subseteq> fgood s"
  have "iused (?g s) = iused s" "fgood (?g s) = fgood s" using assms by (auto simp: iused_def fgood_def)
  then show "fs_inv up (?g s) A \<and> outstanding (?g s) = outstanding s \<and> U \<union> none () \<subseteq> iused (?g s) \<and> F \<union> none () \<subseteq> fgood (?g s)"
    using s by (simp add: fs_inv_def cache_inv_def log_ok_def log_list_def)
qed

lemma lg_inode_dev:
  "logged up U F H (inode_set ip (\<lambda>i. i\<lparr>i_dev := ROOTDEV\<rparr>)) yes (\<lambda>_. {ip}) none (\<lambda>_. H)"
proof (rule lg_change)
  let ?g = "\<lambda>s. s\<lparr>icache := (icache s)(ip := (icache s ip)\<lparr>i_dev := ROOTDEV\<rparr>)\<rparr>"
  show "inode_set ip (\<lambda>i. i\<lparr>i_dev := ROOTDEV\<rparr>) s = Ret () (?g s)" for s :: "'a xv6" by (simp add: inode_set_def modify_def)
  fix s :: "'a xv6" and A assume s: "fs_inv up s A" "U \<subseteq> iused s" "F \<subseteq> fgood s"
  have "iused (?g s) = insert ip (iused s)" by (auto simp: iused_def)
  then have "iused s \<subseteq> iused (?g s)" "fgood s \<subseteq> fgood (?g s)" "ip \<in> iused (?g s)" by (auto simp: fgood_def)
  then show "fs_inv up (?g s) A \<and> outstanding (?g s) = outstanding s \<and> U \<union> {ip} \<subseteq> iused (?g s) \<and> F \<union> none () \<subseteq> fgood (?g s)"
    using s by (auto simp: fs_inv_def cache_inv_def log_ok_def log_list_def)
qed

lemma lg_file_set [lg_rules]:
  assumes "\<And>x. f_ip (h x) = f_ip x \<and> (f_type (h x) = FD_INODE \<longrightarrow> f_type x = FD_INODE)"
  shows "logged up U F H (file_set f h) yes none none (\<lambda>_. H)"
proof (rule lg_change)
  let ?g = "\<lambda>s. s\<lparr>ftable := (ftable s)(f := h (ftable s f))\<rparr>"
  show "file_set f h s = Ret () (?g s)" for s :: "'a xv6" by (simp add: file_set_def modify_def)
  fix s :: "'a xv6" and A assume s: "fs_inv up s A" "U \<subseteq> iused s" "F \<subseteq> fgood s"
  have "iused (?g s) = iused s" "fgood (?g s) = fgood s" "{k. f_type (ftable (?g s) k) = FD_INODE} \<subseteq> {k. f_type (ftable s k) = FD_INODE}"
    using assms by (auto simp: iused_def fgood_def split: if_splits)
  then show "fs_inv up (?g s) A \<and> outstanding (?g s) = outstanding s \<and> U \<union> none () \<subseteq> iused (?g s) \<and> F \<union> none () \<subseteq> fgood (?g s)"
    using s by (auto simp: fs_inv_def cache_inv_def log_ok_def log_list_def)
qed

lemma lg_unix_time [lg_rules]: "logged up U F H unix_time yes none none (\<lambda>_. H)"
proof (rule loggedI)
  fix s :: "'a xv6" and A assume s: "fs_inv up s A" "held_ok A H" "U \<subseteq> iused s" "F \<subseteq> fgood s"
  then have "lg_post up s A (s\<lparr>ntime := Suc (ntime s)\<rparr>) (U \<union> {}) (F \<union> {}) H"
    by (auto simp: lg_post_def fs_inv_def cache_inv_def log_ok_def log_list_def iused_def fgood_def)
  then show "wlp unix_time (\<lambda>x t. yes x \<and> lg_post up s A t (U \<union> none x) (F \<union> none x) H) (\<lambda>_. False) s"
    by (simp add: wlp_def unix_time_def call_def gets_def modify_def ret_def)
qed

section \<open>Rules for the buffers\<close>

definition data_only :: "(buf \<Rightarrow> buf) \<Rightarrow> bool" where
  "data_only f \<longleftrightarrow> (\<forall>bf. f bf = bf\<lparr>b_data := b_data (f bf)\<rparr> \<and> (is_blk (b_data bf) \<longrightarrow> is_blk (b_data (f bf))))"

lemma held_okD:
  assumes "held_ok A H" "H b \<noteq> None"
  shows "a_held A b = Some (fst (the (H b)))"
  using assms by (auto simp: held_ok_def)

lemma held_distinct:
  assumes "cache_inv up s A" "a_held A a = Some sec" "a_held A b = Some sec"
  shows "a = b"
  using held_buf(7) [OF assms(1,2)] held_buf(7) [OF assms(1,3)] assms(1) bufs_okD(2) by (auto simp: cache_inv_def)

lemma lg_store [lg_rules]:
  assumes "H b \<noteq> None" "data_only f"
  shows "logged up U F H (buf_set b f) yes none none (\<lambda>_. H(b \<mapsto> (fst (the (H b)), False)))"
proof (rule loggedI)
  fix s A assume s: "fs_inv up s A" "held_ok A H" "U \<subseteq> iused s" "F \<subseteq> fgood s"
  let ?sec = "fst (the (H b))"
  have inv: "cache_inv up s A" using s(1) by (simp add: fs_inv_def)
  note h = held_okD [OF s(2) assms(1)]
  note B = held_buf [OF inv h]
  let ?x = "f (bufs s b)" and ?A = "A\<lparr>a_view := (a_view A)(?sec := b_data (f (bufs s b)))\<rparr>"
  let ?B = "(bufs s)(b := ?x)"
  have x: "?x = (bufs s b)\<lparr>b_data := b_data ?x\<rparr>" "is_blk (b_data ?x)"
    using assms(2) B(5,6) by (auto simp: data_only_def)
  have fields: "b_dev ?x = b_dev (bufs s b)" "b_sector ?x = b_sector (bufs s b)" "b_next ?x = b_next (bufs s b)" "b_prev ?x = b_prev (bufs s b)"
    "b_valid ?x = b_valid (bufs s b)" "b_busy ?x = b_busy (bufs s b)" "b_dirty ?x = b_dirty (bufs s b)" by (subst x(1), simp)+
  have "bufs_ok ?B ?A"
    using inv B h fields by (intro bufs_ok_upd [OF _ B(7)]) (auto simp: cache_inv_def fun_upd_idem insert_absorb)
  moreover have "?sec \<in> ran (a_held A)" using h by (auto simp: ran_def)
  then have "view_ok ?A" using inv x(2) by (simp add: cache_inv_def view_ok_def)
  ultimately have t: "cache_inv up (s\<lparr>bufs := ?B\<rparr>) ?A" using inv by (simp add: cache_inv_def)
  have "held_ok ?A (H(b \<mapsto> (?sec, False)))"
    using s(2) h held_distinct [OF inv h] by (auto simp: held_ok_def split: if_splits)
  then have "lg_post up s A (s\<lparr>bufs := ?B\<rparr>) (U \<union> {}) (F \<union> {}) (H(b \<mapsto> (?sec, False)))"
    using lg_same [OF s(1) _ _ t] s(3,4) same_fsI [where s = s and d = "dsk s" and f = "fsstats s" and B = ?B] by simp
  then show "wlp (buf_set b f) (\<lambda>x t. yes x \<and> lg_post up s A t (U \<union> none x) (F \<union> none x) (H(b \<mapsto> (?sec, False)))) (\<lambda>_. False) s"
    by (simp add: wlp_def buf_set_def modify_def)
qed

lemma lg_brelse [lg_rules]:
  assumes "H b \<noteq> None \<and> snd (the (H b))"
  shows "logged up U F H (brelse b) yes none none (\<lambda>_. H(b := None))"
proof (rule loggedI)
  fix s A assume s: "fs_inv up s A" "held_ok A H" "U \<subseteq> iused s" "F \<subseteq> fgood s"
  obtain sec where sec: "H b = Some (sec, True)" using assms by auto
  have inv: "cache_inv up s A" using s(1) by (simp add: fs_inv_def)
  have h: "a_held A b = Some sec" using s(2) sec by (simp add: held_ok_def)
  have "wpm (brelse b) (\<lambda>x t. yes x \<and> lg_post up s A t (U \<union> none x) (F \<union> none x) (H(b := None))) (\<lambda>_. False) s"
  proof (rule wp_brelse [OF inv h])
    show "sec \<in> a_dirty A \<or> a_view A sec = blk (a_vol A) sec" if "sec < N_LAS" using s(2) sec that by (auto simp: held_ok_def)
    fix t assume t: "cache_inv up t (A\<lparr>a_held := (a_held A)(b := None)\<rparr>)" "same_fs s t"
    have "held_ok (A\<lparr>a_held := (a_held A)(b := None)\<rparr>) (H(b := None))" using s(2) by (auto simp: held_ok_def)
    then show "yes () \<and> lg_post up s A t (U \<union> none ()) (F \<union> none ()) (H(b := None))"
      using lg_same [OF s(1) _ _ t] s(3,4) by simp
  qed
  then show "wlp (brelse b) (\<lambda>x t. yes x \<and> lg_post up s A t (U \<union> none x) (F \<union> none x) (H(b := None))) (\<lambda>_. False) s"
    by (rule wpm_wlp)
qed

text \<open>A buffer that is held already is waited for forever; with every buffer busy or dirty \<open>bget\<close> panics.\<close>

lemma bread_held:
  assumes inv: "cache_inv up s A" and h: "a_held A b = Some sec"
  shows "bread D ROOTDEV sec s = Err Diverges"
proof -
  note B = held_buf [OF inv h]
  have ok: "bufs_ok (bufs s) A" using inv by (simp add: cache_inv_def)
  then obtain xs where xs: "dll (bufs s) xs" using bufs_okD(1) by blast
  let ?f = "find (\<lambda>b. b_dev (bufs s b) = ROOTDEV \<and> b_sector (bufs s b) = sec) xs"
  have set: "set xs = {..<NBUF}" using xs by (simp add: dll_def)
  then have "?f \<noteq> None" using B(1,7) by (auto simp: find_None_iff caches_def)
  then obtain b' where f: "?f = Some b'" by blast
  then have "caches (bufs s) b' sec" using set by (auto simp: find_Some_iff caches_def)
  then have "b' = b" using bufs_okD(2) [OF ok _ B(7)] by blast
  then have "bget_cached ROOTDEV sec s = Ret (Some b) s"
    using f by (intro wpm_Ret_eq) (simp add: wpm_bget_cached [OF xs])
  then have "bget ROOTDEV sec s = Err Diverges"
    unfolding bget_def using B(2) by (intro loop_stuck) (simp add: call_def buf_get_def gets_def ret_def)
  then show ?thesis by (simp add: bread_def call_def)
qed

lemma bread_full:
  assumes inv: "cache_inv up s A" and "\<nexists>b. caches (bufs s) b sec" "\<forall>b<NBUF. b_busy (bufs s b) \<or> b_dirty (bufs s b)"
  shows "bread D ROOTDEV sec s = Err (Panic ''bget: no buffers'')"
proof -
  obtain xs where xs: "dll (bufs s) xs" using inv bufs_okD(1) by (auto simp: cache_inv_def)
  have set: "set xs = {..<NBUF}" using xs by (simp add: dll_def)
  then have "find (\<lambda>b. b_dev (bufs s b) = ROOTDEV \<and> b_sector (bufs s b) = sec) xs = None"
    using assms(2) by (auto simp: find_None_iff caches_def)
  then have 1: "bget_cached ROOTDEV sec s = Ret None s" by (intro wpm_Ret_eq) (simp add: wpm_bget_cached [OF xs])
  have "find (\<lambda>b. \<not> b_busy (bufs s b) \<and> \<not> b_dirty (bufs s b)) (rev xs) = None"
    using assms(3) set by (auto simp: find_None_iff)
  then have "bget_recycle s = Ret None s" by (intro wpm_Ret_eq) (simp add: wpm_bget_recycle [OF xs])
  then show ?thesis using 1 by (simp add: bread_def bget_def loop_unfold call_def panicp_def fault_def)
qed

context snapshot_disk
begin

lemma lg_bread [lg_rules]:
  assumes "dev = ROOTDEV"
  shows "logged up U F H (bread ops dev sec) (\<lambda>b. H b = None) none none (\<lambda>b. H(b \<mapsto> (sec, True)))"
proof (rule loggedI)
  fix s A assume s: "fs_inv up s A" "held_ok A H" "U \<subseteq> iused s" "F \<subseteq> fgood s"
  have inv: "cache_inv up s A" using s(1) by (simp add: fs_inv_def)
  let ?Q = "\<lambda>x t. H x = None \<and> lg_post up s A t (U \<union> none x) (F \<union> none x) (H(x \<mapsto> (sec, True)))"
  show "wlp (bread ops dev sec) ?Q (\<lambda>_. False) s"
  proof (cases "sec \<in> ran (a_held A)")
    case True
    then show ?thesis using bread_held [OF inv] assms by (auto simp: ran_def wlp_def)
  next
    case held: False
    show ?thesis
    proof (cases "(\<exists>b. caches (bufs s) b sec) \<or> (\<exists>b<NBUF. \<not> b_busy (bufs s b) \<and> \<not> b_dirty (bufs s b))")
      case False
      then show ?thesis using bread_full [OF inv] assms by (simp add: wlp_def)
    next
      case True
      have "wpm (bread ops ROOTDEV sec) ?Q (\<lambda>_. False) s"
      proof (rule wp_bread_any [OF inv held True])
        fix b x t assume b: "a_held A b = None" and x: "sec < N_LAS \<Longrightarrow> x = a_view A sec"
          and t: "cache_inv up t (A\<lparr>a_view := (a_view A)(sec := x), a_held := (a_held A)(b := Some sec)\<rparr>)" "same_fs s t"
        have Hb: "H b = None" using s(2) b by (simp add: held_ok_def)
        have clean: "sec \<in> a_dirty A \<or> a_view A sec = blk (a_vol A) sec" if "sec < N_LAS"
          using inv held that by (auto simp: cache_inv_def view_ok_def)
        have "sec' \<noteq> sec" if "H b' = Some (sec', c)" for b' sec' c
          using s(2) held that by (auto simp: held_ok_def ran_def)
        then have "held_ok (A\<lparr>a_view := (a_view A)(sec := x), a_held := (a_held A)(b := Some sec)\<rparr>) (H(b \<mapsto> (sec, True)))"
          using s(2) clean x by (auto simp: held_ok_def)
        then show "?Q b t" using lg_same [OF s(1) _ _ t] s(3,4) Hb by simp
      qed
      then show ?thesis using assms by (auto intro: wpm_wlp)
    qed
  qed
qed

end

lemma lg_log_append:
  assumes "H b \<noteq> None"
  shows "logged up U F H (log_append b) yes none none (\<lambda>_. H(b \<mapsto> (fst (the (H b)), True)))"
proof (rule loggedI)
  fix s A assume s: "fs_inv up s A" "held_ok A H" "U \<subseteq> iused s" "F \<subseteq> fgood s"
  let ?sec = "fst (the (H b))"
  have inv: "cache_inv up s A" and log: "log_ok s A" using s(1) by (simp_all add: fs_inv_def)
  note h = held_okD [OF s(2) assms(1)]
  note B = held_buf [OF inv h]
  let ?Q = "\<lambda>x t. yes x \<and> lg_post up s A t (U \<union> none x) (F \<union> none x) (H(b \<mapsto> (?sec, True)))"
  show "wlp (log_append b) ?Q (\<lambda>_. False) s"
  proof (cases "?sec \<in> a_dirty A \<or> lh_n s < int LOGSIZE")
    case True
    have "wpm (log_append b) ?Q (\<lambda>_. False) s"
    proof (rule wp_log_append [OF inv log h True])
      fix t assume t: "cache_inv up t (A\<lparr>a_dirty := insert ?sec (a_dirty A)\<rparr>)" "log_ok t (A\<lparr>a_dirty := insert ?sec (a_dirty A)\<rparr>)"
        "outstanding t = outstanding s" "icache t = icache s" "ftable t = ftable s" "same_fs (s\<lparr>lh_n := lh_n t, lh_sector := lh_sector t\<rparr>) t"
      have "cwd t = cwd s" "committing t = committing s" using same_fsD(4,11) [OF t(6)] by simp_all
      then have "fs_inv up t (A\<lparr>a_dirty := insert ?sec (a_dirty A)\<rparr>)" "iused t = iused s" "fgood t = fgood s"
        using s(1) t by (simp_all add: fs_inv_def iused_def fgood_def)
      moreover have "held_ok (A\<lparr>a_dirty := insert ?sec (a_dirty A)\<rparr>) (H(b \<mapsto> (?sec, True)))"
        using s(2) h by (auto simp: held_ok_def)
      ultimately show "?Q () t" using s(3,4) t(3) by (auto simp: lg_post_def)
    qed
    then show ?thesis by (rule wpm_wlp)
  next
    case False
    have n: "0 \<le> lh_n s" "lh_n s \<le> int LOGSIZE" using log by (simp_all add: log_ok_def)
    have "?sec \<notin> set (log_list s)" using False log by (simp add: log_ok_def)
    then have "find (\<lambda>i. lh_sector s i = ?sec) [0..<nat (lh_n s)] = None"
      by (force simp: find_None_iff log_list_def simp flip: image_iff)
    then have "log_index ?sec s = Ret (nat (lh_n s)) s"
      by (intro wpm_Ret_eq) (simp add: wp_log_index [OF n])
    then show ?thesis
      using False n B(4) by (simp add: wlp_def log_append_def call_def buf_get_def gets_def steps_def check_def fault_def)
  qed
qed

lemma lg_gets: "logged up U F H (gets g) yes none none (\<lambda>_. H)"
  by (rule lg_read [where g = g]) (simp_all add: gets_def)

lemma lg_sc_log_write: "H b \<noteq> None \<Longrightarrow> logged up U F H (sc_log_write b) yes none none (\<lambda>_. H(b \<mapsto> (fst (the (H b)), True)))"
  unfolding sc_log_write_def by (rule lg_call, rule lg_gets, rule lg_if, rule lg_fault, simp add: lg_log_append)

lemma lg_wal_log_write: "H b \<noteq> None \<Longrightarrow> logged up U F H (wal_log_write b) yes none none (\<lambda>_. H(b \<mapsto> (fst (the (H b)), True)))"
  unfolding wal_log_write_def
  by (rule lg_call, rule lg_gets, rule lg_prod, rule lg_if, rule lg_fault, rule lg_call, rule lg_gets, rule lg_if, rule lg_fault,
      simp add: lg_log_append)

end
