(* ===== verification/FsBodies.thy ===== *)
theory FsBodies
  imports FsLogic
begin

text \<open>
  The functions of \<^verbatim>\<open>xv6/fs.c\<close> change the disk only through the log, whatever log the file
  system is linked with, as long as its \<open>log_write\<close> does what \<open>fs_log\<close> asks of it.
\<close>

locale fs_log = snapshot_disk ops up down
  for ops :: "'d disk_ops" and up :: "'d \<Rightarrow> contents \<Rightarrow> contents \<Rightarrow> nat \<Rightarrow> bool" and down :: "'d \<Rightarrow> contents \<Rightarrow> bool" +
  fixes E :: "'d env"
  assumes disk_E: "e_disk E = ops"
    and log_write_law: "H b \<noteq> None \<Longrightarrow> logged up U F H (e_log_write E b) yes none none (\<lambda>_. H(b \<mapsto> (fst (the (H b)), True)))"

section \<open>More rules\<close>

lemma lg_ret_n: "logged up U F H (ret x) yes none none (\<lambda>_. H)"
  by (rule lg_ret) auto

lemma lg_for_each_n [lg_rules]:
  "(\<And>y. y \<in> set ys \<Longrightarrow> logged up U F H (f y) yes none none (\<lambda>_. H)) \<Longrightarrow> logged up U F H (for_each ys f) yes none none (\<lambda>_. H)"
  by (rule lg_for_each) auto

lemma lg_loop_n [lg_rules]:
  assumes "\<And>v. logged up U F H (f v) yes none none (\<lambda>_. H)"
  shows "logged up U F H (loop f v) yes none none (\<lambda>_. H)"
  using assms by (intro lg_loop [where W = none]) (auto intro: lg_conseq split: sum.splits)

text \<open>Blocks stay blocks.\<close>

lemma is_blk_byte: "is_blk d \<Longrightarrow> i < BSIZE \<Longrightarrow> v < 256 \<Longrightarrow> is_blk (d(i := v))"
  by (auto simp: is_blk_def)

lemma or_byte: "x < 256 \<Longrightarrow> x OR 2 ^ (k mod 8) < (256 :: nat)"
proof -
  assume "x < 256"
  then have x: "take_bit 8 x = x" by (simp add: take_bit_nat_eq_self_iff)
  have "2 ^ (k mod 8) < (2 ^ 8 :: nat)" by (rule power_strict_increasing) simp_all
  then have "take_bit 8 (2 ^ (k mod 8) :: nat) = 2 ^ (k mod 8)" by (simp only: take_bit_nat_eq_self_iff)
  then have "take_bit 8 (x OR 2 ^ (k mod 8)) = x OR 2 ^ (k mod 8)" using x by (simp add: take_bit_or)
  then show ?thesis using take_bit_nat_less_exp [of 8 "x OR 2 ^ (k mod 8)"] by simp
qed

lemma unset_byte: "x < 256 \<Longrightarrow> unset_bit k x < (256 :: nat)"
  using unset_bit_less_eq [of k "int x"] by (simp flip: of_nat_unset_bit_eq)

lemma mod_IPB [simp]: "k mod IPB < IPB"
  by (simp add: macros)

lemma inode_room: "inum mod IPB * DINODE_SIZE + DINODE_SIZE \<le> BSIZE"
proof -
  have "inum mod IPB < IPB" by (simp add: macros)
  then show ?thesis by (simp add: macros)
qed

lemma min_room: "off mod BSIZE + min k (BSIZE - off mod BSIZE) \<le> BSIZE"
  by (simp add: macros)

lemma is_blk_bits:
  "is_blk d \<Longrightarrow> i < BSIZE \<Longrightarrow> is_blk (d(i := d i OR 2 ^ (k mod 8)))"
  "is_blk d \<Longrightarrow> i < BSIZE \<Longrightarrow> is_blk (d(i := unset_bit k (d i)))"
  by (simp_all add: is_blk_byte or_byte unset_byte is_blkD)

lemmas data_simps = data_only_def is_blk_bits fun_upd_idem min_room

context fs_log
begin

lemmas [lg_rules] = log_write_law

lemma lg_readsb [lg_rules]: "dev = ROOTDEV \<Longrightarrow> logged up U F H (readsb ops dev) yes none none (\<lambda>_. H)"
  unfolding readsb_def by (rule lg_ret_n lg_rules | simp add: data_simps; fail | force simp: data_simps)+

lemma lg_bzero [lg_rules]: "dev = ROOTDEV \<Longrightarrow> logged up U F H (xv6_bzero E dev bno) yes none none (\<lambda>_. H)"
  unfolding xv6_bzero_def disk_E by (rule lg_ret_n lg_rules | simp add: data_simps; fail | force simp: data_simps)+

lemma lg_balloc_scan:
  assumes "H bp \<noteq> None \<and> snd (the (H bp))" "dev = ROOTDEV"
  shows "logged up U F H (balloc_scan E dev bp b sz) yes none none (\<lambda>r. if r = None then H else H(bp := None))"
  unfolding balloc_scan_def
proof (rule lg_for_each, goal_cases)
  case (1 bi)
  then have "bi div 8 < BSIZE" by (simp add: macros less_mult_imp_div_less)
  then show ?case using assms by - (rule lg_ret_n lg_rules | simp add: data_simps; fail | force simp: data_simps)+
qed simp_all

lemma lg_balloc [lg_rules]: "dev = ROOTDEV \<Longrightarrow> logged up U F H (balloc E dev) yes none none (\<lambda>_. H)"
  unfolding balloc_def disk_E by (rule lg_ret_n lg_rules lg_balloc_scan | simp add: data_simps; fail | force simp: data_simps)+

lemma lg_bfree [lg_rules]:
  assumes "dev = ROOTDEV"
  shows "logged up U F H (bfree E dev b) yes none none (\<lambda>_. H)"
proof -
  have "b mod BPB div 8 < BSIZE" by (simp add: macros less_mult_imp_div_less)
  then show ?thesis unfolding bfree_def disk_E using assms by - (rule lg_ret_n lg_rules | simp add: data_simps; fail | force simp: data_simps)+
qed

lemma lg_iget_scan:
  assumes "dev = ROOTDEV"
  shows "logged up U F H (iget_scan dev inum free js) yes (\<lambda>r. case r of Inl i \<Rightarrow> {i} | Inr _ \<Rightarrow> {}) none (\<lambda>_. H)"
proof (induction js arbitrary: free U F)
  case Nil
  then show ?case by (auto intro: lg_ret)
next
  case (Cons j js)
  have get: "logged up U F H (inode_get j id) yes (\<lambda>ip. if i_dev ip = ROOTDEV then {j} else {}) none (\<lambda>_. H)"
    by (rule lg_read [where g = "\<lambda>s. icache s j"]) (auto simp: inode_get_def gets_def iused_def)
  show ?case
    unfolding iget_scan.simps using assms by - (rule lg_call, rule get, (rule lg_ret_n lg_rules Cons.IH | simp; fail | force)+)
qed

lemma lg_iget [lg_rules]:
  assumes "dev = ROOTDEV"
  shows "logged up U F H (iget dev inum) yes (\<lambda>ip. {ip}) none (\<lambda>_. H)"
  unfolding iget_def
proof (rule lg_call, rule lg_iget_scan [OF assms], goal_cases)
  case (1 r)
  have "logged up (U \<union> {}) (F \<union> {}) H (after [inode_set ip (\<lambda>i. i\<lparr>i_dev := ROOTDEV\<rparr>), inode_set ip (\<lambda>i. i\<lparr>i_inum := inum\<rparr>),
      inode_set ip (\<lambda>i. i\<lparr>i_ref := 1\<rparr>), inode_set ip (\<lambda>i. i\<lparr>i_busy := False, i_valid := False\<rparr>)] (ret ip)) yes (\<lambda>ip. {ip}) none (\<lambda>_. H)" for ip
    by (rule lg_after, rule lg_call, rule lg_inode_dev) (rule lg_ret_n lg_rules | simp; fail | force)+
  then show ?case using assms by (auto intro: lg_rules split: sum.split option.split)
qed

lemma lg_ialloc [lg_rules]:
  assumes "dev = ROOTDEV"
  shows "logged up U F H (ialloc E dev type) yes (\<lambda>ip. {ip}) none (\<lambda>_. H)"
  unfolding ialloc_def disk_E
proof (rule lg_call, rule lg_readsb [OF assms], rule lg_call, rule lg_for_each [where \<phi> = yes and V = set_option and G = none and K = "\<lambda>_. H"], goal_cases body)
  case (body sb inum)
  note r = inode_room [of inum]
  then have "inum mod IPB * DINODE_SIZE + 2 \<le> BSIZE" by (simp add: macros)
  with r show ?case using assms by - (rule lg_ret_n lg_rules | simp add: data_simps; fail | force simp: data_simps)+
qed (auto intro: lg_rules split: option.split)

lemma lg_iupdate [lg_rules]:
  assumes "ip \<in> U"
  shows "logged up U F H (iupdate E ip) yes none none (\<lambda>_. H)"
  unfolding iupdate_def disk_E using assms by - (rule lg_ret_n lg_rules | simp add: data_simps; fail | force simp: data_simps)+

lemma lg_idup [lg_rules]: "ip \<in> U \<Longrightarrow> logged up U F H (idup ip) yes (\<lambda>x. {x}) none (\<lambda>_. H)"
  unfolding idup_def by (rule lg_ret_n lg_rules | simp; fail | force)+

lemma lg_ilock [lg_rules]: "ip \<in> U \<Longrightarrow> logged up U F H (ilock E ip) yes none none (\<lambda>_. H)"
  unfolding ilock_def disk_E by (rule lg_ret_n lg_rules | simp add: data_simps load_dinode_def; fail | force simp: data_simps)+

lemma lg_iunlock [lg_rules]: "logged up U F H (iunlock ip) yes none none (\<lambda>_. H)"
  unfolding iunlock_def by (rule lg_ret_n lg_rules | simp; fail | force)+

lemma lg_bmap_entry [lg_rules]:
  assumes "ip \<in> U" "bn < NINDIRECT"
  shows "logged up U F H (bmap_entry E ip ib bn) yes none none (\<lambda>_. H)"
proof -
  have "4 * bn + 4 \<le> BSIZE" using assms(2) by (simp add: macros)
  then show ?thesis unfolding bmap_entry_def disk_E using assms by - (rule lg_ret_n lg_rules | simp add: data_simps; fail | force simp: data_simps)+
qed

lemma lg_bmap_addr [lg_rules]:
  "ip \<in> U \<Longrightarrow> logged up U F H (bmap_addr E ip k) yes none none (\<lambda>_. H)"
  unfolding bmap_addr_def by (rule lg_ret_n lg_rules | simp add: data_simps; fail | force simp: data_simps)+

lemma lg_bmap [lg_rules]:
  assumes "ip \<in> U"
  shows "logged up U F H (bmap E ip bn) yes none none (\<lambda>_. H)"
proof -
  have "(bn - NDIRECT - NINDIRECT) div NINDIRECT < NINDIRECT" if "bn - NDIRECT < MAXFILE - NDIRECT"
    using that by (simp add: macros less_mult_imp_div_less)
  moreover have "(bn - NDIRECT - NINDIRECT) mod NINDIRECT < NINDIRECT" by (simp add: macros)
  ultimately show ?thesis unfolding bmap_def disk_E using assms by - (rule lg_ret_n lg_rules | simp add: data_simps; fail | force simp: data_simps)+
qed

lemma lg_itrunc [lg_rules]: "ip \<in> U \<Longrightarrow> logged up U F H (itrunc E ip) yes none none (\<lambda>_. H)"
  unfolding itrunc_def disk_E by (rule lg_ret_n lg_rules | simp add: data_simps; fail | force simp: data_simps)+

lemma lg_iput [lg_rules]: "ip \<in> U \<Longrightarrow> logged up U F H (iput E ip) yes none none (\<lambda>_. H)"
  unfolding iput_def by (rule lg_ret_n lg_rules | simp add: data_simps; fail | force simp: data_simps)+

lemma lg_iunlockput [lg_rules]: "ip \<in> U \<Longrightarrow> logged up U F H (iunlockput E ip) yes none none (\<lambda>_. H)"
  unfolding iunlockput_def by (rule lg_ret_n lg_rules | simp add: data_simps; fail | force simp: data_simps)+

lemma lg_stati [lg_rules]: "logged up U F H (stati ip) yes none none (\<lambda>_. H)"
  unfolding stati_def by (rule lg_get_field)

lemma lg_readi [lg_rules]: "ip \<in> U \<Longrightarrow> logged up U F H (readi E ip dst off n) yes none none (\<lambda>_. H)"
  unfolding readi_def disk_E by (rule lg_ret_n lg_rules | simp add: data_simps; fail | force simp: data_simps)+

lemma lg_zeroi [lg_rules]: "ip \<in> U \<Longrightarrow> logged up U F H (zeroi E ip off n) yes none none (\<lambda>_. H)"
  unfolding zeroi_def disk_E by (rule lg_ret_n lg_rules | simp add: data_simps; fail | force simp: data_simps)+

lemma lg_writei [lg_rules]: "ip \<in> U \<Longrightarrow> logged up U F H (writei E ip src off n) yes none none (\<lambda>_. H)"
  unfolding writei_def disk_E by (rule lg_ret_n lg_rules | simp add: data_simps; fail | force simp: data_simps)+

section \<open>Directories and paths\<close>

lemma lg_dirlookup [lg_rules]:
  assumes "dp \<in> U"
  shows "logged up U F H (dirlookup E dp name) yes (\<lambda>r. case r of None \<Rightarrow> {} | Some (ip, _) \<Rightarrow> {ip}) none (\<lambda>_. H)"
  unfolding dirlookup_def
proof (rule lg_call, rule lg_inode_get, rule lg_if, rule lg_fault, rule lg_for_each, goal_cases)
  case (1 d off)
  then show ?case using assms by - (rule lg_ret_n lg_rules | simp add: data_simps; fail | force simp: data_simps)+
qed simp_all

lemma lg_dirlink [lg_rules]: "dp \<in> U \<Longrightarrow> logged up U F H (dirlink E dp name inum) yes none none (\<lambda>_. H)"
  unfolding dirlink_def by (rule lg_ret_n lg_rules | simp add: data_simps; fail | force simp: data_simps)+

lemma lg_namex [lg_rules]: "logged up U F H (namex E path par name) yes (\<lambda>(r, _). set_option r) none (\<lambda>_. H)"
  unfolding namex_def
proof (rule lg_call [where V = "\<lambda>ip. {ip}" and \<phi> = yes and G = none and K = "\<lambda>_. H"], goal_cases)
  case 1
  show ?case by (rule lg_ret_n lg_rules | simp add: data_simps; fail | force simp: data_simps)+
next
  case (2 ip)
  show ?case
  proof (rule lg_loop [where W = "\<lambda>(_, _, ip). {ip}"], goal_cases)
    case (1 v)
    show ?case by (rule lg_ret_n lg_rules | simp add: data_simps; fail | force simp: data_simps)+
  qed simp
qed

lemma lg_namei [lg_rules]: "logged up U F H (namei E path) yes set_option none (\<lambda>_. H)"
  unfolding namei_def by (rule lg_ret_n lg_rules | simp add: data_simps; fail | force simp: data_simps)+

lemma lg_nameiparent [lg_rules]: "logged up U F H (nameiparent E path name) yes (\<lambda>(r, _). set_option r) none (\<lambda>_. H)"
  unfolding nameiparent_def by (rule lg_namex)

section \<open>The bodies of the calls\<close>

lemma lg_create_new [lg_rules]:
  "dp \<in> U \<Longrightarrow> logged up U F H (create_new E dp name type major minor) yes (\<lambda>ip. {ip}) none (\<lambda>_. H)"
  unfolding create_new_def by (rule lg_ret_n lg_rules | simp add: data_simps; fail | force simp: data_simps)+

lemma lg_create [lg_rules]: "logged up U F H (create E path type major minor) yes set_option none (\<lambda>_. H)"
  unfolding create_def by (rule lg_ret_n lg_rules | simp add: data_simps; fail | force simp: data_simps)+

lemma lg_isdirempty [lg_rules]: "dp \<in> U \<Longrightarrow> logged up U F H (isdirempty E dp) yes none none (\<lambda>_. H)"
  unfolding isdirempty_def by (rule lg_ret_n lg_rules | simp add: data_simps; fail | force simp: data_simps)+

lemma lg_unlink_entry [lg_rules]:
  "dp \<in> U \<Longrightarrow> ip \<in> U \<Longrightarrow> logged up U F H (unlink_entry E dp ip off) yes none none (\<lambda>_. H)"
  unfolding unlink_entry_def by (rule lg_ret_n lg_rules | simp add: data_simps; fail | force simp: data_simps)+

lemma lg_sys_dounlink [lg_rules]: "logged up U F H (sys_dounlink E path) yes none none (\<lambda>_. H)"
  unfolding sys_dounlink_def by (rule lg_ret_n lg_rules | simp add: data_simps; fail | force simp: data_simps)+

lemma lg_dolink_bad [lg_rules]: "ip \<in> U \<Longrightarrow> logged up U F H (dolink_bad E ip) yes none none (\<lambda>_. H)"
  unfolding dolink_bad_def by (rule lg_ret_n lg_rules | simp add: data_simps; fail | force simp: data_simps)+

lemma lg_filealloc [lg_rules]: "logged up U F H filealloc yes none none (\<lambda>_. H)"
  unfolding filealloc_def by (rule lg_ret_n lg_rules | simp add: data_simps; fail | force simp: data_simps)+

end

end
