(* ===== verification/FsTxn.thy ===== *)
theory FsTxn
  imports FsBodies
begin

text \<open>
  Transactions. Between \<open>begin_op\<close> and \<open>end_op\<close> a body that satisfies \<open>logged\<close> does
  not touch the disk; with \<^verbatim>\<open>xv6/sclog.c\<close> the last \<open>end_op\<close> makes all its changes the
  snapshot of the disk at once. The judgement \<open>served\<close> is for whole calls, which may consist of
  several transactions.
\<close>

section \<open>begin_op\<close>

text \<open>\<open>begin_op\<close> returns when there is room in the log, and waits forever otherwise.\<close>

lemma begin_op_eq:
  "begin_op s = (if committing s \<or> lh_n s + (outstanding s + 1) * int MAXOPBLOCKS > int LOGSIZE then Err Diverges
     else Ret () (s\<lparr>outstanding := outstanding s + 1\<rparr>))"
proof (cases "committing s \<or> lh_n s + (outstanding s + 1) * int MAXOPBLOCKS > int LOGSIZE")
  case True
  then have "begin_op s = Err Diverges"
    unfolding begin_op_def by (intro loop_stuck) (auto simp: call_def gets_def ret_def)
  then show ?thesis using True by simp
next
  case False
  then show ?thesis by (simp add: begin_op_def loop_unfold call_def gets_def ret_def modify_def)
qed

text \<open>A state between two steps of a call, with no buffer held.\<close>

definition idle :: "('d \<Rightarrow> contents \<Rightarrow> contents \<Rightarrow> nat \<Rightarrow> bool) \<Rightarrow> 'd xv6 \<Rightarrow> acache \<Rightarrow> bool" where
  "idle up s A \<longleftrightarrow> fs_inv up s A \<and> a_held A = Map.empty \<and> a_n A + LOGSIZE \<le> MAX_WCNT"

lemma idle_held: "idle up s A \<Longrightarrow> held_ok A Map.empty"
  by (simp add: idle_def held_ok_def)

lemma idleI: "fs_inv up s A \<Longrightarrow> held_ok A Map.empty \<Longrightarrow> a_n A + LOGSIZE \<le> MAX_WCNT \<Longrightarrow> idle up s A"
  by (auto simp: idle_def held_ok_def)

lemma idle_begin:
  assumes "idle up s A" "begin_op s = Ret x t"
  shows "idle up t A" "iused t = iused s" "fgood t = fgood s" "outstanding t = outstanding s + 1"
  using assms by (auto simp: begin_op_eq idle_def fs_inv_def cache_inv_def log_ok_def log_list_def iused_def fgood_def split: if_splits)

section \<open>end_op\<close>

text \<open>The state of the cache after a commit.\<close>

definition committed :: "acache \<Rightarrow> acache \<Rightarrow> bool" where
  "committed A A' \<longleftrightarrow> (\<exists>v vol. A' = A\<lparr>a_view := v, a_dirty := {}, a_vol := vol, a_st := vol, a_n := 0\<rparr>
     \<and> same_view v (a_view A) \<and> same_blks vol (a_view A))"

context snapshot_disk
begin

lemma wp_sc_end_op:
  assumes s: "idle up s A"
    and Q: "\<And>t A'. idle up t A' \<Longrightarrow> iused t = iused s \<Longrightarrow> fgood t = fgood s \<Longrightarrow> outstanding t = outstanding s - 1 \<Longrightarrow>
      (if outstanding s = 1 then committed A A' \<and> lh_n t = 0 else A' = A \<and> lh_n t = lh_n s) \<Longrightarrow> Q () t"
    and C: "\<And>t st. outstanding s = 1 \<Longrightarrow> down (dsk t) st \<Longrightarrow> st = a_st A \<or> same_blks st (a_view A) \<Longrightarrow> C t"
  shows "wpm (sc_end_op ops) Q C s"
proof -
  let ?s = "s\<lparr>outstanding := outstanding s - 1\<rparr>"
  have inv: "fs_inv up s A" and h: "a_held A = Map.empty" and n: "a_n A + LOGSIZE \<le> MAX_WCNT" using s by (simp_all add: idle_def)
  have nc: "\<not> committing s" using inv by (simp add: fs_inv_def)
  have used: "iused ?s = iused s" "fgood ?s = fgood s" by (auto simp: iused_def fgood_def)
  show ?thesis
  proof (cases "outstanding s = 1")
    case False
    have "idle up ?s A" using s by (simp add: idle_def fs_inv_def cache_inv_def log_ok_def log_list_def iused_def fgood_def)
    then have "Q () ?s" using used False by (intro Q) simp_all
    then show ?thesis using False nc by (simp add: sc_end_op_def end_op_def wpm_simps cong: wpm_cong)
  next
    case True
    let ?c = "?s\<lparr>committing := True\<rparr>"
    have c: "cache_inv up ?c A" "log_ok ?c A" using inv by (simp_all add: fs_inv_def cache_inv_def log_ok_def log_list_def)
    have "wpm (sc_commit ops) (\<lambda>_. wpm (modify (\<lambda>s. s\<lparr>committing := False\<rparr>)) Q C) C ?c"
    proof (rule wp_sc_commit [OF c h n])
      fix t v vol assume t: "cache_inv up t (A\<lparr>a_view := v, a_dirty := {}, a_vol := vol, a_st := vol, a_n := 0\<rparr>)" (is "cache_inv up t ?A")
        and v: "same_view v (a_view A)" "same_blks vol (a_view A)" and fs: "same_fs (?c\<lparr>lh_n := 0\<rparr>) t"
      note f = same_fsD [OF fs, simplified]
      let ?t = "t\<lparr>committing := False\<rparr>"
      have used': "iused ?t = iused s" "fgood ?t = fgood s" using f by (auto simp: iused_def fgood_def)
      have "fs_inv up ?t ?A"
        using inv t f used' by (simp add: fs_inv_def cache_inv_def log_ok_def log_list_def)
      then have "idle up ?t ?A" using h by (simp add: idle_def macros)
      moreover have "committed A ?A" using v by (auto simp: committed_def)
      ultimately have "Q () ?t" using f used' True by (intro Q [of _ ?A]) simp_all
      then show "wpm (modify (\<lambda>s. s\<lparr>committing := False\<rparr>)) Q C t" by (simp add: wpm_simps)
    qed (use C True in auto)
    then show ?thesis using True nc by (simp add: sc_end_op_def end_op_def wpm_simps steps_def cong: wpm_cong)
  qed
qed

section \<open>One transaction\<close>

text \<open>
  A call that is one transaction: when it returns, the disk and its snapshot hold what the file system
  sees after the body; when power is lost, the snapshot is as before, or the body was executed to its
  end and the snapshot holds all it has changed.
\<close>

lemma transaction:
  assumes s: "idle up s A" "outstanding s = 0" and body: "logged up {} {} Map.empty m yes none none (\<lambda>_. Map.empty)"
  shows "wlp (after [begin_op] (call m (\<lambda>r. after [sc_end_op ops] (ret r))))
    (\<lambda>r t. \<exists>s1 A1 A2. after [begin_op] m s = Ret r s1 \<and> fs_inv up s1 A1 \<and> idle up t A2 \<and> committed A1 A2 \<and> outstanding t = 0 \<and> lh_n t = 0)
    (\<lambda>t. \<exists>st. down (dsk t) st \<and> (st = a_st A \<or> (\<exists>r s1 A1. after [begin_op] m s = Ret r s1 \<and> fs_inv up s1 A1 \<and> same_blks st (a_view A1)))) s"
    (is "wlp _ ?Q ?C s")
proof (cases "begin_op s")
  case (Ret x s0)
  note s0 = idle_begin [OF s(1) Ret]
  have inv0: "fs_inv up s0 A" "held_ok A Map.empty" using s0(1) idle_held by (auto simp: idle_def)
  have "wlp m (\<lambda>r. wlp (after [sc_end_op ops] (ret r)) ?Q ?C) ?C s0"
  proof (cases "m s0")
    case (Ret r s1)
    have "lg_post up s0 A s1 ({} \<union> {}) ({} \<union> {}) Map.empty"
      using wlp_Ret [OF loggedD [OF body inv0] Ret] by simp
    then obtain A1 where A1: "fs_inv up s1 A1" "held_ok A1 Map.empty" "a_st A1 = a_st A" "a_n A1 = a_n A" "outstanding s1 = 1"
      using s0(4) s(2) by (auto simp: lg_post_def)
    have idle1: "idle up s1 A1" using A1 s(1) by (intro idleI) (simp_all add: idle_def)
    have run: "after [begin_op] m s = Ret r s1" using \<open>begin_op s = Ret x s0\<close> Ret by (simp add: call_def)
    have "wpm (sc_end_op ops) (\<lambda>_. ?Q r) ?C s1"
      by (rule wp_sc_end_op [OF idle1]) (use A1(1,3,5) run in auto)
    then have "wlp (after [sc_end_op ops] (ret r)) ?Q ?C s1"
      by (simp add: wlp_call wlp_ret wpm_wlp)
    then show ?thesis using Ret by (simp add: wlp_def)
  next
    case (Cut t)
    then show ?thesis using wlp_Cut [OF loggedD [OF body inv0] Cut] by simp
  qed (simp add: wlp_def)
  then have "wlp (call m (\<lambda>r. after [sc_end_op ops] (ret r))) ?Q ?C s0" by (simp only: wlp_call)
  moreover have "after [begin_op] (call m (\<lambda>r. after [sc_end_op ops] (ret r))) s = call m (\<lambda>r. after [sc_end_op ops] (ret r)) s0"
    using Ret by (simp add: call_def)
  ultimately show ?thesis by (simp only: wlp_def)
qed (auto simp: wlp_def call_def begin_op_eq split: if_splits)

end

section \<open>Whole calls\<close>

definition served :: "('d \<Rightarrow> contents \<Rightarrow> contents \<Rightarrow> nat \<Rightarrow> bool) \<Rightarrow> ('d \<Rightarrow> contents \<Rightarrow> bool) \<Rightarrow> nat set \<Rightarrow> nat set \<Rightarrow> ('d xv6, 'a) prog
    \<Rightarrow> ('a \<Rightarrow> bool) \<Rightarrow> ('a \<Rightarrow> nat set) \<Rightarrow> ('a \<Rightarrow> nat set) \<Rightarrow> bool" where
  "served up down U F m \<phi> V G \<longleftrightarrow> (\<forall>s A. idle up s A \<and> U \<subseteq> iused s \<and> F \<subseteq> fgood s \<longrightarrow>
     wlp m (\<lambda>x t. \<phi> x \<and> (\<exists>A'. idle up t A') \<and> U \<union> V x \<subseteq> iused t \<and> F \<union> G x \<subseteq> fgood t) (\<lambda>t. \<exists>st. down (dsk t) st) s)"

named_theorems sv_rules "rules of the judgement served"

lemma servedI:
  assumes "\<And>s A. idle up s A \<Longrightarrow> U \<subseteq> iused s \<Longrightarrow> F \<subseteq> fgood s \<Longrightarrow>
    wlp m (\<lambda>x t. \<phi> x \<and> (\<exists>A'. idle up t A') \<and> U \<union> V x \<subseteq> iused t \<and> F \<union> G x \<subseteq> fgood t) (\<lambda>t. \<exists>st. down (dsk t) st) s"
  shows "served up down U F m \<phi> V G"
  using assms by (auto simp: served_def)

lemma servedD:
  assumes "served up down U F m \<phi> V G" "idle up s A" "U \<subseteq> iused s" "F \<subseteq> fgood s"
  shows "wlp m (\<lambda>x t. \<phi> x \<and> (\<exists>A'. idle up t A') \<and> U \<union> V x \<subseteq> iused t \<and> F \<union> G x \<subseteq> fgood t) (\<lambda>t. \<exists>st. down (dsk t) st) s"
  using assms by (auto simp: served_def)

lemma sv_lg:
  assumes "logged up U F Map.empty m \<phi> V G (\<lambda>_. Map.empty)"
  shows "served up down U F m \<phi> V G"
proof (rule servedI)
  fix s A assume s: "idle up s A" "U \<subseteq> iused s" "F \<subseteq> fgood s"
  then have inv: "fs_inv up s A" "held_ok A Map.empty" using idle_held [OF s(1)] by (simp_all add: idle_def)
  show "wlp m (\<lambda>x t. \<phi> x \<and> (\<exists>A'. idle up t A') \<and> U \<union> V x \<subseteq> iused t \<and> F \<union> G x \<subseteq> fgood t) (\<lambda>t. \<exists>st. down (dsk t) st) s"
  proof (rule wlp_mono [OF loggedD [OF assms inv s(2,3)]])
    fix x t assume "\<phi> x \<and> lg_post up s A t (U \<union> V x) (F \<union> G x) Map.empty"
    then show "\<phi> x \<and> (\<exists>A'. idle up t A') \<and> U \<union> V x \<subseteq> iused t \<and> F \<union> G x \<subseteq> fgood t"
      using s(1) unfolding lg_post_def by (metis idle_def idleI)
  qed simp
qed

lemma sv_call [sv_rules]:
  assumes "served up down U F m \<phi> V G" and "\<And>x. \<phi> x \<Longrightarrow> served up down (U \<union> V x) (F \<union> G x) (f x) \<phi>' V' G'"
  shows "served up down U F (call m f) \<phi>' V' G'"
proof (rule servedI)
  fix s A assume s: "idle up s A" "U \<subseteq> iused s" "F \<subseteq> fgood s"
  show "wlp (call m f) (\<lambda>x t. \<phi>' x \<and> (\<exists>A'. idle up t A') \<and> U \<union> V' x \<subseteq> iused t \<and> F \<union> G' x \<subseteq> fgood t) (\<lambda>t. \<exists>st. down (dsk t) st) s"
    unfolding wlp_call
  proof (rule wlp_mono [OF servedD [OF assms(1) s]])
    fix x t assume "\<phi> x \<and> (\<exists>A'. idle up t A') \<and> U \<union> V x \<subseteq> iused t \<and> F \<union> G x \<subseteq> fgood t"
    then obtain A' where x: "\<phi> x" and t: "idle up t A'" "U \<union> V x \<subseteq> iused t" "F \<union> G x \<subseteq> fgood t" by blast
    show "wlp (f x) (\<lambda>x t. \<phi>' x \<and> (\<exists>A'. idle up t A') \<and> U \<union> V' x \<subseteq> iused t \<and> F \<union> G' x \<subseteq> fgood t) (\<lambda>t. \<exists>st. down (dsk t) st) t"
      by (rule wlp_mono [OF servedD [OF assms(2) [OF x] t]]) auto
  qed simp
qed

lemma sv_ret [sv_rules]: "\<phi> x \<Longrightarrow> V x \<subseteq> U \<Longrightarrow> G x \<subseteq> F \<Longrightarrow> served up down U F (ret x) \<phi> V G"
  by (rule sv_lg, rule lg_ret) auto

lemma sv_ret_n: "served up down U F (ret x) yes none none"
  by (rule sv_ret) auto

lemma sv_fault [sv_rules]: "served up down U F (fault e) \<phi> V G" "served up down U F (panicp msg) \<phi> V G"
  by (rule sv_lg, rule lg_fault)+

lemma sv_after [sv_rules]:
  "served up down U F m \<phi> V G \<Longrightarrow> served up down U F (after [] m) \<phi> V G"
  "served up down U F (call c (\<lambda>_. after cs m)) \<phi> V G \<Longrightarrow> served up down U F (after (c # cs) m) \<phi> V G"
  by simp_all

lemma sv_steps [sv_rules]: "served up down U F (after cs (ret ())) \<phi> V G \<Longrightarrow> served up down U F (steps cs) \<phi> V G"
  by (simp add: steps_def)

lemma sv_if [sv_rules]:
  "(b \<Longrightarrow> served up down U F m \<phi> V G) \<Longrightarrow> (\<not> b \<Longrightarrow> served up down U F n \<phi> V G) \<Longrightarrow> served up down U F (if b then m else n) \<phi> V G"
  by simp

lemma sv_let [sv_rules]: "served up down U F (f x) \<phi> V G \<Longrightarrow> served up down U F (let y = x in f y) \<phi> V G"
  by simp

lemma sv_provided [sv_rules]: "(b \<Longrightarrow> served up down U F c yes none none) \<Longrightarrow> served up down U F (provided b c) yes none none"
  by (auto simp: provided_def intro: sv_ret)

lemma sv_option [sv_rules]:
  "(r = None \<Longrightarrow> served up down U F m \<phi> V G) \<Longrightarrow> (\<And>x. r = Some x \<Longrightarrow> served up down U F (f x) \<phi> V G)
    \<Longrightarrow> served up down U F (case r of None \<Rightarrow> m | Some x \<Rightarrow> f x) \<phi> V G"
  by (cases r) auto

lemma sv_prod [sv_rules]:
  "(\<And>x y. p = (x, y) \<Longrightarrow> served up down U F (f x y) \<phi> V G) \<Longrightarrow> served up down U F (case p of (x, y) \<Rightarrow> f x y) \<phi> V G"
  by (cases p) auto

lemma sv_fd_type [sv_rules]:
  "(k = FD_NONE \<Longrightarrow> served up down U F a \<phi> V G) \<Longrightarrow> (k = FD_PIPE \<Longrightarrow> served up down U F b \<phi> V G) \<Longrightarrow>
   (k = FD_INODE \<Longrightarrow> served up down U F c \<phi> V G) \<Longrightarrow>
   served up down U F (case k of FD_NONE \<Rightarrow> a | FD_PIPE \<Rightarrow> b | FD_INODE \<Rightarrow> c) \<phi> V G"
  by (cases k) auto

lemma sv_loop_n [sv_rules]:
  assumes "\<And>v. served up down U F (f v) yes none none"
  shows "served up down U F (loop f v) yes none none"
proof (rule servedI)
  fix s A assume s: "idle up s A" "U \<subseteq> iused s" "F \<subseteq> fgood s"
  let ?J = "\<lambda>t. (\<exists>A'. idle up t A') \<and> U \<subseteq> iused t \<and> F \<subseteq> fgood t"
  have "wlp (loop f v) (\<lambda>_. ?J) (\<lambda>t. \<exists>st. down (dsk t) st) s"
  proof (rule wlp_loop [where I = "\<lambda>_. ?J"])
    fix v t assume "?J t"
    then obtain A' where t: "idle up t A'" "U \<subseteq> iused t" "F \<subseteq> fgood t" by blast
    show "wlp (f v) (\<lambda>x u. case x of Inl w \<Rightarrow> ?J u | Inr r \<Rightarrow> ?J u) (\<lambda>t. \<exists>st. down (dsk t) st) t"
      by (rule wlp_mono [OF servedD [OF assms t]]) (auto split: sum.splits)
  qed (use s in blast)
  then show "wlp (loop f v) (\<lambda>x t. yes x \<and> (\<exists>A'. idle up t A') \<and> U \<union> none x \<subseteq> iused t \<and> F \<union> none x \<subseteq> fgood t) (\<lambda>t. \<exists>st. down (dsk t) st) s"
    by (rule wlp_mono) auto
qed

lemma sv_begin_op [sv_rules]: "served up down U F begin_op yes none none"
proof (rule servedI)
  fix s :: "'a xv6" and A assume s: "idle up s A" "U \<subseteq> iused s" "F \<subseteq> fgood s"
  show "wlp begin_op (\<lambda>x t. yes x \<and> (\<exists>A'. idle up t A') \<and> U \<union> none x \<subseteq> iused t \<and> F \<union> none x \<subseteq> fgood t) (\<lambda>t. \<exists>st. down (dsk t) st) s"
  proof (cases "begin_op s")
    case (Ret x t)
    then show ?thesis using idle_begin [OF s(1) Ret] s by (auto simp: wlp_def)
  qed (auto simp: wlp_def begin_op_eq split: if_splits)
qed

lemma sv_stat_inc [sv_rules]: "served up down U F (stat_inc upd) yes none none"
proof (rule servedI)
  fix s :: "'a xv6" and A assume "idle up s A" "U \<subseteq> iused s" "F \<subseteq> fgood s"
  then show "wlp (stat_inc upd) (\<lambda>x t. yes x \<and> (\<exists>A'. idle up t A') \<and> U \<union> none x \<subseteq> iused t \<and> F \<union> none x \<subseteq> fgood t) (\<lambda>t. \<exists>st. down (dsk t) st) s"
    by (auto simp: wlp_def stat_inc_def modify_def idle_def fs_inv_def cache_inv_def log_ok_def log_list_def iused_def fgood_def)
qed

text \<open>The end of \<open>sys_open\<close>: the type of the file is set before its inode.\<close>

lemma sv_file_open:
  assumes "ip \<in> U"
  shows "served up down U F (after [file_set f (\<lambda>x. x\<lparr>f_type := FD_INODE\<rparr>), file_set f (\<lambda>x. x\<lparr>f_ip := ip\<rparr>), file_set f (\<lambda>x. x\<lparr>f_off := 0\<rparr>),
    file_set f (\<lambda>x. x\<lparr>f_readable := r\<rparr>), file_set f (\<lambda>x. x\<lparr>f_writable := w\<rparr>)] (ret (Some f))) yes none set_option"
proof (rule servedI)
  fix s :: "'a xv6" and A assume s: "idle up s A" "U \<subseteq> iused s" "F \<subseteq> fgood s"
  let ?t = "s\<lparr>ftable := (ftable s)(f := (ftable s f)\<lparr>f_type := FD_INODE, f_ip := ip, f_off := 0, f_readable := r, f_writable := w\<rparr>)\<rparr>"
  have "iused ?t = iused s" "fgood ?t = insert f (fgood s)" using assms s(2) by (auto simp: iused_def fgood_def)
  then have "idle up ?t A \<and> U \<subseteq> iused ?t \<and> insert f F \<subseteq> fgood ?t"
    using s by (auto simp: idle_def fs_inv_def cache_inv_def log_ok_def log_list_def)
  then show "wlp (after [file_set f (\<lambda>x. x\<lparr>f_type := FD_INODE\<rparr>), file_set f (\<lambda>x. x\<lparr>f_ip := ip\<rparr>), file_set f (\<lambda>x. x\<lparr>f_off := 0\<rparr>),
      file_set f (\<lambda>x. x\<lparr>f_readable := r\<rparr>), file_set f (\<lambda>x. x\<lparr>f_writable := w\<rparr>)] (ret (Some f)))
    (\<lambda>x t. yes x \<and> (\<exists>A'. idle up t A') \<and> U \<union> none x \<subseteq> iused t \<and> F \<union> set_option x \<subseteq> fgood t) (\<lambda>t. \<exists>st. down (dsk t) st) s"
    by (auto simp: wlp_def call_def file_set_def modify_def ret_def)
qed

context snapshot_disk
begin

lemma sv_sc_end_op [sv_rules]: "served up down U F (sc_end_op ops) yes none none"
proof (rule servedI)
  fix s A assume s: "idle up s A" "U \<subseteq> iused s" "F \<subseteq> fgood s"
  show "wlp (sc_end_op ops) (\<lambda>x t. yes x \<and> (\<exists>A'. idle up t A') \<and> U \<union> none x \<subseteq> iused t \<and> F \<union> none x \<subseteq> fgood t) (\<lambda>t. \<exists>st. down (dsk t) st) s"
    by (rule wpm_wlp, rule wp_sc_end_op [OF s(1)]) (use s(2,3) in auto)
qed

lemma sv_flush [sv_rules]: "served up down U F (on_disk (op_flush ops)) yes none none"
proof (rule servedI)
  fix s A assume s: "idle up s A" "U \<subseteq> iused s" "F \<subseteq> fgood s"
  then have "up (dsk s) (a_vol A) (a_st A) (a_n A)" by (simp add: idle_def fs_inv_def cache_inv_def)
  note f = flush_law [OF this]
  have "bufs_ok B (A\<lparr>a_st := a_vol A, a_n := 0\<rparr>) = bufs_ok B A" "view_ok (A\<lparr>a_st := a_vol A, a_n := 0\<rparr>) = view_ok A" for B
    by (simp_all add: bufs_ok_def view_ok_def)
  then have "idle up (s\<lparr>dsk := d\<rparr>) (A\<lparr>a_st := a_vol A, a_n := 0\<rparr>)" if "up d (a_vol A) (a_vol A) 0" for d
    using s(1) that by (simp add: idle_def fs_inv_def cache_inv_def log_ok_def log_list_def iused_def fgood_def macros)
  then have "wpm (on_disk (op_flush ops)) (\<lambda>x t. (\<exists>A'. idle up t A') \<and> U \<subseteq> iused t \<and> F \<subseteq> fgood t) (\<lambda>t. \<exists>st. down (dsk t) st) s"
    unfolding wpm_on_disk using s(2,3) by (intro wp_mono [OF f]) (auto simp: iused_def fgood_def)
  then show "wlp (on_disk (op_flush ops)) (\<lambda>x t. yes x \<and> (\<exists>A'. idle up t A') \<and> U \<union> none x \<subseteq> iused t \<and> F \<union> none x \<subseteq> fgood t) (\<lambda>t. \<exists>st. down (dsk t) st) s"
    by (intro wpm_wlp) simp
qed

end

end
