(* ===== verification/XvFuse.thy ===== *)
theory XvFuse
  imports XvSys
begin

text \<open>
  The FUSE operations, \<^verbatim>\<open>xv6/fuse.c\<close>. What an operation fills in for its caller (the
  attributes, the file handle, the names of a directory, the data read) is part of its result; the
  messages it prints are not modelled. The flags and modes are those of Linux.
\<close>

section \<open>Statistics\<close>

definition stats_path :: string where
  "stats_path = ''/stats''"

fun dec :: "nat \<Rightarrow> string" where
  "dec n = (if n < 10 then [char_of (48 + n)] else dec (n div 10) @ [char_of (48 + n mod 10)])"

declare dec.simps [simp del]

definition stats_text :: "stats \<Rightarrow> string" where
  "stats_text x =
     ''nread '' @ dec (nread x) @ ''\<newline>nwrite '' @ dec (nwrite x) @ ''\<newline>nflush '' @ dec (nflush x)
     @ ''\<newline>ngetattr '' @ dec (ngetattr x) @ ''\<newline>nopen '' @ dec (nopen x) @ ''\<newline>nrelease '' @ dec (nrelease x)
     @ ''\<newline>nreadir '' @ dec (nreaddir x) @ ''\<newline>nfuse_read '' @ dec (nfuse_read x) @ ''\<newline>nfuse_write '' @ dec (nfuse_write x)
     @ ''\<newline>ncreate '' @ dec (ncreate x) @ ''\<newline>ntrunc '' @ dec (ntrunc x) @ ''\<newline>nmkdir '' @ dec (nmkdir x)
     @ ''\<newline>nrmdir '' @ dec (nrmdir x) @ ''\<newline>nunlink '' @ dec (nunlink x) @ ''\<newline>nfsync '' @ dec (nfuse_fsync x)
     @ ''\<newline>nfsyncdir '' @ dec (nfuse_fsyncdir x) @ ''\<newline>''"

definition stats_zero :: stats where
  "stats_zero = \<lparr>nread = 0, nwrite = 0, nflush = 0, ngetattr = 0, nopen = 0, nrelease = 0, nreaddir = 0, nfuse_read = 0,
     nfuse_write = 0, ncreate = 0, ntrunc = 0, nmkdir = 0, nrmdir = 0, nunlink = 0, nfuse_fsync = 0, nfuse_fsyncdir = 0\<rparr>"

section \<open>Operations\<close>

definition S_IFMT :: nat where "S_IFMT = 61440"
definition S_IFREG :: nat where "S_IFREG = 32768"
definition S_IFDIR :: nat where "S_IFDIR = 16384"
definition S_IFSOCK :: nat where "S_IFSOCK = 49152"

record kstat =
  k_mode :: nat
  k_nlink :: int
  k_size :: nat
  k_atime :: nat
  k_ctime :: nat
  k_mtime :: nat

definition kstat_zero :: kstat where
  "kstat_zero = \<lparr>k_mode = 0, k_nlink = 0, k_size = 0, k_atime = 0, k_ctime = 0, k_mtime = 0\<rparr>"

definition xstat_zero :: xstat where
  "xstat_zero = \<lparr>st_type = 0, st_dev = 0, st_ino = 0, st_nlink = 0, st_size = 0, st_atime = 0, st_mtime = 0, st_ctime = 0\<rparr>"

definition fuse_getattr :: "'d env \<Rightarrow> string \<Rightarrow> ('d xv6, int \<times> kstat) prog" where
  "fuse_getattr E path = (if path = stats_path
     then after [modify (\<lambda>s. s\<lparr>statsbuf := stats_text (fsstats s)\<rparr>)] (gets (\<lambda>s.
       (0, kstat_zero\<lparr>k_mode := S_IFREG OR 292, k_nlink := 1, k_size := length (statsbuf s)\<rparr>)))
     else after [stat_inc ngetattr_update] (call (sys_fstat E path xstat_zero) (\<lambda>(r, st).
       ret (if r \<ge> 0
         then (r, \<lparr>k_mode = 511 OR (if st_type st = T_DIR then S_IFDIR else if st_type st = T_SOCK then S_IFSOCK else S_IFREG),
                   k_nlink = st_nlink st, k_size = st_size st, k_atime = st_atime st, k_ctime = st_ctime st, k_mtime = st_mtime st\<rparr>)
         else (-2, kstat_zero)))))"

text \<open>The field \<open>fi->fh\<close> is passed in and returned.\<close>

definition fuse_open :: "'d env \<Rightarrow> string \<Rightarrow> nat \<Rightarrow> nat option \<Rightarrow> ('d xv6, int \<times> nat option) prog" where
  "fuse_open E path flags fh = (if path = stats_path then ret (0, fh)
     else after [stat_inc nopen_update] (call (sys_open E path flags) (\<lambda>r.
       ret (if r = None then -1 else 0, r))))"

definition fuse_release :: "'d env \<Rightarrow> string \<Rightarrow> nat option \<Rightarrow> ('d xv6, int) prog" where
  "fuse_release E path fh = (if path = stats_path then ret 0
     else after [stat_inc nrelease_update] (sys_fileclose E fh))"

text \<open>The names given to \<open>filler\<close>, in the order of the calls.\<close>

definition fuse_readdir :: "'d env \<Rightarrow> string \<Rightarrow> nat \<Rightarrow> ('d xv6, int \<times> bytes list) prog" where
  "fuse_readdir E path flags = after [stat_inc nreaddir_update] (call (sys_open E path flags) (\<lambda>fh.
     if fh = None then ret (-1, [])
     else call (loop (\<lambda>(xv6off, xv6e, names). call (sys_readdirent E fh xv6e (u32 xv6off)) (\<lambda>(r, xv6e).
         if r > 0 then ret (Inl (xv6off + DIRENT_SIZE, xv6e, if de_inum xv6e = 0 then names else names @ [de_name xv6e]))
         else ret (Inr (r, names)))) (0, \<lambda>_. 0, []))
       (\<lambda>(r, names). call (sys_fileclose E fh) (\<lambda>_. ret (r, names)))))"

definition fuse_read :: "'d env \<Rightarrow> string \<Rightarrow> bytes \<Rightarrow> nat \<Rightarrow> nat \<Rightarrow> nat option \<Rightarrow> ('d xv6, int \<times> bytes) prog" where
  "fuse_read E path buf sz off fh = (if path = stats_path
     then call (gets statsbuf) (\<lambda>text.
       let len = length text; n = (if off < len then if off + sz > len then len - off else sz else 0) in
       after [modify (\<lambda>s. s\<lparr>fsstats := stats_zero\<rparr>)]
         (ret (s32 (u32 n), copy_str (take n (drop off text)) buf)))
     else after [stat_inc nfuse_read_update] (sys_read E fh buf sz (u32 off)))"

definition fuse_write :: "'d env \<Rightarrow> string \<Rightarrow> bytes \<Rightarrow> nat \<Rightarrow> nat \<Rightarrow> nat option \<Rightarrow> ('d xv6, int) prog" where
  "fuse_write E path buf sz off fh = after [stat_inc nfuse_write_update] (sys_write E fh buf sz (u32 off))"

text \<open>The flags of Linux: \<open>O_CREAT\<close> is 64, \<open>O_RDWR\<close> 2, \<open>O_WRONLY\<close> 1 and \<open>O_RDONLY\<close> 0.\<close>

definition fuse_create :: "'d env \<Rightarrow> string \<Rightarrow> nat \<Rightarrow> ('d xv6, int \<times> nat option) prog" where
  "fuse_create E path flags = after [stat_inc ncreate_update] (
     let omode = 0;
         omode = (if flags AND 64 \<noteq> 0 then omode OR O_CREATE else omode);
         omode = (if flags AND 2 \<noteq> 0 then omode OR O_RDWR else omode);
         omode = (if flags AND 1 \<noteq> 0 then omode OR O_WRONLY else omode);
         omode = (if flags AND 0 \<noteq> 0 then omode OR O_RDONLY else omode) in
     call (sys_open E path omode) (\<lambda>r. ret (if r = None then -1 else 0, r)))"

definition fuse_truncate :: "'d env \<Rightarrow> string \<Rightarrow> nat \<Rightarrow> ('d xv6, int) prog" where
  "fuse_truncate E path off = after [stat_inc ntrunc_update] (if off \<noteq> 0 then ret (-1) else sys_truncate E path)"

definition fuse_mkdir :: "'d env \<Rightarrow> string \<Rightarrow> ('d xv6, int) prog" where
  "fuse_mkdir E path = after [stat_inc nmkdir_update] (sys_mkdir E path)"

definition fuse_rmdir :: "'d env \<Rightarrow> string \<Rightarrow> ('d xv6, int) prog" where
  "fuse_rmdir E path = after [stat_inc nrmdir_update] (sys_unlink E path)"

definition fuse_unlink :: "'d env \<Rightarrow> string \<Rightarrow> ('d xv6, int) prog" where
  "fuse_unlink E path = after [stat_inc nunlink_update] (sys_unlink E path)"

definition fuse_rename :: "'d env \<Rightarrow> string \<Rightarrow> string \<Rightarrow> ('d xv6, int) prog" where
  "fuse_rename E path1 path2 = sys_rename E path1 path2"

text \<open>The two times of \<open>utimens\<close>, in seconds; the index 2 is that of the source.\<close>

definition fuse_utimens :: "'d env \<Rightarrow> string \<Rightarrow> nat list \<Rightarrow> ('d xv6, int) prog" where
  "fuse_utimens E path tv = after [check (2 < length tv)] (sys_utime E path (u32 (tv ! 2)))"

definition fuse_chmod :: "string \<Rightarrow> nat \<Rightarrow> ('d xv6, int) prog" where
  "fuse_chmod path mode = ret 0"

definition fuse_mknod :: "'d env \<Rightarrow> string \<Rightarrow> nat \<Rightarrow> ('d xv6, int) prog" where
  "fuse_mknod E path m = (if m AND S_IFMT \<noteq> S_IFSOCK then ret (-1) else sys_mksock E path)"

text \<open>\<open>flash_fini\<close>, which saves the flash to a file, follows the flush of \<open>fuse_finalize\<close>.\<close>

definition fuse_finalize :: "'d env \<Rightarrow> ('d xv6, unit) prog" where
  "fuse_finalize E = on_disk (op_flush (e_disk E))"

definition fuse_fsync :: "'d env \<Rightarrow> string \<Rightarrow> ('d xv6, int) prog" where
  "fuse_fsync E path = after [on_disk (op_flush (e_disk E)), stat_inc nfuse_fsync_update] (ret 0)"

definition fuse_fsyncdir :: "'d env \<Rightarrow> string \<Rightarrow> ('d xv6, int) prog" where
  "fuse_fsyncdir E path = after [on_disk (op_flush (e_disk E)), stat_inc nfuse_fsyncdir_update] (ret 0)"

text \<open>The table \<open>fuse_filesystem_operations\<close>: a request of the kernel and the operation that serves it, with its return value.\<close>

datatype fuse_request =
  Getattr string | Open string nat "nat option" | Release string "nat option" | Read string bytes nat nat "nat option"
| Write string bytes nat nat "nat option" | Create string nat | Readdir string nat | Truncate string nat | Mkdir string
| Unlink string | Rmdir string | Rename string string | Utimens string "nat list" | Chmod string nat | Mknod string nat
| Destroy | Fsync string | Fsyncdir string

fun fuse_filesystem_operations :: "'d env \<Rightarrow> fuse_request \<Rightarrow> ('d xv6, int) prog" where
  "fuse_filesystem_operations E (Getattr path) = call (fuse_getattr E path) (\<lambda>(r, _). ret r)"
| "fuse_filesystem_operations E (Open path flags fh) = call (fuse_open E path flags fh) (\<lambda>(r, _). ret r)"
| "fuse_filesystem_operations E (Release path fh) = fuse_release E path fh"
| "fuse_filesystem_operations E (Read path buf sz off fh) = call (fuse_read E path buf sz off fh) (\<lambda>(r, _). ret r)"
| "fuse_filesystem_operations E (Write path buf sz off fh) = fuse_write E path buf sz off fh"
| "fuse_filesystem_operations E (Create path flags) = call (fuse_create E path flags) (\<lambda>(r, _). ret r)"
| "fuse_filesystem_operations E (Readdir path flags) = call (fuse_readdir E path flags) (\<lambda>(r, _). ret r)"
| "fuse_filesystem_operations E (Truncate path off) = fuse_truncate E path off"
| "fuse_filesystem_operations E (Mkdir path) = fuse_mkdir E path"
| "fuse_filesystem_operations E (Unlink path) = fuse_unlink E path"
| "fuse_filesystem_operations E (Rmdir path) = fuse_rmdir E path"
| "fuse_filesystem_operations E (Rename path1 path2) = fuse_rename E path1 path2"
| "fuse_filesystem_operations E (Utimens path tv) = fuse_utimens E path tv"
| "fuse_filesystem_operations E (Chmod path mode) = fuse_chmod path mode"
| "fuse_filesystem_operations E (Mknod path m) = fuse_mknod E path m"
| "fuse_filesystem_operations E Destroy = call (fuse_finalize E) (\<lambda>_. ret 0)"
| "fuse_filesystem_operations E (Fsync path) = fuse_fsync E path"
| "fuse_filesystem_operations E (Fsyncdir path) = fuse_fsyncdir E path"

definition ideinit :: "'d disk_ops \<Rightarrow> ('d xv6, unit) prog" where
  "ideinit D = on_disk (op_recover D)"

end
