(* ===== verification/FsCalls.thy ===== *)
theory FsCalls
  imports FsTxn XvFuse
begin

text \<open>
  The calls of \<^verbatim>\<open>xv6/sysfile.c\<close> and the operations of \<^verbatim>\<open>xv6/fuse.c\<close> with the log
  \<^verbatim>\<open>xv6/sclog.c\<close>: each keeps the invariant of the file system when it returns, and a power
  loss leaves a disk with a snapshot.
\<close>

sublocale snapshot_disk \<subseteq> sc: fs_log ops up down "sclog ops"
  by unfold_locales (simp_all add: sclog_def lg_sc_log_write)

lemma sclog_ops [simp]:
  "e_begin_op (sclog D) = begin_op" "e_end_op (sclog D) = sc_end_op D" "e_disk (sclog D) = D" "e_log_write (sclog D) = sc_log_write"
  by (simp_all add: sclog_def)

lemma sv_modify:
  assumes "\<And>s. same_fs s (g s\<lparr>statsbuf := statsbuf s\<rparr>) \<and> bufs (g s) = bufs s \<and> dsk (g s) = dsk s"
  shows "served up down U F (modify g) yes none none"
proof (rule servedI)
  fix s :: "'a xv6" and A assume s: "idle up s A" "U \<subseteq> iused s" "F \<subseteq> fgood s"
  note f = same_fsD [OF conjunct1 [OF assms [of s]], simplified]
  have eq: "iused (g s) = iused s" "fgood (g s) = fgood s" using f by (simp_all add: iused_def fgood_def)
  then have "idle up (g s) A" using s(1) f assms [of s] by (simp add: idle_def fs_inv_def cache_inv_def log_ok_def log_list_def)
  then show "wlp (modify g) (\<lambda>x t. yes x \<and> (\<exists>A'. idle up t A') \<and> U \<union> none x \<subseteq> iused t \<and> F \<union> none x \<subseteq> fgood t) (\<lambda>t. \<exists>st. down (dsk t) st) s"
    using s eq by (auto simp: wlp_def modify_def)
qed

lemma sv_statsbuf [sv_rules]: "served up down U F (modify (\<lambda>s. s\<lparr>statsbuf := g s\<rparr>)) yes none none"
  by (rule sv_modify) simp

lemma sv_fsstats [sv_rules]: "served up down U F (modify (\<lambda>s. s\<lparr>fsstats := x\<rparr>)) yes none none"
proof (rule sv_modify)
  fix s :: "'a xv6"
  show "same_fs s (s\<lparr>fsstats := x\<rparr>\<lparr>statsbuf := statsbuf s\<rparr>) \<and> bufs (s\<lparr>fsstats := x\<rparr>) = bufs s \<and> dsk (s\<lparr>fsstats := x\<rparr>) = dsk s"
    using same_fsI [where s = s and d = "dsk s" and f = x and B = "bufs s"] by simp
qed

lemma sv_gets [sv_rules]: "served up down U F (gets g) yes none none"
  by (rule sv_lg, rule lg_gets)

context snapshot_disk
begin

lemma sv_fileclose [sv_rules]: "served up down U F (fileclose (sclog ops) f) yes none none"
  unfolding fileclose_def pipeclose_def sclog_ops
  by (rule sv_ret_n sv_rules | rule sv_lg, rule lg_rules | simp; fail | force)+

lemma sv_filestat [sv_rules]: "served up down U F (filestat (sclog ops) f st) yes none none"
  unfolding filestat_def by (rule sv_file_open sv_ret_n sv_rules | rule sv_lg, rule lg_rules | simp; fail | force)+

lemma sv_fileread [sv_rules]: "served up down U F (fileread (sclog ops) f addr n) yes none none"
  unfolding fileread_def piperead_def by (rule sv_file_open sv_ret_n sv_rules | rule sv_lg, rule lg_rules | simp; fail | force)+

lemma sv_fill_hole [sv_rules]:
  "f \<in> F \<Longrightarrow> served up down U F (fill_hole (sclog ops) f) yes none none"
  unfolding fill_hole_def sclog_ops by (rule sv_file_open sv_ret_n sv_rules | rule sv_lg, rule lg_rules | simp; fail | force)+

lemma sv_filewrite [sv_rules]: "served up down U F (filewrite (sclog ops) f addr n) yes none none"
  unfolding filewrite_def pipewrite_def sclog_ops by (rule sv_file_open sv_ret_n sv_rules | rule sv_lg, rule lg_rules | simp; fail | force)+

lemma sv_open_inode [sv_rules]: "served up down U F (open_inode (sclog ops) path omode) yes set_option none"
  unfolding open_inode_def sclog_ops by (rule sv_file_open sv_ret_n sv_rules | rule sv_lg, rule lg_rules | simp; fail | force)+

lemma sv_sys_open [sv_rules]: "served up down U F (sys_open (sclog ops) path omode) yes none set_option"
  unfolding sys_open_def sclog_ops by (rule sv_file_open sv_ret_n sv_rules | rule sv_lg, rule lg_rules | simp; fail | force)+

lemma sv_sys_fileclose [sv_rules]: "served up down U F (sys_fileclose (sclog ops) fh) yes none none"
  unfolding sys_fileclose_def by (rule sv_file_open sv_ret_n sv_rules | rule sv_lg, rule lg_rules | simp; fail | force)+

lemma sv_sys_read [sv_rules]: "served up down U F (sys_read (sclog ops) fh buf sz off) yes none none"
  unfolding sys_read_def by (rule sv_file_open sv_ret_n sv_rules | rule sv_lg, rule lg_rules | simp; fail | force)+

lemma sv_sys_write [sv_rules]: "served up down U F (sys_write (sclog ops) fh buf sz off) yes none none"
  unfolding sys_write_def by (rule sv_file_open sv_ret_n sv_rules | rule sv_lg, rule lg_rules | simp; fail | force)+

lemma sv_sys_fstat [sv_rules]: "served up down U F (sys_fstat (sclog ops) path st) yes none none"
  unfolding sys_fstat_def by (rule sv_file_open sv_ret_n sv_rules | rule sv_lg, rule lg_rules | simp; fail | force)+

lemma sv_sys_readdirent [sv_rules]: "served up down U F (sys_readdirent (sclog ops) fh e off) yes none none"
  unfolding sys_readdirent_def by (rule sv_file_open sv_ret_n sv_rules | rule sv_lg, rule lg_rules | simp; fail | force)+

lemma sv_sys_truncate [sv_rules]: "served up down U F (sys_truncate (sclog ops) path) yes none none"
  unfolding sys_truncate_def sclog_ops by (rule sv_file_open sv_ret_n sv_rules | rule sv_lg, rule lg_rules | simp; fail | force)+

lemma sv_sys_mkdir [sv_rules]: "served up down U F (sys_mkdir (sclog ops) path) yes none none"
  unfolding sys_mkdir_def sclog_ops by (rule sv_file_open sv_ret_n sv_rules | rule sv_lg, rule lg_rules | simp; fail | force)+

lemma sv_sys_mksock [sv_rules]: "served up down U F (sys_mksock (sclog ops) path) yes none none"
  unfolding sys_mksock_def sclog_ops by (rule sv_file_open sv_ret_n sv_rules | rule sv_lg, rule lg_rules | simp; fail | force)+

lemma sv_sys_unlink [sv_rules]: "served up down U F (sys_unlink (sclog ops) path) yes none none"
  unfolding sys_unlink_def sclog_ops by (rule sv_file_open sv_ret_n sv_rules | rule sv_lg, rule lg_rules | simp; fail | force)+

lemma sv_sys_dolink [sv_rules]: "served up down U F (sys_dolink (sclog ops) old new) yes none none"
  unfolding sys_dolink_def sclog_ops by (rule sv_file_open sv_ret_n sv_rules | rule sv_lg, rule lg_rules | simp; fail | force)+

lemma sv_sys_rename [sv_rules]: "served up down U F (sys_rename (sclog ops) path1 path2) yes none none"
  unfolding sys_rename_def sclog_ops by (rule sv_file_open sv_ret_n sv_rules | rule sv_lg, rule lg_rules | simp; fail | force)+

lemma sv_sys_utime [sv_rules]: "served up down U F (sys_utime (sclog ops) path time) yes none none"
  unfolding sys_utime_def sclog_ops by (rule sv_file_open sv_ret_n sv_rules | rule sv_lg, rule lg_rules | simp; fail | force)+

section \<open>FUSE\<close>

lemma sv_fuse_getattr [sv_rules]: "served up down U F (fuse_getattr (sclog ops) path) yes none none"
  unfolding fuse_getattr_def by (rule sv_ret_n sv_rules | rule sv_lg, rule lg_rules | simp; fail | force)+

lemma sv_fuse_open [sv_rules]: "served up down U F (fuse_open (sclog ops) path flags fh) yes none none"
  unfolding fuse_open_def by (rule sv_ret_n sv_rules | rule sv_lg, rule lg_rules | simp; fail | force)+

lemma sv_fuse_release [sv_rules]: "served up down U F (fuse_release (sclog ops) path fh) yes none none"
  unfolding fuse_release_def by (rule sv_ret_n sv_rules | rule sv_lg, rule lg_rules | simp; fail | force)+

lemma sv_fuse_readdir [sv_rules]: "served up down U F (fuse_readdir (sclog ops) path flags) yes none none"
  unfolding fuse_readdir_def by (rule sv_ret_n sv_rules | rule sv_lg, rule lg_rules | simp; fail | force)+

lemma sv_fuse_read [sv_rules]: "served up down U F (fuse_read (sclog ops) path buf sz off fh) yes none none"
  unfolding fuse_read_def by (rule sv_ret_n sv_rules | rule sv_lg, rule lg_rules | simp; fail | force)+

lemma sv_fuse_write [sv_rules]: "served up down U F (fuse_write (sclog ops) path buf sz off fh) yes none none"
  unfolding fuse_write_def by (rule sv_ret_n sv_rules | rule sv_lg, rule lg_rules | simp; fail | force)+

lemma sv_fuse_create [sv_rules]: "served up down U F (fuse_create (sclog ops) path flags) yes none none"
  unfolding fuse_create_def by (rule sv_ret_n sv_rules | rule sv_lg, rule lg_rules | simp; fail | force)+

lemma sv_fuse_truncate [sv_rules]: "served up down U F (fuse_truncate (sclog ops) path off) yes none none"
  unfolding fuse_truncate_def by (rule sv_ret_n sv_rules | rule sv_lg, rule lg_rules | simp; fail | force)+

lemma sv_fuse_mkdir [sv_rules]: "served up down U F (fuse_mkdir (sclog ops) path) yes none none"
  unfolding fuse_mkdir_def by (rule sv_ret_n sv_rules | rule sv_lg, rule lg_rules | simp; fail | force)+

lemma sv_fuse_rmdir [sv_rules]: "served up down U F (fuse_rmdir (sclog ops) path) yes none none"
  unfolding fuse_rmdir_def by (rule sv_ret_n sv_rules | rule sv_lg, rule lg_rules | simp; fail | force)+

lemma sv_fuse_unlink [sv_rules]: "served up down U F (fuse_unlink (sclog ops) path) yes none none"
  unfolding fuse_unlink_def by (rule sv_ret_n sv_rules | rule sv_lg, rule lg_rules | simp; fail | force)+

lemma sv_fuse_rename [sv_rules]: "served up down U F (fuse_rename (sclog ops) path1 path2) yes none none"
  unfolding fuse_rename_def by (rule sv_ret_n sv_rules | rule sv_lg, rule lg_rules | simp; fail | force)+

lemma sv_fuse_utimens [sv_rules]: "served up down U F (fuse_utimens (sclog ops) path tv) yes none none"
  unfolding fuse_utimens_def by (rule sv_ret_n sv_rules | rule sv_lg, rule lg_rules | simp; fail | force)+

lemma sv_fuse_mknod [sv_rules]: "served up down U F (fuse_mknod (sclog ops) path m) yes none none"
  unfolding fuse_mknod_def by (rule sv_ret_n sv_rules | rule sv_lg, rule lg_rules | simp; fail | force)+

lemma sv_fuse_finalize [sv_rules]: "served up down U F (fuse_finalize (sclog ops)) yes none none"
  unfolding fuse_finalize_def sclog_ops by (rule sv_ret_n sv_rules | rule sv_lg, rule lg_rules | simp; fail | force)+

lemma sv_fuse_fsync [sv_rules]: "served up down U F (fuse_fsync (sclog ops) path) yes none none"
  unfolding fuse_fsync_def sclog_ops by (rule sv_ret_n sv_rules | rule sv_lg, rule lg_rules | simp; fail | force)+

lemma sv_fuse_fsyncdir [sv_rules]: "served up down U F (fuse_fsyncdir (sclog ops) path) yes none none"
  unfolding fuse_fsyncdir_def sclog_ops by (rule sv_ret_n sv_rules | rule sv_lg, rule lg_rules | simp; fail | force)+

lemma sv_fuse_chmod [sv_rules]: "served up down U F (fuse_chmod path mode) yes none none"
  unfolding fuse_chmod_def by (rule sv_ret_n)

lemma sv_request [sv_rules]: "served up down U F (fuse_filesystem_operations (sclog ops) req) yes none none"
  by (cases req; simp; (rule sv_ret_n sv_rules | rule sv_lg, rule lg_rules | simp; fail | force)+)

text \<open>Any sequence of requests.\<close>

lemma sv_requests: "served up down U F (for_all reqs (\<lambda>req. call (fuse_filesystem_operations (sclog ops) req) (\<lambda>_. ret ()))) yes none none"
proof (induction reqs arbitrary: U F)
  case (Cons req reqs)
  show ?case unfolding for_all.simps by (rule sv_ret_n sv_rules Cons.IH | simp; fail)+
qed (simp add: sv_ret_n)

end

text \<open>The other logs meet the same contract: with each of them the functions of \<^verbatim>\<open>xv6/fs.c\<close> change the disk only through the log.\<close>

sublocale snapshot_disk \<subseteq> gcm: fs_log ops up down "sclog_gcm ops"
  by unfold_locales (simp_all add: sclog_gcm_def gcm_log_write_def lg_sc_log_write)

sublocale snapshot_disk \<subseteq> sync: fs_log ops up down "synclog ops"
  by unfold_locales (simp_all add: synclog_def lg_wal_log_write)

sublocale snapshot_disk \<subseteq> async: fs_log ops up down "asynclog ops"
  by unfold_locales (simp_all add: asynclog_def lg_wal_log_write)

end
