(* ===== verification/Mkfs.thy ===== *)
theory Mkfs
  imports XvFuse
begin

text \<open>
  Making the file system, \<^verbatim>\<open>xv6/mkfs.c\<close>, and the start of the program. The functions of
  \<^verbatim>\<open>mkfs.c\<close> call the disk layer directly; what they print is not modelled.
\<close>

definition SIZE :: nat where "SIZE = 100000"
definition NINODES :: nat where "NINODES = 40000"
definition nbitmap :: nat where "nbitmap = SIZE div (BSIZE * 8) + 1"
definition ninodeblocks :: nat where "ninodeblocks = NINODES div IPB + 1"
definition nlog :: nat where "nlog = LOGSIZE"

text \<open>The values of \<open>nmeta\<close>, \<open>nblocks\<close> and \<open>sb\<close> that \<open>mkfs\<close> computes.\<close>

definition nmeta :: nat where "nmeta = 2 + ninodeblocks + nbitmap"
definition nblocks :: nat where "nblocks = SIZE - nlog - nmeta"

lemma mkfs_vals [macros]:
  "SIZE = 100000" "NINODES = 40000" "nbitmap = 4" "ninodeblocks = 626" "nlog = 30" "nmeta = 632" "nblocks = 99338"
  by (simp_all add: SIZE_def NINODES_def nbitmap_def ninodeblocks_def nlog_def nmeta_def nblocks_def macros)

text \<open>The conversion to Intel byte order, on a machine that has it.\<close>

definition xshort :: "nat \<Rightarrow> nat" where
  "xshort x = get16 (put16 0 x (\<lambda>_. 0)) 0"

definition xint :: "nat \<Rightarrow> nat" where
  "xint x = get32 (put32 0 x (\<lambda>_. 0)) 0"

definition mkfs_sb :: superblock where
  "mkfs_sb = \<lparr>sb_size = xint SIZE, sb_nblocks = xint nblocks, sb_ninodes = xint NINODES, sb_nlog = xint nlog\<rparr>"

section \<open>Sectors and inodes\<close>

definition wsect :: "'d disk_ops \<Rightarrow> nat \<Rightarrow> bytes \<Rightarrow> ('d xv6, unit) prog" where
  "wsect D sec buf = steps [
     on_disk (op_write D sec (words_of buf)),
     call (gets mk_wwcnt) (\<lambda>n. if n \<noteq> 0 \<and> n mod 1000 = 0
       then steps [
         on_disk (op_flush D),
         modify (\<lambda>s. s\<lparr>mk_wwcnt := 0\<rparr>)]
       else modify (\<lambda>s. s\<lparr>mk_wwcnt := mk_wwcnt s + 1\<rparr>))]"

definition rsect :: "'d disk_ops \<Rightarrow> nat \<Rightarrow> ('d xv6, bytes) prog" where
  "rsect D sec = after [on_disk (op_read D sec)] (gets (\<lambda>s. bytes_of (op_data D (dsk s))))"

definition winode :: "'d disk_ops \<Rightarrow> nat \<Rightarrow> dinode \<Rightarrow> ('d xv6, unit) prog" where
  "winode D inum ip = call (rsect D (IBLOCK inum)) (\<lambda>buf.
     wsect D (IBLOCK inum) (put_dinode (inum mod IPB) ip (NDIRECT + 2) buf))"

definition rinode :: "'d disk_ops \<Rightarrow> nat \<Rightarrow> ('d xv6, dinode) prog" where
  "rinode D inum = call (rsect D (IBLOCK inum)) (\<lambda>buf. ret (get_dinode buf (inum mod IPB)))"

definition dinode_zero :: dinode where
  "dinode_zero = \<lparr>d_type = 0, d_major = 0, d_minor = 0, d_nlink = 0, d_size = 0, d_ctime = 0, d_atime = 0, d_mtime = 0, d_addrs = (\<lambda>_. 0)\<rparr>"

definition mk_ialloc :: "'d disk_ops \<Rightarrow> int \<Rightarrow> ('d xv6, nat) prog" where
  "mk_ialloc D type = call (gets mk_freeinode) (\<lambda>inum. after [
     modify (\<lambda>s. s\<lparr>mk_freeinode := mk_freeinode s + 1\<rparr>),
     winode D inum (dinode_zero\<lparr>d_type := s16 (int (xshort (nat type))), d_nlink := s16 (int (xshort 1)), d_size := xint 0\<rparr>)]
     (ret inum))"

definition mk_balloc :: "'d disk_ops \<Rightarrow> nat \<Rightarrow> ('d xv6, unit) prog" where
  "mk_balloc D k = steps [
     cassert (k < BSIZE * 8),
     wsect D (ninodeblocks + 2)
       (fold (\<lambda>i buf. buf(i div 8 := buf (i div 8) OR push_bit (i mod 8) 1)) [0..<k] (\<lambda>_. 0))]"

text \<open>The block \<open>x\<close> of \<open>iappend\<close>, and the inode with the new addresses.\<close>

definition mk_block :: "nat option \<Rightarrow> ('d xv6, nat) prog" where
  "mk_block a = (case a of
     Some x \<Rightarrow> ret x
   | None \<Rightarrow> call (gets mk_freeblock) (\<lambda>b. after [modify (\<lambda>s. s\<lparr>mk_freeblock := mk_freeblock s + 1\<rparr>)] (ret (xint b))))"

definition iappend_block :: "'d disk_ops \<Rightarrow> dinode \<Rightarrow> nat \<Rightarrow> ('d xv6, dinode \<times> nat) prog" where
  "iappend_block D din fbn = (
     let slot = (\<lambda>v. if xint v = 0 then None else Some v) in
     if fbn < NDIRECT
     then call (mk_block (slot (d_addrs din fbn))) (\<lambda>a. ret (din\<lparr>d_addrs := (d_addrs din)(fbn := a)\<rparr>, xint a))
     else call (mk_block (slot (d_addrs din NDIRECT))) (\<lambda>a.
       let din = din\<lparr>d_addrs := (d_addrs din)(NDIRECT := a)\<rparr> in
       call (rsect D (xint a)) (\<lambda>indirect. after [check (fbn - NDIRECT < NINDIRECT)] (
         let v = get32 indirect (4 * (fbn - NDIRECT)) in
         if v = 0 then call (mk_block None) (\<lambda>b.
           after [wsect D (xint a) (put32 (4 * (fbn - NDIRECT)) b indirect)] (ret (din, xint b)))
         else ret (din, xint v)))))"

definition iappend :: "'d disk_ops \<Rightarrow> nat \<Rightarrow> bytes \<Rightarrow> nat \<Rightarrow> ('d xv6, unit) prog" where
  "iappend D inum xp n = call (rinode D inum) (\<lambda>din.
     call (loop (\<lambda>(n, off, p, din). if n > 0
       then let fbn = off div BSIZE in after [cassert (fbn < MAXFILE)] (
         call (iappend_block D din fbn) (\<lambda>(din, x).
         let n1 = min n ((fbn + 1) * BSIZE - off) in
         call (rsect D x) (\<lambda>buf. after [wsect D x (move_bytes (off - fbn * BSIZE) xp p n1 buf)]
           (ret (Inl (n - n1, off + n1, p + n1, din))))))
       else ret (Inr (off, din))) (n, xint (d_size din), 0, din))
     (\<lambda>(off, din). winode D inum (din\<lparr>d_size := xint off\<rparr>)))"

section \<open>mkfs\<close>

definition mk_dirent :: "nat \<Rightarrow> string \<Rightarrow> bytes" where
  "mk_dirent inum nm = put16 0 (xshort inum) (\<lambda>k. if 2 \<le> k \<and> k < 2 + length nm then of_char (nm ! (k - 2)) else 0)"

text \<open>The last read, of sector 65, is only for a message.\<close>

definition mkfs :: "'d disk_ops \<Rightarrow> ('d xv6, unit) prog" where
  "mkfs D = steps [
     cassert (BSIZE mod DINODE_SIZE = 0),
     cassert (BSIZE mod DIRENT_SIZE = 0),
     modify (\<lambda>s. s\<lparr>mk_freeblock := nmeta\<rparr>),
     for_all [0..<SIZE] (\<lambda>i. wsect D i zero_blk),
     wsect D 1 (put_sb mkfs_sb (\<lambda>_. 0)),
     call (rsect D 1) (\<lambda>_. ret ()),
     call (mk_ialloc D T_DIR) (\<lambda>rootino. steps [
       cassert (rootino = ROOTINO),
       iappend D rootino (mk_dirent rootino ''.'') DIRENT_SIZE,
       iappend D rootino (mk_dirent rootino ''..'') DIRENT_SIZE,
       call (rinode D rootino) (\<lambda>din.
         winode D rootino (din\<lparr>d_size := xint ((xint (d_size din) div BSIZE + 1) * BSIZE)\<rparr>))]),
     call (gets mk_freeblock) (mk_balloc D),
     call (rsect D 65) (\<lambda>_. ret ())]"

text \<open>The start of the program, up to the loop of FUSE; \<open>initlog\<close> is that of the log it is linked with.\<close>

definition xv6_start :: "'d disk_ops \<Rightarrow> ('d xv6, unit) prog \<Rightarrow> ('d xv6, unit) prog" where
  "xv6_start D initlog = steps [
     binit,
     fileinit,
     ideinit D,
     mkfs D,
     initlog]"

end
