(* ===== verification/MkfsOk.thy ===== *)
theory MkfsOk
  imports Mkfs
begin

text \<open>
  What \<open>mkfs\<close> leaves on any disk that satisfies the laws of \<open>snapshot_disk\<close>: the super block, the
  root directory with its two entries, free inodes and a bitmap with the blocks in use.
\<close>

section \<open>The disk under mkfs\<close>

text \<open>The disk holds the blocks \<open>V\<close>; the writes since the last flush are those that \<open>wwcnt\<close> counts.\<close>

definition mkst :: "('d \<Rightarrow> contents \<Rightarrow> contents \<Rightarrow> nat \<Rightarrow> bool) \<Rightarrow> 'd xv6 \<Rightarrow> (nat \<Rightarrow> bytes) \<Rightarrow> bool" where
  "mkst up s V \<longleftrightarrow> mk_wwcnt s \<le> 1000 \<and> (\<exists>vol st. up (dsk s) vol st (mk_wwcnt s) \<and> same_blks vol V)"

text \<open>The part of the state that \<open>mkfs\<close> does not touch.\<close>

definition same_mk :: "'d xv6 \<Rightarrow> 'd xv6 \<Rightarrow> bool" where
  "same_mk s t \<longleftrightarrow> bufs t = bufs s \<and> log_start t = log_start s \<and> log_size t = log_size s \<and> outstanding t = outstanding s
     \<and> committing t = committing s \<and> log_dev t = log_dev s \<and> lh_n t = lh_n s \<and> lh_sector t = lh_sector s \<and> acc_commit t = acc_commit s
     \<and> icache t = icache s \<and> ftable t = ftable s \<and> cwd t = cwd s"

lemma same_mk_refl [simp]: "same_mk s s"
  by (simp add: same_mk_def)

lemma same_mk_trans: "same_mk s t \<Longrightarrow> same_mk t u \<Longrightarrow> same_mk s u"
  by (simp add: same_mk_def)

lemma xint_id [simp]: "n < 4294967296 \<Longrightarrow> xint n = n"
  by (simp add: xint_def)

lemma xshort_id [simp]: "n < 65536 \<Longrightarrow> xshort n = n"
  by (simp add: xshort_def)

lemma s32_id: "n < 2147483648 \<Longrightarrow> s32 n = int n"
  by (simp add: s32_def)

lemma wpm_call_eta: "wpm (call m f) Q C = wpm m (\<lambda>x. wpm (f x) Q C) C"
  by (simp add: fun_eq_iff wpm_simps)

context snapshot_disk
begin

lemma wp_wsect:
  assumes s: "mkst up s V" and sec: "sec < N_LAS" "is_blk b"
    and Q: "\<And>t. mkst up t (V(sec := b)) \<Longrightarrow> same_mk s t \<Longrightarrow> mk_freeinode t = mk_freeinode s \<Longrightarrow> mk_freeblock t = mk_freeblock s \<Longrightarrow> Q () t"
    and C: "\<And>t st. down (dsk t) st \<Longrightarrow> C t"
  shows "wpm (wsect ops sec b) Q C s"
proof -
  obtain vol st where n: "mk_wwcnt s \<le> 1000" and u: "up (dsk s) vol st (mk_wwcnt s)" and V: "same_blks vol V"
    using s by (auto simp: mkst_def)
  let ?vol = "vol(sec := words_of b)"
  have V': "same_blks ?vol (V(sec := b))" using V sec by (simp add: same_blks_def bytes_of_words_of)
  let ?R = "\<lambda>d. wpm (call (gets mk_wwcnt) (\<lambda>n. if n \<noteq> 0 \<and> n mod 1000 = 0
       then steps [on_disk (op_flush ops), modify (\<lambda>s. s\<lparr>mk_wwcnt := 0\<rparr>)] else modify (\<lambda>s. s\<lparr>mk_wwcnt := mk_wwcnt s + 1\<rparr>))) Q C (s\<lparr>dsk := d\<rparr>)"
  have "?R d" if d: "up d ?vol st (Suc (mk_wwcnt s))" for d
  proof (cases "mk_wwcnt s = 1000")
    case True
    have "Q () (s\<lparr>dsk := e, mk_wwcnt := 0\<rparr>)" if "up e ?vol ?vol 0" for e
      by (rule Q) (use that V' in \<open>auto simp: mkst_def same_mk_def\<close>)
    then have "wp (op_flush ops) (\<lambda>e. Q () (s\<lparr>dsk := e, mk_wwcnt := 0\<rparr>)) (\<lambda>e. C (s\<lparr>dsk := e\<rparr>)) d"
      using C by (intro wp_mono [OF flush_law [OF d]]) auto
    moreover have "s\<lparr>dsk := d, dsk := e, mk_wwcnt := w\<rparr> = s\<lparr>dsk := e, mk_wwcnt := w\<rparr>" for e w by simp
    ultimately show ?thesis using True by (simp add: wpm_simps wpm_on_disk cong: wpm_cong)
  next
    case False
    then have "\<not> (mk_wwcnt s \<noteq> 0 \<and> mk_wwcnt s mod 1000 = 0)" using n by (auto simp: mod_eq_0_iff_dvd dest!: nat_dvd_not_less [rotated])
    moreover have "Q () (s\<lparr>dsk := d, mk_wwcnt := mk_wwcnt s + 1\<rparr>)"
      by (rule Q) (use d V' n False in \<open>auto simp: mkst_def same_mk_def\<close>)
    ultimately show ?thesis by (auto simp: wpm_simps)
  qed
  moreover have "mk_wwcnt s < MAX_WCNT" using n by (simp add: macros)
  ultimately have "wp (op_write ops sec (words_of b)) ?R (\<lambda>d. C (s\<lparr>dsk := d\<rparr>)) (dsk s)"
    using C by (intro wp_mono [OF write_law [OF u sec(1)]]) auto
  then show ?thesis by (simp add: wsect_def wpm_simps wpm_on_disk)
qed

lemma wp_rsect:
  assumes s: "mkst up s V" and sec: "sec < N_LAS"
    and Q: "\<And>t. mkst up t V \<Longrightarrow> same_mk s t \<Longrightarrow> mk_freeinode t = mk_freeinode s \<Longrightarrow> mk_freeblock t = mk_freeblock s \<Longrightarrow> Q (V sec) t"
  shows "wpm (rsect ops sec) Q C s"
proof -
  obtain vol st where n: "mk_wwcnt s \<le> 1000" and u: "up (dsk s) vol st (mk_wwcnt s)" and V: "same_blks vol V"
    using s by (auto simp: mkst_def)
  have "Q (bytes_of (op_data ops d)) (s\<lparr>dsk := d\<rparr>)"
    if d: "up d vol st (mk_wwcnt s)" "\<forall>o'<N_ENTRIES_PER_SECTOR. op_data ops d o' = vol sec o'" for d
  proof -
    have "bytes_of (op_data ops d) = blk vol sec" unfolding blk_def using d(2) by (intro bytes_of_cong) (simp add: macros)
    then have "bytes_of (op_data ops d) = V sec" using V sec by (simp add: same_blks_def)
    then show ?thesis using d(1) n V Q [of "s\<lparr>dsk := d\<rparr>"] by (auto simp: mkst_def same_mk_def)
  qed
  then have "wp (op_read ops sec) (\<lambda>d. Q (bytes_of (op_data ops d)) (s\<lparr>dsk := d\<rparr>)) (\<lambda>d. C (s\<lparr>dsk := d\<rparr>)) (dsk s)"
    by (intro wp_mono [OF read_law [OF u sec]]) auto
  then show ?thesis by (simp add: rsect_def wpm_simps wpm_on_disk)
qed

lemma wp_rinode:
  assumes s: "mkst up s V" and sec: "IBLOCK inum < N_LAS"
    and Q: "\<And>t. mkst up t V \<Longrightarrow> same_mk s t \<Longrightarrow> mk_freeinode t = mk_freeinode s \<Longrightarrow> mk_freeblock t = mk_freeblock s \<Longrightarrow>
      Q (get_dinode (V (IBLOCK inum)) (inum mod IPB)) t"
  shows "wpm (rinode ops inum) Q C s"
proof -
  have "wpm (rsect ops (IBLOCK inum)) (\<lambda>buf. wpm (ret (get_dinode buf (inum mod IPB))) Q C) C s"
    by (rule wp_rsect [OF s sec]) (use Q in \<open>simp add: wpm_simps\<close>)
  then show ?thesis by (simp add: rinode_def wpm_simps)
qed

lemma wp_winode:
  assumes s: "mkst up s V" and sec: "IBLOCK inum < N_LAS" and V: "is_blk (V (IBLOCK inum))"
    and Q: "\<And>t. mkst up t (V(IBLOCK inum := put_dinode (inum mod IPB) di (NDIRECT + 2) (V (IBLOCK inum)))) \<Longrightarrow> same_mk s t \<Longrightarrow>
      mk_freeinode t = mk_freeinode s \<Longrightarrow> mk_freeblock t = mk_freeblock s \<Longrightarrow> Q () t"
    and C: "\<And>t st. down (dsk t) st \<Longrightarrow> C t"
  shows "wpm (winode ops inum di) Q C s"
proof -
  have k: "inum mod IPB < IPB" by (simp add: macros)
  have "wpm (rsect ops (IBLOCK inum)) (\<lambda>buf. wpm (wsect ops (IBLOCK inum) (put_dinode (inum mod IPB) di (NDIRECT + 2) buf)) Q C) C s"
  proof (rule wp_rsect [OF s sec])
    fix t assume t: "mkst up t V" "same_mk s t" "mk_freeinode t = mk_freeinode s" "mk_freeblock t = mk_freeblock s"
    show "wpm (wsect ops (IBLOCK inum) (put_dinode (inum mod IPB) di (NDIRECT + 2) (V (IBLOCK inum)))) Q C t"
      by (rule wp_wsect [OF t(1) sec]) (use V k C t in \<open>auto intro: Q same_mk_trans [OF t(2)]\<close>)
  qed
  then show ?thesis by (simp add: winode_def wpm_simps)
qed

text \<open>An append that stays within one direct block.\<close>

lemma wp_iappend:
  fixes V :: "nat \<Rightarrow> bytes" and inum :: nat
  defines "din \<equiv> get_dinode (V (IBLOCK inum)) (inum mod IPB)"
  assumes s: "mkst up s V" and sec: "IBLOCK inum < N_LAS" and V: "\<And>sec. is_blk (V sec)"
    and n: "0 < n" "d_size din mod BSIZE + n \<le> BSIZE" and fbn: "fbn = d_size din div BSIZE" "fbn < NDIRECT"
    and a: "a = (if d_addrs din fbn = 0 then mk_freeblock s else d_addrs din fbn)" "a < 4294967296" "a < N_LAS" "a \<noteq> IBLOCK inum"
      "d_addrs din fbn < 4294967296" "d_size din + n < 4294967296"
    and Q: "\<And>t. mkst up t (V(a := move_bytes (d_size din mod BSIZE) xp 0 n (V a),
        IBLOCK inum := put_dinode (inum mod IPB) (din\<lparr>d_addrs := (d_addrs din)(fbn := a), d_size := d_size din + n\<rparr>) (NDIRECT + 2) (V (IBLOCK inum)))) \<Longrightarrow>
      same_mk s t \<Longrightarrow> mk_freeinode t = mk_freeinode s \<Longrightarrow>
      mk_freeblock t = (if d_addrs din fbn = 0 then mk_freeblock s + 1 else mk_freeblock s) \<Longrightarrow> Q () t"
    and C: "\<And>t st. down (dsk t) st \<Longrightarrow> C t"
  shows "wpm (iappend ops inum xp n) Q C s"
proof -
  let ?sz = "d_size din" and ?o = "d_size din mod BSIZE"
  let ?din = "din\<lparr>d_addrs := (d_addrs din)(fbn := a)\<rparr>"
  let ?V = "V(a := move_bytes ?o xp 0 n (V a))"
  define fb where "fb = (if d_addrs din fbn = 0 then mk_freeblock s + 1 else mk_freeblock s)"
  let ?new = "\<lambda>t. same_mk s t \<and> mk_freeinode t = mk_freeinode s \<and> mk_freeblock t = fb"
  have arith: "?sz - fbn * BSIZE = ?o" "fbn * BSIZE + ?o = ?sz" "min n (BSIZE - ?o) = n" "?o < BSIZE" "fbn < MAXFILE"
    using n fbn(2) by (auto simp: fbn(1) minus_div_mult_eq_mod macros min_def)
  then have le: "(fbn + 1) * BSIZE - ?sz = BSIZE - ?o" by (simp add: algebra_simps)
  let ?last = "\<lambda>(off, din). winode ops inum (din\<lparr>d_size := xint off\<rparr>)"
  have last: "wpm (?last (?sz + n, ?din)) Q C t" if t: "mkst up t ?V" "?new t" for t
  proof -
    have "wpm (winode ops inum (?din\<lparr>d_size := ?sz + n\<rparr>)) Q C t"
      by (rule wp_winode [OF t(1) sec _ _ C]) (use V a t in \<open>auto intro!: Q intro: same_mk_trans simp: arith(4) fb_def\<close>)
    then show ?thesis using a(6) by simp
  qed
  have body: "wpm (call (rsect ops a) (\<lambda>buf. after [wsect ops a (move_bytes ?o xp 0 n buf)] (ret x))) (\<lambda>y t. y = x \<and> mkst up t ?V \<and> ?new t) C t"
    if t: "mkst up t V" "?new t" for t and x :: "(nat \<times> nat \<times> nat \<times> dinode) + (nat \<times> dinode)"
  proof -
    have "wpm (rsect ops a) (\<lambda>buf. wpm (wsect ops a (move_bytes ?o xp 0 n buf)) (\<lambda>_ t. mkst up t ?V \<and> ?new t) C) C t"
    proof (rule wp_rsect [OF t(1) a(3)])
      fix u assume u: "mkst up u V" "same_mk t u" "mk_freeinode u = mk_freeinode t" "mk_freeblock u = mk_freeblock t"
      show "wpm (wsect ops a (move_bytes ?o xp 0 n (V a))) (\<lambda>_ t. mkst up t ?V \<and> ?new t) C u"
        by (rule wp_wsect [OF u(1) a(3)]) (use V C n t u in \<open>auto intro: same_mk_trans\<close>)
    qed
    then show ?thesis by (simp add: wpm_simps wpm_call_eta)
  qed
  let ?body = "\<lambda>(n, off, p, din). if n > 0
       then let fbn = off div BSIZE in after [cassert (fbn < MAXFILE)] (
         call (iappend_block ops din fbn) (\<lambda>(din, x).
         let n1 = min n ((fbn + 1) * BSIZE - off) in
         call (rsect ops x) (\<lambda>buf. after [wsect ops x (move_bytes (off - fbn * BSIZE) xp p n1 buf)]
           (ret (Inl (n - n1, off + n1, p + n1, din))))))
       else ret (Inr (off, din))"
  have blk: "wpm (iappend_block ops din fbn) (\<lambda>(d, x) u. d = ?din \<and> x = a \<and> mkst up u V \<and> ?new u) C t"
    if t: "mkst up t V" "same_mk s t" "mk_freeinode t = mk_freeinode s" "mk_freeblock t = mk_freeblock s" for t
    using t fbn(2) a by (auto simp: iappend_block_def mk_block_def wpm_simps mkst_def same_mk_def fb_def)
  have one: "wpm (?body (n, ?sz, 0, din)) (\<lambda>y t. y = Inl (0, ?sz + n, n, ?din) \<and> mkst up t ?V \<and> ?new t) C t"
    if t: "mkst up t V" "same_mk s t" "mk_freeinode t = mk_freeinode s" "mk_freeblock t = mk_freeblock s" for t
    using n(1) arith body by (auto simp: wpm_simps fbn(1) [symmetric] le Let_def intro!: wpm_mono [OF blk [OF t]])
  have "wpm (loop ?body (n, ?sz, 0, din)) (\<lambda>x. wpm (?last x) Q C) C t"
    if t: "mkst up t V" "same_mk s t" "mk_freeinode t = mk_freeinode s" "mk_freeblock t = mk_freeblock s" for t
    by (subst wpm_loop_unfold, rule wpm_mono [OF one [OF t]]) (use last in \<open>auto simp: wpm_loop_unfold [where v = "(0, ?sz + n, n, ?din)"] wpm_simps\<close>)
  then have "wpm (rinode ops inum) (\<lambda>din. wpm (loop ?body (n, xint (d_size din), 0, din)) (\<lambda>x. wpm (?last x) Q C) C) C s"
    by (intro wp_rinode [OF s sec]) (use a(6) in \<open>simp add: din_def\<close>)
  then show ?thesis by (simp add: iappend_def wpm_simps wpm_call_eta)
qed

end

section \<open>The image\<close>

text \<open>The blocks that \<open>mkfs\<close> leaves: what it promises to the file system.\<close>

definition root_entry :: "bytes \<Rightarrow> nat \<Rightarrow> bytes" where
  "root_entry b k = (\<lambda>i. b (k * DIRENT_SIZE + i))"

definition mkfs_image :: "(nat \<Rightarrow> bytes) \<Rightarrow> bool" where
  "mkfs_image V \<longleftrightarrow>
     get_sb (V 1) = \<lparr>sb_size = SIZE, sb_nblocks = nblocks, sb_ninodes = NINODES, sb_nlog = nlog\<rparr>
   \<and> (let root = get_dinode (V (IBLOCK ROOTINO)) (ROOTINO mod IPB) in
       d_type root = T_DIR \<and> d_nlink root = 1 \<and> d_size root = BSIZE \<and> d_addrs root 0 = nmeta
       \<and> (\<forall>i \<in> {1..<NDIRECT + 2}. d_addrs root i = 0))
   \<and> (\<forall>inum < NINODES. inum \<noteq> ROOTINO \<longrightarrow> d_type (get_dinode (V (IBLOCK inum)) (inum mod IPB)) = 0)
   \<and> (let e = root_entry (V nmeta) in
       de_inum (e 0) = ROOTINO \<and> namecmp (copy_str ''.'' (\<lambda>_. 0)) (de_name (e 0)) = 0
       \<and> de_inum (e 1) = ROOTINO \<and> namecmp (copy_str ''..'' (\<lambda>_. 0)) (de_name (e 1)) = 0
       \<and> (\<forall>k \<in> {2..<BSIZE div DIRENT_SIZE}. de_inum (e k) = 0))
   \<and> (\<forall>b < BPB. bit (V (BBLOCK b NINODES) (b mod BPB div 8)) (b mod 8) = (b \<le> nmeta))
   \<and> (\<forall>i. nmeta < i \<longrightarrow> i < SIZE \<longrightarrow> V i = zero_blk)"

definition dirent_blk :: bytes where
  "dirent_blk = move_bytes 64 (mk_dirent 1 ''..'') 0 64 (move_bytes 0 (mk_dirent 1 ''.'') 0 64 zero_blk)"

lemma strncmp_step: "0 < n \<Longrightarrow> strncmp s t i n = (if s i \<noteq> t i then int (s i) - int (t i) else if s i = 0 then 0 else strncmp s t (Suc i) (n - 1))"
  by (cases n) simp_all

lemma dirent_blk_apply:
  "dirent_blk p = (if p < 64 then u8 (mk_dirent 1 ''.'' p) else if p < 128 then u8 (mk_dirent 1 ''..'' (p - 64)) else 0)"
  by (simp add: dirent_blk_def move_bytes_apply zero_blk_def)

lemma mk_dirent_apply:
  "mk_dirent (Suc 0) nm p = (if p = 0 then 1 else if p = 1 then 0 else if p < 2 + length nm then of_char (nm ! (p - 2)) else 0)"
  by (auto simp: mk_dirent_def put16_def)

lemma dirent_blk_entries:
  "de_inum (root_entry dirent_blk 0) = 1" "namecmp (copy_str ''.'' (\<lambda>_. 0)) (de_name (root_entry dirent_blk 0)) = 0"
  "de_inum (root_entry dirent_blk 1) = 1" "namecmp (copy_str ''..'' (\<lambda>_. 0)) (de_name (root_entry dirent_blk 1)) = 0"
  "2 \<le> k \<Longrightarrow> de_inum (root_entry dirent_blk k) = 0"
  by (simp_all add: de_inum_def get16_def root_entry_def dirent_blk_apply mk_dirent_apply namecmp_def macros strncmp_step de_name_def copy_str_def u8_def)

text \<open>The bitmap with the first \<open>k\<close> bits set.\<close>

definition bitmap_of :: "nat \<Rightarrow> bytes" where
  "bitmap_of k = fold (\<lambda>i buf. buf(i div 8 := buf (i div 8) OR push_bit (i mod 8) 1)) [0..<k] (\<lambda>_. 0)"

lemma bitmap_Suc: "bitmap_of (Suc k) = (bitmap_of k)(k div 8 := bitmap_of k (k div 8) OR push_bit (k mod 8) 1)"
  by (simp add: bitmap_of_def)

lemma bitmap_bits: "bit (bitmap_of k (b div 8)) (b mod 8) = (b < k)"
proof (induction k)
  case (Suc k)
  have "b div 8 = k div 8 \<Longrightarrow> b mod 8 = k mod 8 \<Longrightarrow> b = k" by (metis div_mod_decomp)
  then show ?case using Suc by (auto simp: bitmap_Suc bit_or_iff bit_exp_iff less_Suc_eq)
qed (simp add: bitmap_of_def)

lemma or_less_256: "a < 256 \<Longrightarrow> i < 8 \<Longrightarrow> a OR 2 ^ i < (256 :: nat)"
proof -
  assume "a < 256" "i < 8"
  then have "take_bit 8 (a OR 2 ^ i) = a OR 2 ^ i" by (simp add: take_bit_or take_bit_nat_eq_self)
  then show ?thesis using take_bit_nat_less_exp [of 8 "a OR 2 ^ i"] by simp
qed

lemma bitmap_blk: "k \<le> 32768 \<Longrightarrow> is_blk (bitmap_of k)"
proof (induction k)
  case (Suc k)
  then show ?case by (auto simp: bitmap_Suc is_blk_def macros intro!: or_less_256)
qed (simp add: is_blk_def bitmap_of_def)

text \<open>The block of the root inode, with the inode \<open>di\<close> and nothing else.\<close>

definition root_blk :: "bytes \<Rightarrow> dinode \<Rightarrow> bool" where
  "root_blk B di \<longleftrightarrow> is_blk B \<and> get_dinode B 1 = di \<and> (\<forall>p. p < DINODE_SIZE \<or> 2 * DINODE_SIZE \<le> p \<longrightarrow> B p = 0)"

lemma root_blk_put:
  assumes B: "is_blk B" "\<And>p. p < DINODE_SIZE \<or> 2 * DINODE_SIZE \<le> p \<Longrightarrow> B p = 0" and di: "dinode_ok di" "\<And>i. NDIRECT + 2 \<le> i \<Longrightarrow> d_addrs di i = 0"
  shows "root_blk (put_dinode 1 di (NDIRECT + 2) B) di"
proof -
  let ?P = "put_dinode 1 di (NDIRECT + 2) B"
  have out: "?P p = 0" if "p < DINODE_SIZE \<or> 2 * DINODE_SIZE \<le> p" for p
    using that B(2) by (subst put_dinode_other) auto
  have "d_addrs (get_dinode ?P 1) i = d_addrs di i" for i
  proof (cases "i < NDIRECT + 2")
    case True
    show ?thesis by (rule get_put_dinode(9) [OF di(1) order.refl True])
  next
    case False
    then have "d_addrs (get_dinode ?P 1) i = 0" using out by (simp add: get_dinode_def Let_def get32_def macros)
    then show ?thesis using di(2) False by simp
  qed
  then have "get_dinode ?P 1 = di"
    using get_put_dinode(1-8) [OF di(1) order.refl, of 1 B] by (intro dinode.equality) (auto simp: fun_eq_iff)
  moreover have "is_blk ?P" using B(1) by (simp add: macros)
  ultimately show ?thesis using out by (simp add: root_blk_def)
qed

lemma root_blk_free: "root_blk B di \<Longrightarrow> j \<noteq> 1 \<Longrightarrow> d_type (get_dinode B j) = 0"
  by (cases j) (auto simp: root_blk_def get_dinode_def Let_def get_short_def get16_def macros)

text \<open>The blocks while the root directory is made.\<close>

definition stage :: "(nat \<Rightarrow> bytes) \<Rightarrow> (nat \<Rightarrow> bytes) \<Rightarrow> dinode \<Rightarrow> bytes \<Rightarrow> bool" where
  "stage V W di D \<longleftrightarrow> W 1 = put_sb mkfs_sb (\<lambda>_. 0) \<and> root_blk (W 2) di \<and> W nmeta = D
     \<and> (\<forall>i. i < SIZE \<longrightarrow> i \<notin> {1, 2, nmeta} \<longrightarrow> W i = zero_blk) \<and> (\<forall>i. SIZE \<le> i \<longrightarrow> W i = V i)"

definition root_di :: "nat \<Rightarrow> nat \<Rightarrow> dinode" where
  "root_di sz b = \<lparr>d_type = 1, d_major = 0, d_minor = 0, d_nlink = 1, d_size = sz, d_ctime = 0, d_atime = 0, d_mtime = 0,
     d_addrs = (\<lambda>_. 0)(0 := b)\<rparr>"

lemma root_di_ok: "sz \<le> 4096 \<Longrightarrow> b \<le> nmeta \<Longrightarrow> dinode_ok (root_di sz b)"
  by (auto simp: root_di_def dinode_ok_def short_ok_def macros)

lemma is_blk_zeros [simp]: "is_blk (\<lambda>_. 0)"
  by (simp add: is_blk_def)

lemma stage_blk: "stage V W di D \<Longrightarrow> is_blk D \<Longrightarrow> (\<And>i. is_blk (V i)) \<Longrightarrow> is_blk (W i)"
  by (cases "i < SIZE"; cases "i \<in> {1, 2, nmeta}") (auto simp: stage_def root_blk_def put_sb_def macros)

lemma stage_put:
  assumes "stage V W di D" "dinode_ok di'" "\<And>i. NDIRECT + 2 \<le> i \<Longrightarrow> d_addrs di' i = 0"
  shows "stage V (W(nmeta := D', 2 := put_dinode 1 di' (NDIRECT + 2) (W 2))) di' D'"
proof -
  have "root_blk (put_dinode 1 di' (NDIRECT + 2) (W 2)) di'"
    by (rule root_blk_put) (use assms in \<open>auto simp: stage_def root_blk_def\<close>)
  moreover have "nmeta \<noteq> 1" "nmeta \<noteq> 2" "2 < SIZE" "nmeta < SIZE" by (simp_all add: macros)
  ultimately show ?thesis using assms(1) by (auto simp: stage_def)
qed

definition made :: "('d \<Rightarrow> contents \<Rightarrow> contents \<Rightarrow> nat \<Rightarrow> bool) \<Rightarrow> (nat \<Rightarrow> bytes) \<Rightarrow> 'd xv6 \<Rightarrow> nat \<Rightarrow> nat \<Rightarrow> nat \<Rightarrow> bytes \<Rightarrow> 'd xv6 \<Rightarrow> bool" where
  "made up V s n sz b D t \<longleftrightarrow> (\<exists>W. mkst up t W \<and> stage V W (root_di sz b) D) \<and> same_mk s t \<and> mk_freeblock t = n"

context snapshot_disk
begin

lemma wp_zero_disk:
  assumes s: "mkst up s V"
    and Q: "\<And>t. mkst up t (\<lambda>i. if i < SIZE then zero_blk else V i) \<Longrightarrow> same_mk s t \<Longrightarrow> mk_freeinode t = mk_freeinode s \<Longrightarrow>
      mk_freeblock t = mk_freeblock s \<Longrightarrow> Q () t"
    and C: "\<And>t st. down (dsk t) st \<Longrightarrow> C t"
  shows "wpm (for_all [0..<SIZE] (\<lambda>i. wsect ops i zero_blk)) Q C s"
proof (rule wpm_for_all [where I = "\<lambda>xs t. \<exists>k \<le> SIZE. xs = [k..<SIZE] \<and> mkst up t (\<lambda>i. if i < k then zero_blk else V i)
    \<and> same_mk s t \<and> mk_freeinode t = mk_freeinode s \<and> mk_freeblock t = mk_freeblock s"])
  show "\<exists>k \<le> SIZE. [0..<SIZE] = [k..<SIZE] \<and> mkst up s (\<lambda>i. if i < k then zero_blk else V i) \<and> same_mk s s \<and> mk_freeinode s = mk_freeinode s \<and> mk_freeblock s = mk_freeblock s"
    using s by (intro exI [of _ 0]) simp
next
  fix y ys t
  assume "\<exists>k \<le> SIZE. y # ys = [k..<SIZE] \<and> mkst up t (\<lambda>i. if i < k then zero_blk else V i)
    \<and> same_mk s t \<and> mk_freeinode t = mk_freeinode s \<and> mk_freeblock t = mk_freeblock s"
  then obtain k where k: "y # ys = [k..<SIZE]" and t: "mkst up t (\<lambda>i. if i < k then zero_blk else V i)"
      "same_mk s t" "mk_freeinode t = mk_freeinode s" "mk_freeblock t = mk_freeblock s" by auto
  have y: "y = k" "ys = [Suc k..<SIZE]" "k < SIZE" using k [symmetric, unfolded upt_eq_Cons_conv] by auto
  have eq: "(\<lambda>i. if i < k then zero_blk else V i)(k := zero_blk) = (\<lambda>i. if i < Suc k then zero_blk else V i)" by auto
  show "wpm (wsect ops y zero_blk) (\<lambda>_ u. \<exists>k \<le> SIZE. ys = [k..<SIZE] \<and> mkst up u (\<lambda>i. if i < k then zero_blk else V i)
    \<and> same_mk s u \<and> mk_freeinode u = mk_freeinode s \<and> mk_freeblock u = mk_freeblock s) C t"
    by (rule wp_wsect [OF t(1)]) (use t y C eq in \<open>auto intro!: exI [of _ "Suc k"] intro: same_mk_trans simp: macros\<close>)
next
  fix t
  assume "\<exists>k \<le> SIZE. [] = [k..<SIZE] \<and> mkst up t (\<lambda>i. if i < k then zero_blk else V i)
    \<and> same_mk s t \<and> mk_freeinode t = mk_freeinode s \<and> mk_freeblock t = mk_freeblock s"
  then obtain k where k: "k \<le> SIZE" "[] = [k..<SIZE]" and t: "mkst up t (\<lambda>i. if i < k then zero_blk else V i)"
      "same_mk s t" "mk_freeinode t = mk_freeinode s" "mk_freeblock t = mk_freeblock s" by auto
  have "k = SIZE" using k(1) k(2) [symmetric] by auto
  then show "Q () t" using t Q by simp
qed

lemma wp_root_append:
  assumes s: "mkst up s W" "stage V W (root_di sz b) D" "is_blk D" "\<And>i. is_blk (V i)"
    and sz: "sz + DIRENT_SIZE \<le> BSIZE" "b = 0 \<and> mk_freeblock s = nmeta \<or> b = nmeta"
    and Q: "\<And>t W'. mkst up t W' \<Longrightarrow> stage V W' (root_di (sz + DIRENT_SIZE) nmeta) (move_bytes sz xp 0 DIRENT_SIZE D) \<Longrightarrow> same_mk s t \<Longrightarrow>
      mk_freeblock t = (if b = 0 then mk_freeblock s + 1 else mk_freeblock s) \<Longrightarrow> Q () t"
    and C: "\<And>t st. down (dsk t) st \<Longrightarrow> C t"
  shows "wpm (iappend ops ROOTINO xp DIRENT_SIZE) Q C s"
proof -
  have I: "IBLOCK ROOTINO = 2" "ROOTINO mod IPB = 1" by (simp_all add: IBLOCK_def macros)
  have g: "get_dinode (W 2) 1 = root_di sz b" using s(2) by (simp add: stage_def root_blk_def)
  have r [simp]: "d_size (root_di sz b) = sz" "d_addrs (root_di sz b) 0 = b" by (simp_all add: root_di_def)
  have small: "sz < BSIZE" "sz mod BSIZE = sz" "sz div BSIZE = 0" using sz(1) by (simp_all add: macros)
  have new: "(root_di sz b)\<lparr>d_addrs := (d_addrs (root_di sz b))(0 := nmeta), d_size := sz + DIRENT_SIZE\<rparr> = root_di (sz + DIRENT_SIZE) nmeta"
    by (simp add: root_di_def)
  have ok: "dinode_ok (root_di (sz + DIRENT_SIZE) nmeta)" "\<And>i. NDIRECT + 2 \<le> i \<Longrightarrow> d_addrs (root_di (sz + DIRENT_SIZE) nmeta) i = 0"
    using sz(1) by (auto simp: root_di_ok macros) (simp add: root_di_def)
  have D: "W nmeta = D" using s(2) by (simp add: stage_def)
  show ?thesis
  proof (rule wp_iappend [OF s(1), where a = nmeta and fbn = 0])
    fix t assume t: "mkst up t (W(nmeta := move_bytes (d_size (get_dinode (W (IBLOCK ROOTINO)) (ROOTINO mod IPB)) mod BSIZE) xp 0 DIRENT_SIZE (W nmeta),
        IBLOCK ROOTINO := put_dinode (ROOTINO mod IPB) ((get_dinode (W (IBLOCK ROOTINO)) (ROOTINO mod IPB))
          \<lparr>d_addrs := (d_addrs (get_dinode (W (IBLOCK ROOTINO)) (ROOTINO mod IPB)))(0 := nmeta),
           d_size := d_size (get_dinode (W (IBLOCK ROOTINO)) (ROOTINO mod IPB)) + DIRENT_SIZE\<rparr>) (NDIRECT + 2) (W (IBLOCK ROOTINO))))"
      "same_mk s t" "mk_freeblock t = (if d_addrs (get_dinode (W (IBLOCK ROOTINO)) (ROOTINO mod IPB)) 0 = 0 then mk_freeblock s + 1 else mk_freeblock s)"
    note t' = t [unfolded I g r small(2) D new]
    show "Q () t" by (rule Q [OF t'(1) stage_put [OF s(2) ok] t'(2,3)])
  qed (use stage_blk [OF s(2-4)] sz small C in \<open>simp_all only: I g r, auto simp: macros\<close>)
qed

lemma wp_root_inode:
  assumes s: "mkst up s (V'(1 := put_sb mkfs_sb (\<lambda>_. 0)))" "mk_freeinode s = 1" and V': "V' = (\<lambda>i. if i < SIZE then zero_blk else V i)"
    and Q: "\<And>t W. mkst up t W \<Longrightarrow> stage V W (root_di 0 0) zero_blk \<Longrightarrow> same_mk s t \<Longrightarrow> mk_freeblock t = mk_freeblock s \<Longrightarrow> Q ROOTINO t"
    and C: "\<And>t st. down (dsk t) st \<Longrightarrow> C t"
  shows "wpm (mk_ialloc ops T_DIR) Q C s"
proof -
  let ?W = "V'(1 := put_sb mkfs_sb (\<lambda>_. 0))" and ?s = "s\<lparr>mk_freeinode := 2\<rparr>"
  have I: "IBLOCK 1 = 2" "1 mod IPB = 1" by (simp_all add: IBLOCK_def macros)
  have di: "dinode_zero\<lparr>d_type := 1, d_nlink := 1, d_size := 0\<rparr> = root_di 0 0" by (simp add: dinode_zero_def root_di_def fun_eq_iff)
  have W2: "?W 2 = zero_blk" by (simp add: V' macros)
  have st: "stage V (?W(2 := put_dinode 1 (root_di 0 0) (NDIRECT + 2) (?W 2))) (root_di 0 0) zero_blk"
  proof -
    have "root_blk (put_dinode 1 (root_di 0 0) (NDIRECT + 2) zero_blk) (root_di 0 0)"
      by (rule root_blk_put) (auto simp: root_di_ok, auto simp: zero_blk_def root_di_def)
    then show ?thesis unfolding W2 by (auto simp: stage_def V' macros)
  qed
  have "mkst up ?s ?W" using s by (simp add: mkst_def)
  then have "wpm (winode ops 1 (root_di 0 0)) (\<lambda>_. Q ROOTINO) C ?s"
  proof (rule wp_winode)
    fix t assume t: "mkst up t (?W(IBLOCK 1 := put_dinode (1 mod IPB) (root_di 0 0) (NDIRECT + 2) (?W (IBLOCK 1))))"
      "same_mk ?s t" "mk_freeblock t = mk_freeblock ?s"
    show "Q ROOTINO t" by (rule Q [OF t(1) [unfolded I] st]) (use t in \<open>simp_all add: same_mk_def\<close>)
  qed (use W2 C in \<open>simp_all only: I, auto simp: macros\<close>)
  then show ?thesis using s(2) di by (simp add: mk_ialloc_def wpm_simps wpm_call_eta macros numeral_2_eq_2)
qed

lemma wp_root_size:
  assumes s: "mkst up s W" "stage V W (root_di sz nmeta) D" "is_blk D" "\<And>i. is_blk (V i)" and sz: "sz < BSIZE"
    and Q: "\<And>t W'. mkst up t W' \<Longrightarrow> stage V W' (root_di BSIZE nmeta) D \<Longrightarrow> same_mk s t \<Longrightarrow> mk_freeblock t = mk_freeblock s \<Longrightarrow> Q () t"
    and C: "\<And>t st. down (dsk t) st \<Longrightarrow> C t"
  shows "wpm (call (rinode ops ROOTINO) (\<lambda>din. winode ops ROOTINO (din\<lparr>d_size := xint ((xint (d_size din) div BSIZE + 1) * BSIZE)\<rparr>))) Q C s"
proof -
  have I: "IBLOCK ROOTINO = 2" "ROOTINO mod IPB = 1" by (simp_all add: IBLOCK_def macros)
  have g: "get_dinode (W 2) 1 = root_di sz nmeta" using s(2) by (simp add: stage_def root_blk_def)
  have new: "(root_di sz nmeta)\<lparr>d_size := xint ((xint (d_size (root_di sz nmeta)) div BSIZE + 1) * BSIZE)\<rparr> = root_di BSIZE nmeta"
    using sz by (simp add: root_di_def macros)
  have ok: "dinode_ok (root_di BSIZE nmeta)" "\<And>i. NDIRECT + 2 \<le> i \<Longrightarrow> d_addrs (root_di BSIZE nmeta) i = 0"
    by (auto simp: root_di_ok macros) (simp add: root_di_def)
  have D: "W(nmeta := D) = W" using s(2) by (auto simp: stage_def)
  have w: "wpm (winode ops ROOTINO (root_di BSIZE nmeta)) Q C t"
    if t: "mkst up t W" "same_mk s t" "mk_freeinode t = mk_freeinode s" "mk_freeblock t = mk_freeblock s" for t
  proof (rule wp_winode [OF t(1)])
    fix u assume u: "mkst up u (W(IBLOCK ROOTINO := put_dinode (ROOTINO mod IPB) (root_di BSIZE nmeta) (NDIRECT + 2) (W (IBLOCK ROOTINO))))"
      "same_mk t u" "mk_freeblock u = mk_freeblock t"
    show "Q () u" by (rule Q [OF u(1) [unfolded I] stage_put [OF s(2) ok, of D, unfolded D]]) (use t u in \<open>auto intro: same_mk_trans\<close>)
  qed (use stage_blk [OF s(2-4)] C in \<open>simp_all only: I, auto simp: macros\<close>)
  have "wpm (rinode ops ROOTINO) (\<lambda>din. wpm (winode ops ROOTINO (din\<lparr>d_size := xint ((xint (d_size din) div BSIZE + 1) * BSIZE)\<rparr>)) Q C) C s"
    by (rule wp_rinode [OF s(1)]) (simp_all only: I g new w, simp add: macros)
  then show ?thesis by (simp add: wpm_simps)
qed

lemma stage_image:
  assumes s: "stage V W (root_di BSIZE nmeta) dirent_blk"
  shows "mkfs_image (W(ninodeblocks + 2 := bitmap_of (nmeta + 1)))"
proof -
  let ?W = "W(ninodeblocks + 2 := bitmap_of (nmeta + 1))"
  have I: "IBLOCK ROOTINO = 2" "ROOTINO mod IPB = 1" by (simp_all add: IBLOCK_def macros)
  have W: "?W 1 = put_sb mkfs_sb (\<lambda>_. 0)" "?W 2 = W 2" "?W nmeta = dirent_blk" "root_blk (W 2) (root_di BSIZE nmeta)"
    using s by (simp_all add: stage_def macros)
  have "get_sb (?W 1) = \<lparr>sb_size = SIZE, sb_nblocks = nblocks, sb_ninodes = NINODES, sb_nlog = nlog\<rparr>"
    unfolding W by (subst get_put_sb) (simp_all add: mkfs_sb_def macros)
  moreover have "get_dinode (?W 2) 1 = root_di BSIZE nmeta" using W(2,4) by (simp add: root_blk_def)
  moreover have "d_type (get_dinode (?W (IBLOCK inum)) (inum mod IPB)) = 0" if "inum < NINODES" "inum \<noteq> ROOTINO" for inum
  proof (cases "IBLOCK inum = 2")
    case True
    then have "inum mod IPB \<noteq> 1" using that by (auto simp: IBLOCK_def macros)
    then show ?thesis using True W root_blk_free by simp
  next
    case False
    then have "2 < IBLOCK inum" "IBLOCK inum < ninodeblocks + 2" using that by (auto simp: IBLOCK_def macros)
    then have "?W (IBLOCK inum) = zero_blk" using s by (auto simp: stage_def macros)
    then show ?thesis by (simp add: get_dinode_def Let_def get_short_def get16_def zero_blk_def)
  qed
  moreover have "bit (?W (BBLOCK b NINODES) (b mod BPB div 8)) (b mod 8) = (b \<le> nmeta)" if "b < BPB" for b
    using that bitmap_bits [of "nmeta + 1" b] by (auto simp: BBLOCK_def macros)
  moreover have "?W i = zero_blk" if "nmeta < i" "i < SIZE" for i
    using that s by (auto simp: stage_def macros)
  ultimately show ?thesis
    using dirent_blk_entries W(3) unfolding mkfs_image_def I Let_def by (simp add: macros root_di_def)
qed

lemma wp_mk_balloc:
  assumes s: "mkst up s W" and k: "k < BSIZE * 8"
    and Q: "\<And>t. mkst up t (W(ninodeblocks + 2 := bitmap_of k)) \<Longrightarrow> same_mk s t \<Longrightarrow> Q () t"
    and C: "\<And>t st. down (dsk t) st \<Longrightarrow> C t"
  shows "wpm (mk_balloc ops k) Q C s"
proof -
  have "wpm (wsect ops (ninodeblocks + 2) (bitmap_of k)) Q C s"
    by (rule wp_wsect [OF s]) (use k C Q bitmap_blk [of k] in \<open>auto simp: macros\<close>)
  then show ?thesis using k by (simp add: mk_balloc_def wpm_simps wpm_call_eta bitmap_of_def)
qed

lemma wp_made_append:
  assumes m: "made up V s n sz b D t" and D: "is_blk D" and V: "\<And>i. is_blk (V i)" and sz: "sz + DIRENT_SIZE \<le> BSIZE" "b = 0 \<and> n = nmeta \<or> b = nmeta"
    and C: "\<And>t st. down (dsk t) st \<Longrightarrow> C t"
  shows "wpm (iappend ops ROOTINO xp DIRENT_SIZE)
    (\<lambda>_. made up V s (if b = 0 then n + 1 else n) (sz + DIRENT_SIZE) nmeta (move_bytes sz xp 0 DIRENT_SIZE D)) C t"
proof -
  obtain W where W: "mkst up t W" "stage V W (root_di sz b) D" "same_mk s t" "mk_freeblock t = n" using m by (auto simp: made_def)
  show ?thesis by (rule wp_root_append [OF W(1,2) D V sz(1) _ _ C]) (use W sz in \<open>auto intro: same_mk_trans simp: made_def\<close>)
qed

lemma wp_made_size:
  assumes m: "made up V s n sz nmeta D t" and D: "is_blk D" and V: "\<And>i. is_blk (V i)" and sz: "sz < BSIZE"
    and C: "\<And>t st. down (dsk t) st \<Longrightarrow> C t"
  shows "wpm (call (rinode ops ROOTINO) (\<lambda>din. winode ops ROOTINO (din\<lparr>d_size := xint ((xint (d_size din) div BSIZE + 1) * BSIZE)\<rparr>)))
    (\<lambda>_. made up V s n BSIZE nmeta D) C t"
proof -
  obtain W where W: "mkst up t W" "stage V W (root_di sz nmeta) D" "same_mk s t" "mk_freeblock t = n" using m by (auto simp: made_def)
  show ?thesis by (rule wp_root_size [OF W(1,2) D V sz(1) _ C]) (use W in \<open>auto intro: same_mk_trans simp: made_def\<close>)
qed

text \<open>The root directory: its inode, the two entries, the size rounded up.\<close>

lemma wp_root_dir:
  assumes t: "mkst up t ((\<lambda>i. if i < SIZE then zero_blk else V i)(1 := put_sb mkfs_sb (\<lambda>_. 0)))" "same_mk s t" "mk_freeinode t = 1" "mk_freeblock t = nmeta"
    and V: "\<And>i. is_blk (V i)" and C: "\<And>t st. down (dsk t) st \<Longrightarrow> C t"
  shows "wpm (call (mk_ialloc ops T_DIR) (\<lambda>rootino. steps [
      cassert (rootino = ROOTINO),
      iappend ops rootino (mk_dirent rootino ''.'') DIRENT_SIZE,
      iappend ops rootino (mk_dirent rootino ''..'') DIRENT_SIZE,
      call (rinode ops rootino) (\<lambda>din. winode ops rootino (din\<lparr>d_size := xint ((xint (d_size din) div BSIZE + 1) * BSIZE)\<rparr>))]))
    (\<lambda>_. made up V s (nmeta + 1) BSIZE nmeta dirent_blk) C t"
proof -
  let ?d1 = "move_bytes 0 (mk_dirent ROOTINO ''.'') 0 DIRENT_SIZE zero_blk"
  have D: "is_blk zero_blk" "is_blk ?d1" "is_blk dirent_blk" and D2: "move_bytes DIRENT_SIZE (mk_dirent ROOTINO ''..'') 0 DIRENT_SIZE ?d1 = dirent_blk"
    by (simp_all add: dirent_blk_def macros)
  have n: "0 + DIRENT_SIZE \<le> BSIZE" "DIRENT_SIZE + DIRENT_SIZE \<le> BSIZE" "DIRENT_SIZE + DIRENT_SIZE < BSIZE" "nmeta \<noteq> 0" by (simp_all add: macros)
  have 1: "wpm (mk_ialloc ops T_DIR) (\<lambda>r u. r = ROOTINO \<and> made up V s nmeta 0 0 zero_blk u) C t"
    by (rule wp_root_inode [OF t(1,3) refl _ C]) (use t in \<open>auto intro: same_mk_trans simp: made_def\<close>)
  note 2 = wp_made_append [OF _ D(1) V n(1) _ C, where s = s and n = nmeta and b = 0 and xp = "mk_dirent ROOTINO ''.''", simplified if_True simp_thms add_0]
  note 3 = wp_made_append [OF _ D(2) V n(2) _ C, where s = s and n = "nmeta + 1" and b = nmeta and xp = "mk_dirent ROOTINO ''..''", unfolded D2, simplified n simp_thms if_False]
  note 4 = wp_made_size [OF _ D(3) V n(3) C, where s = s and n = "nmeta + 1"]
  let ?size = "call (rinode ops ROOTINO) (\<lambda>din. winode ops ROOTINO (din\<lparr>d_size := xint ((xint (d_size din) div BSIZE + 1) * BSIZE)\<rparr>))"
  let ?Q = "\<lambda>_. made up V s (nmeta + 1) BSIZE nmeta dirent_blk"
  have 5: "wpm (iappend ops ROOTINO (mk_dirent ROOTINO ''..'') DIRENT_SIZE) (\<lambda>_. wpm ?size ?Q C) C u" if "made up V s (nmeta + 1) DIRENT_SIZE nmeta ?d1 u" for u
    by (rule wpm_mono [OF 3 [OF that]]) (use 4 in auto)
  have 6: "wpm (iappend ops ROOTINO (mk_dirent ROOTINO ''.'') DIRENT_SIZE)
      (\<lambda>_. wpm (iappend ops ROOTINO (mk_dirent ROOTINO ''..'') DIRENT_SIZE) (\<lambda>_. wpm ?size ?Q C) C) C u" if "made up V s nmeta 0 0 zero_blk u" for u
    by (rule wpm_mono [OF 2 [OF that]]) (use 5 in auto)
  show ?thesis
    unfolding wpm_call_eta by (rule wpm_mono [OF 1]) (use 6 in \<open>auto simp: wpm_simps wpm_call_eta\<close>)
qed

lemma wp_mkfs:
  assumes s: "mkst up s V" and i: "mk_freeinode s = 1" and V: "\<And>sec. is_blk (V sec)"
    and Q: "\<And>t W. mkst up t W \<Longrightarrow> same_mk s t \<Longrightarrow> mkfs_image W \<Longrightarrow> (\<And>i. SIZE \<le> i \<Longrightarrow> W i = V i) \<Longrightarrow> Q () t"
    and C: "\<And>t st. down (dsk t) st \<Longrightarrow> C t"
  shows "wpm (mkfs ops) Q C s"
proof -
  let ?s = "s\<lparr>mk_freeblock := nmeta\<rparr>" and ?Z = "\<lambda>i. if i < SIZE then zero_blk else V i"
  have s': "mkst up ?s V" using s by (simp add: mkst_def)
  have bal: "wpm (mk_balloc ops (nmeta + 1)) (\<lambda>_. wpm (rsect ops 65) (\<lambda>_. Q ()) C) C t" if t: "made up V s (nmeta + 1) BSIZE nmeta dirent_blk t" for t
  proof -
    obtain W where W: "mkst up t W" "stage V W (root_di BSIZE nmeta) dirent_blk" "same_mk s t" using t by (auto simp: made_def)
    let ?W = "W(ninodeblocks + 2 := bitmap_of (nmeta + 1))"
    have "wpm (rsect ops 65) (\<lambda>_. Q ()) C u" if "mkst up u ?W" "same_mk t u" for u
      by (rule wp_rsect [OF that(1)])
         (use that W stage_image [OF W(2)] in \<open>auto intro!: Q [where W = ?W] intro: same_mk_trans simp: macros stage_def\<close>)
    then show ?thesis by (intro wp_mk_balloc [OF W(1)]) (use C in \<open>auto simp: macros\<close>)
  qed
  let ?root = "call (mk_ialloc ops T_DIR) (\<lambda>rootino. steps [
      cassert (rootino = ROOTINO),
      iappend ops rootino (mk_dirent rootino ''.'') DIRENT_SIZE,
      iappend ops rootino (mk_dirent rootino ''..'') DIRENT_SIZE,
      call (rinode ops rootino) (\<lambda>din. winode ops rootino (din\<lparr>d_size := xint ((xint (d_size din) div BSIZE + 1) * BSIZE)\<rparr>))])"
  let ?rest = "\<lambda>_. wpm (call (gets mk_freeblock) (mk_balloc ops)) (\<lambda>_. wpm (rsect ops 65) (\<lambda>_. Q ()) C) C"
  let ?at = "\<lambda>W t. mkst up t W \<and> same_mk s t \<and> mk_freeinode t = 1 \<and> mk_freeblock t = nmeta"
  have rt: "wpm ?root ?rest C t" if t: "?at (?Z(1 := put_sb mkfs_sb (\<lambda>_. 0))) t" for t
    by (rule wpm_mono [OF wp_root_dir [of t V s C]]) (use t V C bal in \<open>auto simp: wpm_simps made_def\<close>)
  have rd: "wpm (rsect ops 1) (\<lambda>_. wpm ?root ?rest C) C t" if t: "?at (?Z(1 := put_sb mkfs_sb (\<lambda>_. 0))) t" for t
    by (rule wp_rsect [OF conjunct1 [OF t]], simp add: macros, rule rt) (use t in \<open>auto intro: same_mk_trans\<close>)
  have sb: "wpm (wsect ops 1 (put_sb mkfs_sb (\<lambda>_. 0))) (\<lambda>_. wpm (rsect ops 1) (\<lambda>_. wpm ?root ?rest C) C) C t" if t: "?at ?Z t" for t
    by (rule wp_wsect [OF conjunct1 [OF t]], simp add: macros, simp add: put_sb_def macros, rule rd) (use t C in \<open>auto intro: same_mk_trans\<close>)
  have "wpm (for_all [0..<SIZE] (\<lambda>i. wsect ops i zero_blk))
      (\<lambda>_. wpm (wsect ops 1 (put_sb mkfs_sb (\<lambda>_. 0))) (\<lambda>_. wpm (rsect ops 1) (\<lambda>_. wpm ?root ?rest C) C) C) C ?s"
    by (rule wp_zero_disk [OF s' _ C], rule sb) (use i in \<open>auto simp: same_mk_def\<close>)
  moreover have "BSIZE mod DINODE_SIZE = 0" "BSIZE mod DIRENT_SIZE = 0" by (simp_all add: macros)
  ultimately show ?thesis by (simp add: mkfs_def wpm_simps wpm_call_eta)
qed

end

end
