(* ===== verification/FsStart.thy ===== *)
theory FsStart
  imports FsCalls MkfsOk
begin

text \<open>
  The start of the program: from the zeroed variables and a disk that has lost power to a file system at rest, with
  the image of \<open>mkfs\<close> on the disk and an empty log of \<^verbatim>\<open>xv6/sclog.c\<close>.
\<close>

section \<open>The variables at the start\<close>

definition xv6_boot :: "(nat \<Rightarrow> nat) \<Rightarrow> 'd \<Rightarrow> 'd xv6" where
  "xv6_boot tm d = \<lparr>
     bufs = (\<lambda>_. \<lparr>b_busy = False, b_valid = False, b_dirty = False, b_dev = 0, b_sector = 0, b_prev = 0, b_next = 0, b_data = zero_blk\<rparr>),
     log_start = 0, log_size = 0, outstanding = 0, committing = False, log_dev = 0, lh_n = 0, lh_sector = (\<lambda>_. 0), acc_commit = 0,
     icache = (\<lambda>_. \<lparr>i_dev = 0, i_inum = 0, i_ref = 0, i_busy = False, i_valid = False, i_type = 0, i_major = 0, i_minor = 0, i_nlink = 0,
       i_size = 0, i_ctime = 0, i_atime = 0, i_mtime = 0, i_addrs = (\<lambda>_. 0)\<rparr>),
     ftable = (\<lambda>_. \<lparr>f_type = FD_NONE, f_ref = 0, f_readable = False, f_writable = False, f_ip = 0, f_off = 0\<rparr>),
     cwd = None, fsstats = stats_zero, statsbuf = '''', mk_freeinode = 1, mk_freeblock = 0, mk_wwcnt = 0, times = tm, ntime = 0, dsk = d\<rparr>"

text \<open>A cache in which no buffer has a sector.\<close>

definition fresh :: "contents \<Rightarrow> contents \<Rightarrow> nat \<Rightarrow> acache" where
  "fresh vol st n = \<lparr>a_view = blk vol, a_dirty = {}, a_held = Map.empty, a_vol = vol, a_st = st, a_n = n\<rparr>"

lemma fresh_bufs:
  assumes "dll B xs" "\<And>b. b < NBUF \<Longrightarrow> same_buf (B b) ((bufs (xv6_boot tm d) b)\<lparr>b_dev := 0xffffffff\<rparr>)"
  shows "bufs_ok B (fresh vol st n)"
proof -
  have b: "b_dev (B b) = 0xffffffff" "\<not> b_busy (B b)" "\<not> b_dirty (B b)" if "b < NBUF" for b
    using assms(2) [OF that] by (auto simp: same_buf_def xv6_boot_def)
  then have "\<not> caches B b sec" for b sec by (auto simp: caches_def ROOTDEV_def)
  then show ?thesis using assms(1) b by (auto simp: bufs_ok_def fresh_def)
qed

text \<open>A new file system: the image of \<open>mkfs\<close>, an empty log, and no buffer, inode or file in use.\<close>

definition fresh_fs :: "('d \<Rightarrow> contents \<Rightarrow> contents \<Rightarrow> nat \<Rightarrow> bool) \<Rightarrow> 'd xv6 \<Rightarrow> acache \<Rightarrow> bool" where
  "fresh_fs up s A \<longleftrightarrow> cache_inv up s A \<and> log_ok s A \<and> mkfs_image (a_view A) \<and> a_held A = Map.empty \<and> a_dirty A = {} \<and> a_n A + LOGSIZE \<le> MAX_WCNT
     \<and> \<not> committing s \<and> (\<forall>i < NINODE. i_ref (icache s i) = 0) \<and> (\<forall>f. f_type (ftable s f) \<noteq> FD_INODE) \<and> cwd s = None"

lemma fresh_fs_idle: "fresh_fs up s A \<Longrightarrow> idle up s A"
  by (auto simp: fresh_fs_def idle_def fs_inv_def)

lemma mkfs_image_cong:
  assumes "mkfs_image V" "\<And>i. i < SIZE \<Longrightarrow> W i = V i"
  shows "mkfs_image W"
proof -
  have i: "IBLOCK inum < SIZE" if "inum < NINODES" for inum using that by (auto simp: IBLOCK_def macros)
  have b: "BBLOCK b NINODES < SIZE" if "b < BPB" for b using that by (auto simp: BBLOCK_def macros)
  have "ROOTINO < NINODES" "1 < SIZE" "nmeta < SIZE" by (simp_all add: macros)
  then show ?thesis using assms i b unfolding mkfs_image_def by (auto simp: Let_def)
qed

context snapshot_disk
begin

lemma wp_sc_initlog:
  assumes s: "cache_inv up s (fresh vol st n)" and img: "mkfs_image (blk vol)"
    and Q: "\<And>t B f d. t = s\<lparr>dsk := d, fsstats := f, bufs := B, log_start := SIZE - nlog, log_size := nlog, log_dev := ROOTDEV, lh_n := 0\<rparr> \<Longrightarrow>
      cache_inv up t (fresh vol st n) \<Longrightarrow> Q () t"
  shows "wpm (sc_initlog ops) Q C s"
proof -
  let ?A = "fresh vol st n"
  have img': "get_sb (a_view ?A 1) = \<lparr>sb_size = SIZE, sb_nblocks = nblocks, sb_ninodes = NINODES, sb_nlog = nlog\<rparr>" (is "_ = ?sb")
    using img by (simp add: mkfs_image_def fresh_def)
  let ?last = "\<lambda>sb t. Q () (t\<lparr>log_start := sub32 (sb_size sb) (sb_nlog sb), log_size := sb_nlog sb, log_dev := ROOTDEV, lh_n := 0\<rparr>)"
  have fin: "?last ?sb t" if t: "cache_inv up t ?A" "same_fs s t" for t
  proof -
    obtain B f d where "t = s\<lparr>dsk := d, fsstats := f, bufs := B\<rparr>" using t(2) by (auto simp: same_fs_def)
    moreover have "cache_inv up (t\<lparr>log_start := SIZE - nlog, log_size := nlog, log_dev := ROOTDEV, lh_n := 0\<rparr>) ?A"
      using t(1) by (simp add: cache_inv_def)
    moreover have "sub32 SIZE nlog = SIZE - nlog" by (simp add: sub32_def u32_def macros)
    ultimately show ?thesis using Q by (simp add: wpm_simps cong: wpm_cong)
  qed
  have rel: "wpm (buf_get b b_data) (\<lambda>d. wpm (brelse b) (\<lambda>_. ?last (get_sb d)) C) C t"
    if t: "cache_inv up t (?A\<lparr>a_held := (a_held ?A)(b := Some 1)\<rparr>)" "same_fs s t" for b t
  proof -
    have d: "b_data (bufs t b) = a_view ?A 1" using held_buf(5) [OF t(1)] by simp
    have "wpm (brelse b) (\<lambda>_. ?last ?sb) C t"
      by (rule wp_brelse [OF t(1)]) (use t fin in \<open>auto simp: fresh_def intro: same_fs_trans\<close>)
    then show ?thesis by (simp add: wpm_simps d img' [unfolded One_nat_def])
  qed
  have "wpm (bread ops ROOTDEV 1) (\<lambda>b. wpm (buf_get b b_data) (\<lambda>d. wpm (brelse b) (\<lambda>_. ?last (get_sb d)) C) C) C s"
    by (rule wp_bread [OF s]) (use rel in \<open>auto simp: fresh_def room_def macros\<close>)
  moreover have "\<not> 4 * (1 + LOGSIZE) \<ge> BSIZE" by (simp add: macros)
  ultimately show ?thesis
    by (simp add: sc_initlog_def log_setup_def readsb_def wpm_simps wpm_call_eta cong: wpm_cong)
qed

text \<open>From any disk that can be recovered.\<close>

lemma wp_xv6_start:
  assumes d: "down d st"
  shows "wpm (xv6_start ops (sc_initlog ops))
    (\<lambda>_ t. (\<exists>A. fresh_fs up t A) \<and> outstanding t = 0) (\<lambda>t. \<exists>st. down (dsk t) st) (xv6_boot tm d)"
    (is "wpm _ ?Q ?C ?s")
proof -
  have fin: "wpm (sc_initlog ops) ?Q ?C t" if t: "mkst up t W" "same_mk (?s\<lparr>bufs := B\<rparr>) t" "mkfs_image W" and B: "\<And>vol st n. bufs_ok B (fresh vol st n)" for t W B
  proof -
    obtain vol st where vol: "mk_wwcnt t \<le> 1000" "up (dsk t) vol st (mk_wwcnt t)" "same_blks vol W" using t(1) by (auto simp: mkst_def)
    have im: "mkfs_image (blk vol)" using vol(3) t(3) by (intro mkfs_image_cong [OF t(3)]) (auto simp: same_blks_def macros)
    have ci: "cache_inv up t (fresh vol st (mk_wwcnt t))"
      using B [of vol st "mk_wwcnt t"] t(2) vol(2) by (auto simp: cache_inv_def same_mk_def view_ok_def blk_def fresh_def)
    show ?thesis
    proof (rule wp_sc_initlog [OF ci im])
      fix u B f d assume u: "u = t\<lparr>dsk := d, fsstats := f, bufs := B, log_start := SIZE - nlog, log_size := nlog, log_dev := ROOTDEV, lh_n := 0\<rparr>"
        "cache_inv up u (fresh vol st (mk_wwcnt t))"
      then show "?Q () u" using t(2) vol(1) im
        by (intro conjI exI [of _ "fresh vol st (mk_wwcnt t)"])
           (auto simp: fresh_fs_def log_ok_def log_list_def fresh_def same_mk_def xv6_boot_def iused_def fgood_def macros)
    qed
  qed
  have mk: "wpm (mkfs ops) (\<lambda>_. wpm (sc_initlog ops) ?Q ?C) ?C (?s\<lparr>bufs := B, dsk := e\<rparr>)"
    if B: "\<And>vol st n. bufs_ok B (fresh vol st n)" and e: "up e st st 0" for B e
  proof (rule wp_mkfs [where V = "blk st"])
    show "mkst up (?s\<lparr>bufs := B, dsk := e\<rparr>) (blk st)" using e by (auto simp: mkst_def same_blks_def xv6_boot_def)
  qed (use fin [OF _ _ _ B] in \<open>auto simp: xv6_boot_def blk_def same_mk_def\<close>)
  have start: "wpm (ideinit ops) (\<lambda>_. wpm (mkfs ops) (\<lambda>_. wpm (sc_initlog ops) ?Q ?C) ?C) ?C (?s\<lparr>bufs := B\<rparr>)"
    if "dll B xs" "\<And>b. b < NBUF \<Longrightarrow> same_buf (B b) ((bufs ?s b)\<lparr>b_dev := 0xffffffff\<rparr>)" for B xs
  proof -
    have B: "bufs_ok B (fresh vol st n)" for vol st n by (rule fresh_bufs [OF that])
    have "wp (op_recover ops) (\<lambda>e. wpm (mkfs ops) (\<lambda>_. wpm (sc_initlog ops) ?Q ?C) ?C (?s\<lparr>bufs := B, dsk := e\<rparr>)) (\<lambda>e. \<exists>st. down e st) d"
      by (rule wp_mono [OF recover_law [OF d]]) (use mk [OF B] in auto)
    then show ?thesis by (simp add: ideinit_def wpm_on_disk xv6_boot_def)
  qed
  have "wpm binit (\<lambda>_. wpm (ideinit ops) (\<lambda>_. wpm (mkfs ops) (\<lambda>_. wpm (sc_initlog ops) ?Q ?C) ?C) ?C) ?C ?s"
    by (rule wpm_binit) (rule start)
  then show ?thesis by (simp add: xv6_start_def fileinit_def wpm_simps wpm_call_eta)
qed

end

end
