(* ===== verification/FsProps.thy ===== *)
theory FsProps
  imports FsStart Samples
begin

text \<open>
  The file system on the flash translation layer: the laws of \<open>snapshot_disk\<close>, which
  \<open>scftl\<close> proves of \<^verbatim>\<open>src/disk.c\<close>, carry the results about the file system to
  \<open>scftl_disk\<close>, the disk it runs on.
\<close>

interpretation xv6fs: fs_log scftl_disk disk_up crash_inv "sclog scftl_disk"
  by unfold_locales (simp_all add: sclog_def lg_sc_log_write)

lemmas on_scftl =
  snapshot_disk.wp_xv6_start [OF scftl.snapshot_disk_axioms]
  snapshot_disk.transaction [OF scftl.snapshot_disk_axioms]
  snapshot_disk.wp_sc_commit [OF scftl.snapshot_disk_axioms]
  snapshot_disk.sv_requests [OF scftl.snapshot_disk_axioms]

section \<open>A file system at rest\<close>

text \<open>The state after \<open>binit\<close> on the formatted device, with the device number that \<open>initlog\<close> sets.\<close>

definition cache0 :: "ftl xv6" where
  "cache0 = (case binit (xv6_boot (\<lambda>_. 0) disk0) of Ret _ s \<Rightarrow> s\<lparr>log_dev := ROOTDEV\<rparr>)"

definition A0 :: acache where
  "A0 = fresh blank blank 0"

lemma cache0: "idle disk_up cache0 A0" "outstanding cache0 = 0" "lh_n cache0 = 0" "\<exists>xs. dll (bufs cache0) xs"
proof -
  let ?s = "xv6_boot (\<lambda>_. 0) disk0"
  let ?Q = "\<lambda>t. idle disk_up (t\<lparr>log_dev := ROOTDEV\<rparr>) A0 \<and> outstanding t = 0 \<and> lh_n t = 0 \<and> (\<exists>xs. dll (bufs t) xs)"
  have "wpm binit (\<lambda>_. ?Q) (\<lambda>_. False) ?s"
  proof (rule wpm_binit)
    fix B xs assume B: "dll B xs" "\<And>b. b < NBUF \<Longrightarrow> same_buf (B b) ((bufs ?s b)\<lparr>b_dev := 0xffffffff\<rparr>)"
    have "disk_up disk0 blank blank 0" using disk0 by (simp add: disk_up_def)
    then have "cache_inv disk_up (?s\<lparr>bufs := B, log_dev := ROOTDEV\<rparr>) A0"
      using fresh_bufs [OF B] by (auto simp: cache_inv_def A0_def view_ok_def blk_def fresh_def xv6_boot_def)
    then show "?Q (?s\<lparr>bufs := B\<rparr>)"
      using B(1) by (auto simp: idle_def fs_inv_def log_ok_def log_list_def A0_def fresh_def xv6_boot_def iused_def fgood_def macros)
  qed
  then obtain t where "binit ?s = Ret () t" "?Q t" by (auto simp: wpm_def split: res.splits)
  then show "idle disk_up cache0 A0" "outstanding cache0 = 0" "lh_n cache0 = 0" "\<exists>xs. dll (bufs cache0) xs"
    by (auto simp: cache0_def)
qed

section \<open>The start\<close>

text \<open>C18: From every state of the flash that can be recovered, the start of the program returns with a file system at
  rest whose blocks are the image of \<open>mkfs\<close>: super block, root directory with its two entries, free inodes and
  the bitmap. A power loss on the way leaves a disk that can be recovered.\<close>

theorem start_makes_file_system:
  assumes "crash_inv d st"
  shows "wpm (xv6_start scftl_disk (sc_initlog scftl_disk))
    (\<lambda>_ t. (\<exists>A. fresh_fs disk_up t A) \<and> outstanding t = 0)
    (\<lambda>t. \<exists>st. crash_inv (dsk t) st) (xv6_boot tm d)"
  by (rule on_scftl(1) [OF assms])

theorem start_makes_file_system_witness:
  "crash_inv formatted0 blank \<and> wpm (xv6_start scftl_disk (sc_initlog scftl_disk))
    (\<lambda>_ t. (\<exists>A. fresh_fs disk_up t A) \<and> outstanding t = 0)
    (\<lambda>t. \<exists>st. crash_inv (dsk t) st) (xv6_boot (\<lambda>_. 0) formatted0)"
  using start_makes_file_system [OF formatted0(2)] formatted0(2) by simp

section \<open>Transactions\<close>

text \<open>
  A call with the transaction \<open>body\<close>, started in \<open>s\<close>: when it returns, the disk and its snapshot
  hold what the file system saw at the end of the body; when power is lost, the snapshot is the old one, or holds all
  that the whole body has changed.
\<close>

definition all_or_nothing :: "ftl xv6 \<Rightarrow> acache \<Rightarrow> (ftl xv6, 'a) prog \<Rightarrow> (ftl xv6, 'a) res \<Rightarrow> bool" where
  "all_or_nothing s A body r \<longleftrightarrow> (case r of
     Ret x t \<Rightarrow> \<exists>s1 A1 A2. after [begin_op] body s = Ret x s1 \<and> fs_inv disk_up s1 A1 \<and> idle disk_up t A2 \<and> committed A1 A2
       \<and> outstanding t = 0 \<and> lh_n t = 0
   | Cut t \<Rightarrow> \<exists>st. crash_inv (dsk t) st \<and> (st = a_st A
       \<or> (\<exists>x s1 A1. after [begin_op] body s = Ret x s1 \<and> fs_inv disk_up s1 A1 \<and> same_blks st (a_view A1)))
   | Err e \<Rightarrow> True)"

lemma call_call: "call (call m f) g = call m (\<lambda>x. call (f x) g)"
  by (auto simp: call_def fun_eq_iff split: res.splits)

lemma transaction_cases:
  assumes "idle disk_up s A" "outstanding s = 0" "FsLogic.logged disk_up {} {} Map.empty m yes none none (\<lambda>_. Map.empty)"
  shows "all_or_nothing s A m (after [begin_op] (call m (\<lambda>r. after [sc_end_op scftl_disk] (ret r))) s)"
  using on_scftl(2) [OF assms] unfolding all_or_nothing_def wlp_def by (auto split: res.splits)

text \<open>C20: Removing a file is one transaction: after a power loss at any moment the disk holds the state before
  the call or the state after it.\<close>

theorem unlink_atomic:
  assumes "idle disk_up s A" "outstanding s = 0"
  shows "all_or_nothing s A (sys_dounlink (sclog scftl_disk) path) (sys_unlink (sclog scftl_disk) path s)"
  using transaction_cases [OF assms xv6fs.lg_sys_dounlink] by (simp add: sys_unlink_def)

theorem unlink_atomic_witness:
  "idle disk_up cache0 A0 \<and> outstanding cache0 = 0 \<and>
   all_or_nothing cache0 A0 (sys_dounlink (sclog scftl_disk) ''/a'') (sys_unlink (sclog scftl_disk) ''/a'' cache0)"
  using unlink_atomic [OF cache0(1,2)] cache0 by simp

text \<open>The body of \<open>sys_mkdir\<close> and \<open>sys_mksock\<close>.\<close>

definition make_node :: "'d env \<Rightarrow> string \<Rightarrow> int \<Rightarrow> ('d xv6, int) prog" where
  "make_node E path type = call (create E path type 0 0) (\<lambda>r. case r of
     None \<Rightarrow> ret (-1)
   | Some ip \<Rightarrow> after [iunlockput E ip] (ret 0))"

lemma make_node_call:
  "call (make_node E path type) (\<lambda>r. after [c] (ret r)) = call (create E path type 0 0) (\<lambda>r. case r of
     None \<Rightarrow> after [c] (ret (-1)) | Some ip \<Rightarrow> after [iunlockput E ip, c] (ret 0))"
  unfolding make_node_def call_call by (rule arg_cong [of _ _ "call _"]) (auto simp: fun_eq_iff call_call call_def ret_def split: option.splits res.splits)

lemma lg_make_node: "FsLogic.logged disk_up {} {} Map.empty (make_node (sclog scftl_disk) path type) yes none none (\<lambda>_. Map.empty)"
  unfolding make_node_def by (rule lg_ret_n xv6fs.lg_create xv6fs.lg_iunlockput lg_rules | simp; fail | force)+

text \<open>C21: Making a directory or a socket is one transaction.\<close>

theorem mkdir_atomic:
  assumes "idle disk_up s A" "outstanding s = 0"
  shows "all_or_nothing s A (make_node (sclog scftl_disk) path T_DIR) (sys_mkdir (sclog scftl_disk) path s)
    \<and> all_or_nothing s A (make_node (sclog scftl_disk) path T_SOCK) (sys_mksock (sclog scftl_disk) path s)"
  using transaction_cases [OF assms lg_make_node [where path = path and type = T_DIR], unfolded make_node_call]
    transaction_cases [OF assms lg_make_node [where path = path and type = T_SOCK], unfolded make_node_call]
  unfolding sys_mkdir_def sys_mksock_def sclog_ops by simp

theorem mkdir_atomic_witness:
  "idle disk_up cache0 A0 \<and> outstanding cache0 = 0 \<and>
   all_or_nothing cache0 A0 (make_node (sclog scftl_disk) ''/d'' T_DIR) (sys_mkdir (sclog scftl_disk) ''/d'' cache0)"
  using mkdir_atomic [OF cache0(1,2)] cache0 by blast

text \<open>C19: A commit writes all the logged blocks and then takes one snapshot: when it returns, the disk and its snapshot
  are what the file system sees and the log is empty; a power loss leaves the old snapshot or the new one.\<close>

theorem commit_atomic:
  assumes "idle disk_up s A"
  shows "wpm (sc_commit scftl_disk) (\<lambda>_ t. \<exists>A'. cache_inv disk_up t A' \<and> committed A A' \<and> lh_n t = 0)
    (\<lambda>t. \<exists>st. crash_inv (dsk t) st \<and> (st = a_st A \<or> same_blks st (a_view A))) s"
proof -
  have "cache_inv disk_up s A" "log_ok s A" "a_held A = Map.empty" "a_n A + LOGSIZE \<le> MAX_WCNT"
    using assms by (auto simp: idle_def fs_inv_def)
  then show ?thesis
  proof (rule on_scftl(3))
    fix t v vol assume "cache_inv disk_up t (A\<lparr>a_view := v, a_dirty := {}, a_vol := vol, a_st := vol, a_n := 0\<rparr>)" "LogInv.same_view v (a_view A)"
      "same_blks vol (a_view A)" "same_fs (s\<lparr>lh_n := 0\<rparr>) t"
    then show "\<exists>A'. cache_inv disk_up t A' \<and> committed A A' \<and> lh_n t = 0"
      using same_fsD(6) [of "s\<lparr>lh_n := 0\<rparr>" t] unfolding committed_def by fastforce
  qed auto
qed

theorem commit_atomic_witness:
  "idle disk_up cache0 A0 \<and> wpm (sc_commit scftl_disk) (\<lambda>_ t. \<exists>A'. cache_inv disk_up t A' \<and> committed A0 A' \<and> lh_n t = 0)
    (\<lambda>t. \<exists>st. crash_inv (dsk t) st \<and> (st = a_st A0 \<or> same_blks st (a_view A0))) cache0"
  using commit_atomic [OF cache0(1)] cache0(1) by blast




end
