(* ===== verification/FsBlocks.thy ===== *)
theory FsBlocks
  imports FsCalls MkfsOk
begin

text \<open>
  What the functions of \<^verbatim>\<open>xv6/fs.c\<close> compute inside a transaction, on the blocks as the file
  system sees them: each returns, changes the blocks and the inode cache as stated, and leaves the disk alone.
  The log is that of \<^verbatim>\<open>xv6/sclog.c\<close>.
\<close>

unbundle bit_operations_syntax

section \<open>Inside a transaction\<close>

definition in_txn :: "('d \<Rightarrow> contents \<Rightarrow> contents \<Rightarrow> nat \<Rightarrow> bool) \<Rightarrow> 'd xv6 \<Rightarrow> acache \<Rightarrow> bool" where
  "in_txn up s A \<longleftrightarrow> cache_inv up s A \<and> log_ok s A \<and> 1 \<le> outstanding s \<and> finite (dom (a_held A))"

text \<open>The number of buffers held.\<close>

definition nheld :: "acache \<Rightarrow> nat" where
  "nheld A = card (dom (a_held A))"

text \<open>The variables that the buffer cache and the log do not change.\<close>

definition same_vars :: "'d xv6 \<Rightarrow> 'd xv6 \<Rightarrow> bool" where
  "same_vars s t \<longleftrightarrow> icache t = icache s \<and> ftable t = ftable s \<and> cwd t = cwd s \<and> outstanding t = outstanding s
     \<and> committing t = committing s \<and> times t = times s \<and> ntime t = ntime s"

lemma same_vars_refl [simp]: "same_vars s s"
  by (simp add: same_vars_def)

lemma same_vars_trans: "same_vars s t \<Longrightarrow> same_vars t u \<Longrightarrow> same_vars s u"
  by (simp add: same_vars_def)

lemma same_fs_vars: "same_fs s t \<Longrightarrow> same_vars s t"
  by (simp add: same_vars_def same_fsD)

lemma in_txn_same:
  assumes "in_txn up s A" "cache_inv up t A'" "same_fs s t" "a_dirty A' = a_dirty A" "finite (dom (a_held A'))"
  shows "in_txn up t A'"
  using assms log_ok_same [of s A t A'] same_fsD [OF assms(3)] by (simp add: in_txn_def)

lemma nheld_put: "in_txn up s A \<Longrightarrow> a_held A b = None \<Longrightarrow> nheld (A\<lparr>a_held := (a_held A)(b := Some sec)\<rparr>) = nheld A + 1"
  by (auto simp: nheld_def in_txn_def domIff)

context snapshot_disk
begin

lemma tx_bread:
  assumes s: "in_txn up s A" and sec: "sec < N_LAS" "sec \<notin> ran (a_held A)" and n: "nheld A \<le> 100"
    and f: "\<And>b t. a_held A b = None \<Longrightarrow> in_txn up t (A\<lparr>a_held := (a_held A)(b := Some sec)\<rparr>) \<Longrightarrow> same_vars s t \<Longrightarrow> wpm (f b) Q C t"
  shows "wpm (call (bread ops ROOTDEV sec) f) Q C s"
proof -
  have "cache_inv up s A" "room A" using s n log_room [of s A] by (auto simp: in_txn_def nheld_def)
  then have "wpm (bread ops ROOTDEV sec) (\<lambda>b. wpm (f b) Q C) C s"
    by (intro wp_bread [OF _ sec]) (use s in \<open>auto intro!: f intro: in_txn_same same_fs_vars simp: in_txn_def\<close>)
  then show ?thesis by (simp add: wpm_simps)
qed

end

lemma tx_get:
  assumes "in_txn up s A" "a_held A b = Some sec" "wpm (f (a_view A sec)) Q C s"
  shows "wpm (call (buf_get b b_data) f) Q C s"
  using assms held_buf(5) [of up s A b sec] by (simp add: wpm_simps in_txn_def)

lemma tx_store:
  assumes s: "in_txn up s A" and h: "a_held A b = Some sec" and g: "is_blk (g (a_view A sec))"
    and f: "\<And>t. in_txn up t (A\<lparr>a_view := (a_view A)(sec := g (a_view A sec))\<rparr>) \<Longrightarrow> same_vars s t \<Longrightarrow> wpm (f ()) Q C t"
  shows "wpm (call (buf_set b (\<lambda>bf. bf\<lparr>b_data := g (b_data bf)\<rparr>)) f) Q C s"
proof -
  have "wpm (buf_set b (\<lambda>bf. bf\<lparr>b_data := g (b_data bf)\<rparr>)) (\<lambda>x. wpm (f x) Q C) C s"
    by (rule wp_buf_store [where g = g and A = A and sec = sec and up = up])
       (use s h g in \<open>auto intro!: f intro: in_txn_same same_fs_vars simp: in_txn_def same_buf_def\<close>)
  then show ?thesis by (simp add: wpm_simps)
qed

text \<open>The sectors logged, and room for another one.\<close>

definition fits :: "acache \<Rightarrow> nat set \<Rightarrow> bool" where
  "fits A S \<longleftrightarrow> finite S \<and> card (a_dirty A \<union> S) \<le> LOGSIZE"

lemma tx_log_write:
  assumes s: "in_txn up s A" and h: "a_held A b = Some sec" and fit: "fits A {sec}"
    and f: "\<And>t. in_txn up t (A\<lparr>a_dirty := insert sec (a_dirty A)\<rparr>) \<Longrightarrow> same_vars s t \<Longrightarrow> wpm (f ()) Q C t"
  shows "wpm (call (sc_log_write b) f) Q C s"
proof -
  have inv: "cache_inv up s A" "log_ok s A" and out: "1 \<le> outstanding s" using s by (auto simp: in_txn_def)
  have "sec \<in> a_dirty A \<or> lh_n s < int LOGSIZE"
    using fit log_ok_card [OF inv(2)] inv(2) by (auto simp: fits_def log_ok_def card_insert_if split: if_splits)
  then have "wpm (log_append b) (\<lambda>x. wpm (f x) Q C) C s"
  proof (rule wp_log_append [OF inv h])
    fix t assume t: "cache_inv up t (A\<lparr>a_dirty := insert sec (a_dirty A)\<rparr>)" "log_ok t (A\<lparr>a_dirty := insert sec (a_dirty A)\<rparr>)"
      "outstanding t = outstanding s" "icache t = icache s" "ftable t = ftable s" "same_fs (s\<lparr>lh_n := lh_n t, lh_sector := lh_sector t\<rparr>) t"
    show "wpm (f ()) Q C t"
      by (rule f) (use s t same_fsD [OF t(6)] in \<open>auto simp: in_txn_def same_vars_def\<close>)
  qed
  then show ?thesis using out by (simp add: sc_log_write_def wpm_simps)
qed

lemma tx_brelse:
  assumes s: "in_txn up s A" and h: "a_held A b = Some sec"
    and clean: "sec \<in> a_dirty A \<or> a_view A sec = blk (a_vol A) sec"
    and f: "\<And>t. in_txn up t (A\<lparr>a_held := (a_held A)(b := None)\<rparr>) \<Longrightarrow> same_vars s t \<Longrightarrow> wpm (f ()) Q C t"
  shows "wpm (call (brelse b) f) Q C s"
proof -
  have "wpm (brelse b) (\<lambda>x. wpm (f x) Q C) C s"
    by (rule wp_brelse [where A = A and sec = sec and up = up])
       (use s h clean in \<open>auto intro!: f intro: in_txn_same same_fs_vars simp: in_txn_def\<close>)
  then show ?thesis by (simp add: wpm_simps)
qed

section \<open>Reading and changing a block\<close>

definition put_blk :: "acache \<Rightarrow> nat \<Rightarrow> bytes \<Rightarrow> acache" where
  "put_blk A sec d = A\<lparr>a_view := (a_view A)(sec := d), a_dirty := insert sec (a_dirty A)\<rparr>"

lemma put_blk_simps [simp]:
  "a_view (put_blk A sec d) = (a_view A)(sec := d)" "a_dirty (put_blk A sec d) = insert sec (a_dirty A)"
  "a_held (put_blk A sec d) = a_held A" "a_vol (put_blk A sec d) = a_vol A" "a_st (put_blk A sec d) = a_st A" "a_n (put_blk A sec d) = a_n A"
  "nheld (put_blk A sec d) = nheld A"
  by (simp_all add: put_blk_def nheld_def)

lemma fits_put: "fits A (insert sec S) \<Longrightarrow> fits (put_blk A sec d) S"
  by (simp add: fits_def)

lemma fits_mono: "fits A S \<Longrightarrow> T \<subseteq> S \<Longrightarrow> finite (a_dirty A) \<Longrightarrow> fits A T"
  unfolding fits_def by (meson card_mono finite_UnI finite_subset le_trans order_refl sup.mono)

lemma fresh_view:
  assumes "in_txn up s A" "sec < N_LAS" "sec \<notin> ran (a_held A)"
  shows "sec \<in> a_dirty A \<or> a_view A sec = blk (a_vol A) sec" "is_blk (a_view A sec)"
  using assms by (auto simp: in_txn_def cache_inv_def view_ok_def)

lemma held_upd_undo [simp]: "a_held A b = None \<Longrightarrow> A\<lparr>a_held := (a_held A)(b := None)\<rparr> = A"
  by (simp add: fun_upd_idem)

lemma tx_finish:
  assumes b: "a_held A b = None" and t: "in_txn up t (A\<lparr>a_held := (a_held A)(b := Some sec)\<rparr>)"
    and g: "is_blk (g (a_view A sec))" and fit: "fits A {sec}"
    and f: "\<And>u. in_txn up u (put_blk A sec (g (a_view A sec))) \<Longrightarrow> same_vars t u \<Longrightarrow> wpm m Q C u"
  shows "wpm (after [buf_set b (\<lambda>bf. bf\<lparr>b_data := g (b_data bf)\<rparr>), sc_log_write b, brelse b] m) Q C t"
proof -
  let ?B = "A\<lparr>a_held := (a_held A)(b := Some sec)\<rparr>"
  have fit': "fits (?B\<lparr>a_view := X\<rparr>) {sec}" for X using fit by (simp add: fits_def)
  have undo: "?B\<lparr>a_view := X, a_dirty := D\<rparr>\<lparr>a_held := (a_held (?B\<lparr>a_view := X, a_dirty := D\<rparr>))(b := None)\<rparr> = A\<lparr>a_view := X, a_dirty := D\<rparr>" for X D
    using b by (simp add: fun_upd_idem)
  show ?thesis
    unfolding after.simps
    by (rule tx_store [OF t], simp, simp add: g, rule tx_log_write, assumption, simp, use fit' in simp, rule tx_brelse, assumption, simp, simp, rule f)
       (use undo b in \<open>auto simp: put_blk_def fun_upd_idem intro: same_vars_trans\<close>)
qed

context snapshot_disk
begin

lemma tx_update:
  assumes s: "in_txn up s A" and sec: "sec < N_LAS" "sec \<notin> ran (a_held A)" and n: "nheld A \<le> 100"
    and g: "is_blk (g (a_view A sec))" and fit: "fits A {sec}"
    and f: "\<And>t. in_txn up t (put_blk A sec (g (a_view A sec))) \<Longrightarrow> same_vars s t \<Longrightarrow> wpm m Q C t"
  shows "wpm (call (bread ops ROOTDEV sec) (\<lambda>bp. after [buf_set bp (\<lambda>bf. bf\<lparr>b_data := g (b_data bf)\<rparr>), sc_log_write bp, brelse bp] m)) Q C s"
  by (rule tx_bread [OF s sec n], rule tx_finish [where g = g and sec = sec and A = A, OF _ _ g fit]) (auto intro!: f intro: same_vars_trans)

lemma tx_peek:
  assumes s: "in_txn up s A" and sec: "sec < N_LAS" "sec \<notin> ran (a_held A)" and n: "nheld A \<le> 100"
    and f: "\<And>t. in_txn up t A \<Longrightarrow> same_vars s t \<Longrightarrow> wpm (k (a_view A sec)) Q C t"
  shows "wpm (call (bread ops ROOTDEV sec) (\<lambda>bp. call (buf_get bp b_data) (\<lambda>d. after [brelse bp] (k d)))) Q C s"
proof (rule tx_bread [OF s sec n])
  fix b t assume b: "a_held A b = None" and t: "in_txn up t (A\<lparr>a_held := (a_held A)(b := Some sec)\<rparr>)" (is "in_txn up t ?B") "same_vars s t"
  show "wpm (call (buf_get b b_data) (\<lambda>d. after [brelse b] (k d))) Q C t"
    unfolding after.simps
    by (rule tx_get [OF t(1)], simp, rule tx_brelse [OF t(1)])
       (use b t fresh_view(1) [OF s sec] in \<open>auto simp: fun_upd_idem intro!: f intro: same_vars_trans\<close>)
qed

end

section \<open>Blocks\<close>

text \<open>A loop that stops at the first element that satisfies \<open>P\<close>.\<close>

lemma wpm_for_each_find:
  assumes "I s" "\<And>x t. I t \<Longrightarrow> x \<in> set xs \<Longrightarrow> \<not> P x \<Longrightarrow> wpm (f x) (\<lambda>r t. r = None \<and> I t) C t"
    and "\<And>x t. I t \<Longrightarrow> find P xs = Some x \<Longrightarrow> wpm (f x) (\<lambda>r u. r \<noteq> None \<and> Q r u) C t"
    and "\<And>t. I t \<Longrightarrow> find P xs = None \<Longrightarrow> Q None t"
  shows "wpm (for_each xs f) Q C s"
  using assms
proof (induction xs arbitrary: s)
  case (Cons x xs)
  show ?case
  proof (cases "P x")
    case True
    have "wpm (f x) (\<lambda>r u. r \<noteq> None \<and> Q r u) C s" using Cons.prems(1,3) True by simp
    then show ?thesis by (auto simp: wpm_simps elim!: wpm_mono)
  next
    case False
    have "wpm (for_each xs f) Q C t" if "I t" for t
      by (rule Cons.IH) (use that Cons.prems False in auto)
    moreover have "wpm (f x) (\<lambda>r t. r = None \<and> I t) C s" using Cons.prems(1,2) False by simp
    ultimately show ?thesis by (auto simp: wpm_simps elim!: wpm_mono)
  qed
qed (simp add: wpm_simps)

definition bit_free :: "bytes \<Rightarrow> nat \<Rightarrow> bool" where
  "bit_free d i \<longleftrightarrow> \<not> bit (d (i div 8)) (i mod 8)"

definition set_free :: "nat \<Rightarrow> bytes \<Rightarrow> bytes" where
  "set_free i d = d(i div 8 := unset_bit (i mod 8) (d (i div 8)))"

definition set_used :: "nat \<Rightarrow> bytes \<Rightarrow> bytes" where
  "set_used i d = d(i div 8 := d (i div 8) OR push_bit (i mod 8) 1)"

lemma byte_bit: "i div 8 = j div 8 \<Longrightarrow> i mod 8 = j mod 8 \<Longrightarrow> i = (j :: nat)"
  by (metis div_mod_decomp)

lemma bit_free_upd:
  "bit_free (set_used i d) j \<longleftrightarrow> j \<noteq> i \<and> bit_free d j" "bit_free (set_free i d) j \<longleftrightarrow> j = i \<or> bit_free d j"
  using byte_bit [of i j] by (auto simp: bit_free_def set_used_def set_free_def bit_or_iff bit_exp_iff bit_unset_bit_iff)

lemma bit_free_and: "d (i div 8) AND 2 ^ (i mod 8) = 0 \<longleftrightarrow> bit_free d i"
  by (simp add: bit_free_def and_exp_eq_0_iff_not_bit)

lemma is_blk_set_used [simp]: "is_blk d \<Longrightarrow> i < BPB \<Longrightarrow> is_blk (set_used i d)" "is_blk d \<Longrightarrow> i < BPB \<Longrightarrow> is_blk (set_free i d)"
  by (simp_all add: set_used_def set_free_def is_blk_bits macros)

text \<open>A block number in the bitmap of the file system with super block \<open>sb\<close>.\<close>

definition blk_free :: "(nat \<Rightarrow> bytes) \<Rightarrow> superblock \<Rightarrow> nat \<Rightarrow> bool" where
  "blk_free V sb b \<longleftrightarrow> bit_free (V (BBLOCK b (sb_ninodes sb))) (b mod BPB)"

context snapshot_disk
begin

lemma tx_readsb:
  assumes s: "in_txn up s A" and held: "1 \<notin> ran (a_held A)" "nheld A \<le> 100"
    and Q: "\<And>t. in_txn up t A \<Longrightarrow> same_vars s t \<Longrightarrow> Q (get_sb (a_view A 1)) t"
  shows "wpm (readsb ops ROOTDEV) Q C s"
  unfolding readsb_def by (rule tx_peek [OF s _ held]) (use Q in \<open>auto simp: wpm_simps macros\<close>)

lemma tx_bzero:
  assumes s: "in_txn up s A" and b: "b < N_LAS" "b \<notin> ran (a_held A)" "nheld A \<le> 100" "fits A {b}"
    and Q: "\<And>t. in_txn up t (put_blk A b zero_blk) \<Longrightarrow> same_vars s t \<Longrightarrow> Q () t"
  shows "wpm (xv6_bzero (sclog ops) ROOTDEV b) Q C s"
proof -
  have z: "set_bytes 0 0 BSIZE (a_view A b) = zero_blk" using fresh_view(2) [OF s b(1,2)] by (rule set_bytes_zero)
  show ?thesis
    unfolding xv6_bzero_def steps_def sclog_ops
    by (rule tx_update [where A = A and g = "set_bytes 0 0 BSIZE"]) (use s b Q z in \<open>auto simp: wpm_simps\<close>)
qed

lemma tx_balloc_scan:
  assumes s: "in_txn up s A" and h: "a_held A bp = Some sec" and sec: "sec \<in> a_dirty A \<or> a_view A sec = blk (a_vol A) sec"
    and n: "nheld A \<le> 100" and m: "m = min BPB (sz - b)"
    and none: "\<And>t. find (bit_free (a_view A sec)) [0..<m] = None \<Longrightarrow> t = s \<Longrightarrow> Q None t"
    and some: "\<And>i t. find (bit_free (a_view A sec)) [0..<m] = Some i \<Longrightarrow>
      in_txn up t (put_blk (put_blk (A\<lparr>a_held := (a_held A)(bp := None)\<rparr>) sec (set_used i (a_view A sec))) (b + i) zero_blk) \<Longrightarrow> same_vars s t \<Longrightarrow> Q (Some (b + i)) t"
    and room: "\<And>i. find (bit_free (a_view A sec)) [0..<m] = Some i \<Longrightarrow> b + i < N_LAS \<and> b + i \<notin> ran ((a_held A)(bp := None)) \<and> fits A {sec, b + i}"
  shows "wpm (balloc_scan (sclog ops) ROOTDEV bp b sz) Q C s"
  unfolding balloc_scan_def m [symmetric]
proof (rule wpm_for_each_find [where P = "bit_free (a_view A sec)" and I = "\<lambda>t. t = s"])
  have d: "b_data (bufs s bp) = a_view A sec" "is_blk (a_view A sec)" using s held_buf [OF _ h] by (auto simp: in_txn_def)
  show "wpm (call (buf_get bp b_data) (\<lambda>d. let m = push_bit (x mod 8) 1 in
      if d (x div 8) AND m = 0 then after [buf_set bp (\<lambda>bf. bf\<lparr>b_data := (b_data bf)(x div 8 := b_data bf (x div 8) OR m)\<rparr>),
        e_log_write (sclog ops) bp, brelse bp, xv6_bzero (sclog ops) ROOTDEV (b + x)] (ret (Some (b + x))) else ret None)) (\<lambda>r t. r = None \<and> t = s) C t"
    if "t = s" "\<not> bit_free (a_view A sec) x" for x t
    using that by (simp add: wpm_simps d bit_free_and Let_def)
  show "wpm (call (buf_get bp b_data) (\<lambda>d. let m = push_bit (i mod 8) 1 in
      if d (i div 8) AND m = 0 then after [buf_set bp (\<lambda>bf. bf\<lparr>b_data := (b_data bf)(i div 8 := b_data bf (i div 8) OR m)\<rparr>),
        e_log_write (sclog ops) bp, brelse bp, xv6_bzero (sclog ops) ROOTDEV (b + i)] (ret (Some (b + i))) else ret None)) (\<lambda>r u. r \<noteq> None \<and> Q r u) C t"
    if t: "t = s" "find (bit_free (a_view A sec)) [0..<m] = Some i" for i t
  proof -
    have i: "i < m" "bit_free (a_view A sec) i" using t(2) by (auto simp: find_Some_iff)
    then have iB: "i < BPB" using m by simp
    note r = room [OF t(2)]
    have fits: "fits (A\<lparr>a_view := X\<rparr>) {sec}" "fits (A\<lparr>a_view := X, a_dirty := insert sec (a_dirty A), a_held := H\<rparr>) {b + i}" for X H
    proof -
      have "finite (a_dirty A)" using s log_ok_card [of s A] by (simp add: in_txn_def)
      then have "fits A {sec}" using r fits_mono [of A "{sec, b + i}" "{sec}"] by simp
      then show "fits (A\<lparr>a_view := X\<rparr>) {sec}" by (simp add: fits_def)
      show "fits (A\<lparr>a_view := X, a_dirty := insert sec (a_dirty A), a_held := H\<rparr>) {b + i}"
        using r by (simp add: fits_def insert_commute)
    qed
    have nh: "nheld (A\<lparr>a_view := X, a_dirty := D, a_held := (a_held A)(bp := None)\<rparr>) \<le> 100" for X D
      using n s card_mono [of "dom (a_held A)" "dom (a_held A) - {bp}"] by (simp add: nheld_def in_txn_def)
    have "wpm (after [buf_set bp (\<lambda>bf. bf\<lparr>b_data := set_used i (b_data bf)\<rparr>), sc_log_write bp, brelse bp, xv6_bzero (sclog ops) ROOTDEV (b + i)]
        (ret (Some (b + i)))) (\<lambda>r u. r \<noteq> None \<and> Q r u) C s"
      unfolding after.simps
    proof (rule tx_store [OF s h])
      show "is_blk (set_used i (a_view A sec))" using d(2) iB by simp
      let ?A1 = "A\<lparr>a_view := (a_view A)(sec := set_used i (a_view A sec))\<rparr>"
      let ?A2 = "?A1\<lparr>a_dirty := insert sec (a_dirty ?A1)\<rparr>"
      let ?A3 = "?A2\<lparr>a_held := (a_held ?A2)(bp := None)\<rparr>"
      have A3: "put_blk (A\<lparr>a_view := (a_view A)(sec := set_used i (a_view A sec)), a_dirty := insert sec (a_dirty A), a_held := (a_held A)(bp := None)\<rparr>) (b + i) zero_blk = put_blk (put_blk (A\<lparr>a_held := (a_held A)(bp := None)\<rparr>) sec (set_used i (a_view A sec))) (b + i) zero_blk"
        by (cases A) (simp add: put_blk_def)
      fix t1 assume t1: "in_txn up t1 ?A1" "same_vars s t1"
      show "wpm (call (sc_log_write bp) (\<lambda>_. call (brelse bp) (\<lambda>_. call (xv6_bzero (sclog ops) ROOTDEV (b + i)) (\<lambda>_. ret (Some (b + i))))))
          (\<lambda>r u. r \<noteq> None \<and> Q r u) C t1"
      proof (rule tx_log_write [where sec = sec, OF t1(1)])
        fix t2 assume t2: "in_txn up t2 ?A2" "same_vars t1 t2"
        show "wpm (call (brelse bp) (\<lambda>_. call (xv6_bzero (sclog ops) ROOTDEV (b + i)) (\<lambda>_. ret (Some (b + i))))) (\<lambda>r u. r \<noteq> None \<and> Q r u) C t2"
        proof (rule tx_brelse [where sec = sec, OF t2(1)])
          fix t3 assume t3: "in_txn up t3 ?A3" "same_vars t2 t3"
          show "wpm (call (xv6_bzero (sclog ops) ROOTDEV (b + i)) (\<lambda>_. ret (Some (b + i)))) (\<lambda>r u. r \<noteq> None \<and> Q r u) C t3"
            unfolding wpm_call
            by (rule tx_bzero [OF t3(1)])
               (use r t(2) t1(2) t2(2) t3(2) fits nh in \<open>auto simp: wpm_simps A3 intro!: some intro: same_vars_trans\<close>)
        qed (use h in simp_all)
      qed (use h fits in simp_all)
    qed
    then show ?thesis using i(2) t(1) d(1) by (simp add: wpm_simps bit_free_and Let_def set_used_def)
  qed
qed (use none in auto)

end

text \<open>Where the bitmap and the data blocks are, and that nobody holds them.\<close>

definition bitmap_ok :: "superblock \<Rightarrow> acache \<Rightarrow> bool" where
  "bitmap_ok sb A \<longleftrightarrow> sb_size sb \<le> N_LAS \<and> 1 \<notin> ran (a_held A)
     \<and> (\<forall>b < sb_size sb. BBLOCK b (sb_ninodes sb) < N_LAS \<and> BBLOCK b (sb_ninodes sb) \<notin> ran (a_held A))"

lemma BBLOCK_row:
  assumes "i < BPB"
  shows "BBLOCK (k * BPB + i) n = BBLOCK (k * BPB) n" "(k * BPB + i) mod BPB = i"
  using assms by (simp_all add: BBLOCK_def macros)



definition row_free :: "(nat \<Rightarrow> bytes) \<Rightarrow> superblock \<Rightarrow> nat \<Rightarrow> nat option" where
  "row_free V sb b = find (bit_free (V (BBLOCK b (sb_ninodes sb)))) [0..<min BPB (sb_size sb - b)]"

definition rows :: "superblock \<Rightarrow> nat list" where
  "rows sb = map (\<lambda>k. k * BPB) [0..<(sb_size sb + (BPB - 1)) div BPB]"

lemma row_free_Some:
  assumes "row_free V sb (k * BPB) = Some i"
  shows "k * BPB + i < sb_size sb" "i < BPB" "blk_free V sb (k * BPB + i)" "\<And>j. j < i \<Longrightarrow> \<not> blk_free V sb (k * BPB + j)"
proof -
  have i: "i < min BPB (sb_size sb - k * BPB)" "bit_free (V (BBLOCK (k * BPB) (sb_ninodes sb))) i"
    and j: "\<And>j. j < i \<Longrightarrow> \<not> bit_free (V (BBLOCK (k * BPB) (sb_ninodes sb))) j"
    using assms by (auto simp: row_free_def find_Some_iff)
  show "k * BPB + i < sb_size sb" "i < BPB" using i(1) by auto
  show "blk_free V sb (k * BPB + i)" using i by (simp add: blk_free_def BBLOCK_row)
  show "\<not> blk_free V sb (k * BPB + j)" if "j < i" for j using j [OF that] that i(1) by (simp add: blk_free_def BBLOCK_row)
qed

lemma row_free_None:
  assumes "row_free V sb (k * BPB) = None" "j < BPB" "k * BPB + j < sb_size sb"
  shows "\<not> blk_free V sb (k * BPB + j)"
  using assms by (auto simp: row_free_def find_None_iff blk_free_def BBLOCK_row)

lemma rows_nth: "k < length (rows sb) \<Longrightarrow> rows sb ! k = k * BPB"
  by (simp add: rows_def)

lemma rows_cover: "x < sb_size sb \<Longrightarrow> x div BPB < length (rows sb)"
  by (simp add: rows_def macros)

lemma rows_less: "b \<in> set (rows sb) \<Longrightarrow> b < sb_size sb"
  by (auto simp: rows_def macros)

text \<open>The first free block, row by row.\<close>

lemma first_free:
  assumes "find (\<lambda>b. row_free V sb b \<noteq> None) (rows sb) = Some b" "row_free V sb b = Some i"
  shows "b + i < sb_size sb" "i < BPB" "blk_free V sb (b + i)" "\<And>x. x < b + i \<Longrightarrow> \<not> blk_free V sb x"
    "BBLOCK (b + i) (sb_ninodes sb) = BBLOCK b (sb_ninodes sb)" "(b + i) mod BPB = i"
proof -
  obtain k where k: "k < length (rows sb)" "b = k * BPB" "\<And>l. l < k \<Longrightarrow> row_free V sb (l * BPB) = None"
    using assms(1) rows_nth [of _ sb] by (fastforce simp: find_Some_iff)
  note r = row_free_Some [OF assms(2) [unfolded k(2)]]
  show "b + i < sb_size sb" "i < BPB" "blk_free V sb (b + i)" "BBLOCK (b + i) (sb_ninodes sb) = BBLOCK b (sb_ninodes sb)" "(b + i) mod BPB = i"
    using r BBLOCK_row by (simp_all add: k(2))
  fix x assume x: "x < b + i"
  have eq: "x div BPB * BPB + x mod BPB = x" "x mod BPB < BPB" by (simp_all add: macros)
  have "x div BPB \<le> k" using x r(2) k(2) by (metis add.commute div_less_iff_less_mult less_Suc_eq_le add_less_cancel_left mult_Suc order_less_trans eq(2) gr_zeroI not_less_zero)
  then consider "x div BPB < k" | "x div BPB = k" by linarith
  then show "\<not> blk_free V sb x"
  proof cases
    case 1
    have "x < sb_size sb" using x r(1) k(2) by simp
    then show ?thesis using row_free_None [OF k(3) [OF 1] eq(2)] eq(1) by simp
  next
    case 2
    then have "x mod BPB < i" using x eq(1) k(2) by auto
    then show ?thesis using r(4) [of "x mod BPB"] eq(1) 2 by simp
  qed
qed

lemma no_free:
  assumes "find (\<lambda>b. row_free V sb b \<noteq> None) (rows sb) = None" "x < sb_size sb"
  shows "\<not> blk_free V sb x"
proof -
  have "x div BPB * BPB \<in> set (rows sb)" using rows_cover [OF assms(2)] rows_nth nth_mem by metis
  then have "row_free V sb (x div BPB * BPB) = None" using assms(1) by (auto simp: find_None_iff)
  from row_free_None [OF this, of "x mod BPB"] show ?thesis using assms(2) by (simp add: macros)
qed

text \<open>What \<open>balloc\<close> does to the blocks when it gives out \<open>x\<close>.\<close>

definition taken :: "acache \<Rightarrow> superblock \<Rightarrow> nat \<Rightarrow> acache" where
  "taken A sb x = (let r = BBLOCK x (sb_ninodes sb) in put_blk (put_blk A r (set_used (x mod BPB) (a_view A r))) x zero_blk)"

context snapshot_disk
begin

text \<open>\<open>balloc\<close> gives out the first free block, marked as used and filled with zeros, when there is one.\<close>

lemma tx_balloc_row:
  fixes A :: acache and sb :: superblock and b :: nat
  defines "r \<equiv> BBLOCK b (sb_ninodes sb)"
  assumes s: "in_txn up s A" and n: "nheld A \<le> 90" and r: "r < N_LAS" "r \<notin> ran (a_held A)"
    and room: "\<And>i. i < BPB \<Longrightarrow> b + i < sb_size sb \<Longrightarrow> bit_free (a_view A r) i \<Longrightarrow> b + i < N_LAS \<and> b + i \<notin> ran (a_held A) \<and> fits A {r, b + i}"
    and none: "\<And>t. row_free (a_view A) sb b = None \<Longrightarrow> in_txn up t A \<Longrightarrow> same_vars s t \<Longrightarrow> Q None t"
    and some: "\<And>i t. row_free (a_view A) sb b = Some i \<Longrightarrow>
      in_txn up t (put_blk (put_blk A r (set_used i (a_view A r))) (b + i) zero_blk) \<Longrightarrow> same_vars s t \<Longrightarrow> Q (Some (b + i)) t"
  shows "wpm (call (bread ops ROOTDEV r) (\<lambda>bp. call (balloc_scan (sclog ops) ROOTDEV bp b (sb_size sb)) (\<lambda>r. case r of
         Some x \<Rightarrow> ret (Some x) | None \<Rightarrow> after [brelse bp] (ret None)))) Q C s"
proof (rule tx_bread [OF s r])
  fix bp t assume bp: "a_held A bp = None" and t: "in_txn up t (A\<lparr>a_held := (a_held A)(bp := Some r)\<rparr>)" (is "in_txn up t ?B") "same_vars s t"
  have hB: "a_held ?B bp = Some r" by simp
  have clean: "r \<in> a_dirty ?B \<or> a_view ?B r = blk (a_vol ?B) r" using fresh_view(1) [OF s r] by simp
  have undo: "?B\<lparr>a_held := (a_held ?B)(bp := None)\<rparr> = A" using bp by (simp add: fun_upd_idem)
  have nB: "nheld ?B \<le> 100" using nheld_put [OF s bp] n by simp
  show "wpm (call (balloc_scan (sclog ops) ROOTDEV bp b (sb_size sb)) (\<lambda>r. case r of
         Some x \<Rightarrow> ret (Some x) | None \<Rightarrow> after [brelse bp] (ret None))) Q C t"
    unfolding wpm_call
  proof (rule tx_balloc_scan [OF t(1) hB clean nB refl])
    fix u assume none': "find (bit_free (a_view ?B r)) [0..<min BPB (sb_size sb - b)] = None" "u = t"
    have "wpm (call (brelse bp) (\<lambda>_. ret None)) Q C u"
      by (rule tx_brelse [where sec = r, OF _ hB clean])
         (use none' t undo in \<open>auto simp: wpm_simps row_free_def r_def intro!: none intro: same_vars_trans\<close>)
    then show "wpm (case None of Some x \<Rightarrow> ret (Some x) | None \<Rightarrow> after [brelse bp] (ret None)) Q C u" by simp
  next
    fix i u assume i: "find (bit_free (a_view ?B r)) [0..<min BPB (sb_size sb - b)] = Some i"
      and u: "in_txn up u (put_blk (put_blk (?B\<lparr>a_held := (a_held ?B)(bp := None)\<rparr>) r (set_used i (a_view ?B r))) (b + i) zero_blk)" "same_vars t u"
    show "wpm (case Some (b + i) of Some x \<Rightarrow> ret (Some x) | None \<Rightarrow> after [brelse bp] (ret None)) Q C u"
      using some [of i u] i u same_vars_trans [OF t(2) u(2)] unfolding undo by (simp add: wpm_simps row_free_def r_def)
  next
    fix i assume "find (bit_free (a_view ?B r)) [0..<min BPB (sb_size sb - b)] = Some i"
    then have "i < BPB" "b + i < sb_size sb" "bit_free (a_view A r) i" by (auto simp: find_Some_iff)
    from room [OF this] show "b + i < N_LAS \<and> b + i \<notin> ran ((a_held ?B)(bp := None)) \<and> fits ?B {r, b + i}"
      using bp by (simp add: fits_def fun_upd_idem)
  qed
qed (use n in simp)

lemma tx_balloc:
  fixes A :: acache
  defines "sb \<equiv> get_sb (a_view A 1)"
  assumes s: "in_txn up s A" and n: "nheld A \<le> 90" and ok: "bitmap_ok sb A"
    and free: "\<exists>x < sb_size sb. blk_free (a_view A) sb x"
    and room: "\<And>x. x < sb_size sb \<Longrightarrow> blk_free (a_view A) sb x \<Longrightarrow> x \<notin> ran (a_held A) \<and> fits A {BBLOCK x (sb_ninodes sb), x}"
    and Q: "\<And>x t. x < sb_size sb \<Longrightarrow> blk_free (a_view A) sb x \<Longrightarrow> (\<And>y. y < x \<Longrightarrow> \<not> blk_free (a_view A) sb y) \<Longrightarrow>
      in_txn up t (taken A sb x) \<Longrightarrow> same_vars s t \<Longrightarrow> Q x t"
  shows "wpm (balloc (sclog ops) ROOTDEV) Q C s"
proof -
  let ?row = "\<lambda>b. call (bread ops ROOTDEV (BBLOCK b (sb_ninodes sb))) (\<lambda>bp. call (balloc_scan (sclog ops) ROOTDEV bp b (sb_size sb)) (\<lambda>r. case r of
         Some x \<Rightarrow> ret (Some x) | None \<Rightarrow> after [brelse bp] (ret None)))"
  let ?R = "\<lambda>r. case r of Some x \<Rightarrow> ret x | None \<Rightarrow> panicp ''balloc: out of blocks''"
  have ok': "BBLOCK b (sb_ninodes sb) < N_LAS" "BBLOCK b (sb_ninodes sb) \<notin> ran (a_held A)" if "b \<in> set (rows sb)" for b
    using rows_less [OF that] ok by (simp_all add: bitmap_ok_def)
  have room': "b + i < N_LAS \<and> b + i \<notin> ran (a_held A) \<and> fits A {BBLOCK b (sb_ninodes sb), b + i}"
    if row: "b \<in> set (rows sb)" and i: "i < BPB" "b + i < sb_size sb" "bit_free (a_view A (BBLOCK b (sb_ninodes sb))) i" for b i
  proof -
    obtain k where k: "b = k * BPB" using row by (auto simp: rows_def)
    have "blk_free (a_view A) sb (b + i)" using i(1,3) by (simp add: k blk_free_def BBLOCK_row)
    from room [OF i(2) this] show ?thesis using i(1,2) ok by (simp add: k BBLOCK_row bitmap_ok_def)
  qed
  have rows: "wpm (for_each (rows sb) ?row) (\<lambda>r. wpm (?R r) Q C) C t" if t: "in_txn up t A" "same_vars s t" for t
  proof (rule wpm_for_each_find [where P = "\<lambda>b. row_free (a_view A) sb b \<noteq> None" and I = "\<lambda>u. in_txn up u A \<and> same_vars s u"])
    fix b u assume u: "in_txn up u A \<and> same_vars s u" and b: "b \<in> set (rows sb)" "\<not> row_free (a_view A) sb b \<noteq> None"
    show "wpm (?row b) (\<lambda>r t. r = None \<and> in_txn up t A \<and> same_vars s t) C u"
      by (rule tx_balloc_row [OF conjunct1 [OF u] n]) (use u b ok' [OF b(1)] room' [OF b(1)] in \<open>auto intro: same_vars_trans\<close>)
  next
    fix b u assume u: "in_txn up u A \<and> same_vars s u" and b: "find (\<lambda>b. row_free (a_view A) sb b \<noteq> None) (rows sb) = Some b"
    have b': "b \<in> set (rows sb)" using b by (auto simp: find_Some_iff)
    show "wpm (?row b) (\<lambda>r u. r \<noteq> None \<and> wpm (?R r) Q C u) C u"
    proof (rule tx_balloc_row [OF conjunct1 [OF u] n])
      fix i v assume i: "row_free (a_view A) sb b = Some i"
        and v: "in_txn up v (put_blk (put_blk A (BBLOCK b (sb_ninodes sb)) (set_used i (a_view A (BBLOCK b (sb_ninodes sb))))) (b + i) zero_blk)" "same_vars u v"
      note f = first_free [OF b i]
      have "same_vars s v" using u v(2) same_vars_trans by blast
      then show "Some (b + i) \<noteq> None \<and> wpm (?R (Some (b + i))) Q C v"
        using Q [OF f(1,3,4)] v(1) by (simp add: wpm_simps taken_def f(5,6) Let_def)
    qed (use b b' ok' room' in \<open>auto simp: find_Some_iff\<close>)
  next
    fix u assume "find (\<lambda>b. row_free (a_view A) sb b \<noteq> None) (rows sb) = None"
    then show "wpm (?R None) Q C u" using no_free free by blast
  qed (use t in simp)
  show ?thesis
    unfolding balloc_def sclog_ops wpm_call
    by (rule tx_readsb [OF s], use ok in \<open>simp add: bitmap_ok_def\<close>, use n in simp)
       (unfold sb_def [symmetric] rows_def [symmetric] wpm_call_eta, rule rows)
qed

text \<open>\<open>bfree\<close> marks a used block as free, and panics when it is free already.\<close>

lemma tx_bfree:
  fixes A :: acache and b :: nat
  defines "sb \<equiv> get_sb (a_view A 1)" and "r \<equiv> BBLOCK b (sb_ninodes (get_sb (a_view A 1)))"
  assumes s: "in_txn up s A" and n: "nheld A \<le> 90" "1 \<notin> ran (a_held A)" and r: "r < N_LAS" "r \<notin> ran (a_held A)" "fits A {r}"
    and used: "\<not> blk_free (a_view A) sb b"
    and Q: "\<And>t. in_txn up t (put_blk A r (set_free (b mod BPB) (a_view A r))) \<Longrightarrow> same_vars s t \<Longrightarrow> Q () t"
  shows "wpm (bfree (sclog ops) ROOTDEV b) Q C s"
proof -
  let ?i = "b mod BPB"
  let ?K = "\<lambda>bp. call (buf_get bp b_data) (\<lambda>d. if d (?i div 8) AND 2 ^ (?i mod 8) = 0 then panicp ''freeing free block''
     else after [buf_set bp (\<lambda>bf. bf\<lparr>b_data := set_free ?i (b_data bf)\<rparr>), sc_log_write bp, brelse bp] (ret ()))"
  have i: "?i < BPB" by (simp add: macros)
  have nf: "\<not> a_view A r (?i div 8) AND 2 ^ (?i mod 8) = 0" using used by (simp add: blk_free_def r_def sb_def bit_free_and)
  have blkr: "is_blk (set_free ?i (a_view A r))" using fresh_view(2) [OF s r(1,2)] i by simp
  have K: "wpm (call (bread ops ROOTDEV r) ?K) Q C u" if u: "in_txn up u A" "same_vars s u" for u
  proof (rule tx_bread [OF u(1) r(1,2)])
    fix bp t assume bp: "a_held A bp = None" and t: "in_txn up t (A\<lparr>a_held := (a_held A)(bp := Some r)\<rparr>)" "same_vars u t"
    have "wpm (after [buf_set bp (\<lambda>bf. bf\<lparr>b_data := set_free ?i (b_data bf)\<rparr>), sc_log_write bp, brelse bp] (ret ())) Q C t"
      by (rule tx_finish [where g = "set_free ?i", OF bp t(1) blkr r(3)]) (simp add: wpm_simps, meson Q same_vars_trans u(2) t(2))
    then show "wpm (?K bp) Q C t" by (intro tx_get [OF t(1), where sec = r]) (use nf in simp_all)
  qed (use n in simp)
  have "wpm (readsb ops ROOTDEV) (\<lambda>sb. wpm (call (bread ops ROOTDEV (BBLOCK b (sb_ninodes sb))) ?K) Q C) C s"
    by (rule tx_readsb [OF s n(2)]) (use n(1) K in \<open>simp_all add: r_def\<close>)
  then show ?thesis unfolding bfree_def wpm_call Let_def steps_def sclog_ops set_free_def push_bit_of_1 .
qed

end

end
