(* ===== verification/FsInodes.thy ===== *)
theory FsInodes
  imports FsBlocks
begin

text \<open>
  Inodes: what the functions of \<^verbatim>\<open>xv6/fs.c\<close> on the inode cache return, inside a transaction.
  \<open>iget\<close>, \<open>iunlock\<close> and \<open>bmap\<close> on a direct block are equations.
\<close>

section \<open>The inode cache\<close>

lemma in_txn_icache [simp]: "in_txn up (s\<lparr>icache := I\<rparr>) A = in_txn up s A"
  by (simp add: in_txn_def cache_inv_def log_ok_def log_list_def)

lemma same_vars_icache: "same_vars s t \<Longrightarrow> same_vars (s\<lparr>icache := I\<rparr>) (t\<lparr>icache := I\<rparr>)"
  by (simp add: same_vars_def)

definition cached :: "nat \<Rightarrow> nat \<Rightarrow> inode \<Rightarrow> bool" where
  "cached dev inum i \<longleftrightarrow> i_ref i > 0 \<and> i_dev i = dev \<and> i_inum i = inum"

lemma iget_scan_eq:
  "iget_scan dev inum free js s = (case find (\<lambda>i. cached dev inum (icache s i)) js of
     Some i \<Rightarrow> Ret (Inl i) (s\<lparr>icache := (icache s)(i := (icache s i)\<lparr>i_ref := i_ref (icache s i) + 1\<rparr>)\<rparr>)
   | None \<Rightarrow> Ret (Inr (case free of Some f \<Rightarrow> Some f | None \<Rightarrow> find (\<lambda>i. i_ref (icache s i) = 0) js)) s)"
  by (induction js arbitrary: free)
     (auto simp: cached_def call_def ret_def inode_get_def inode_set_def gets_def modify_def split: option.splits)

definition new_inode :: "nat \<Rightarrow> nat \<Rightarrow> inode \<Rightarrow> inode" where
  "new_inode dev inum i = i\<lparr>i_dev := dev, i_inum := inum, i_ref := 1, i_busy := False, i_valid := False\<rparr>"

text \<open>\<open>iget\<close> finds the entry of the inode, or takes the first free one.\<close>

lemma iget_eq:
  "iget dev inum s = (case find (\<lambda>i. cached dev inum (icache s i)) [0..<NINODE] of
     Some i \<Rightarrow> Ret i (s\<lparr>icache := (icache s)(i := (icache s i)\<lparr>i_ref := i_ref (icache s i) + 1\<rparr>)\<rparr>)
   | None \<Rightarrow> (case find (\<lambda>i. i_ref (icache s i) = 0) [0..<NINODE] of
       Some i \<Rightarrow> Ret i (s\<lparr>icache := (icache s)(i := new_inode dev inum (icache s i))\<rparr>)
     | None \<Rightarrow> Err (Panic ''iget: no inodes'')))"
  by (simp add: iget_def call_def iget_scan_eq new_inode_def)
     (auto simp: ret_def inode_set_def modify_def call_def panicp_def fault_def new_inode_def split: option.splits)

text \<open>No inode has two entries.\<close>

definition icache_ok :: "(nat \<Rightarrow> inode) \<Rightarrow> bool" where
  "icache_ok I \<longleftrightarrow> (\<forall>i < NINODE. 0 \<le> i_ref (I i))
     \<and> (\<forall>i < NINODE. \<forall>j < NINODE. i_ref (I i) > 0 \<and> i_ref (I j) > 0 \<and> i_dev (I i) = i_dev (I j) \<and> i_inum (I i) = i_inum (I j) \<longrightarrow> i = j)"

lemma iget_unique:
  assumes "icache_ok (icache s)" "iget dev inum s = Ret ip t"
  shows "icache_ok (icache t) \<and> ip < NINODE \<and> cached dev inum (icache t ip)"
proof (cases "find (\<lambda>i. cached dev inum (icache s i)) [0..<NINODE]")
  case None
  then obtain i where i: "find (\<lambda>i. i_ref (icache s i) = 0) [0..<NINODE] = Some i" "ip = i" "t = s\<lparr>icache := (icache s)(i := new_inode dev inum (icache s i))\<rparr>"
    using assms(2) by (auto simp: iget_eq split: option.splits)
  have "i < NINODE" "\<And>j. j < NINODE \<Longrightarrow> \<not> cached dev inum (icache s j)" using i(1) None by (auto simp: find_Some_iff find_None_iff)
  then show ?thesis using assms(1) i(2,3) by (auto simp: icache_ok_def cached_def new_inode_def)
next
  case (Some i)
  then have "ip = i" "t = s\<lparr>icache := (icache s)(i := (icache s i)\<lparr>i_ref := i_ref (icache s i) + 1\<rparr>)\<rparr>"
    using assms(2) by (auto simp: iget_eq)
  moreover have i: "i < NINODE" "cached dev inum (icache s i)" using Some by (auto simp: find_Some_iff)
  ultimately have t: "i_ref (icache t j) > 0 \<longleftrightarrow> i_ref (icache s j) > 0" "0 \<le> i_ref (icache s j) \<Longrightarrow> 0 \<le> i_ref (icache t j)"
      "i_dev (icache t j) = i_dev (icache s j)" "i_inum (icache t j) = i_inum (icache s j)" for j by (auto simp: cached_def)
  have "icache_ok (icache t)" using assms(1) t(2) unfolding icache_ok_def t(1,3,4) by blast
  then show ?thesis using i \<open>ip = i\<close> by (simp add: cached_def t)
qed

section \<open>Locking\<close>

lemma iunlock_eq:
  "i_busy (icache s ip) \<Longrightarrow> 1 \<le> i_ref (icache s ip) \<Longrightarrow> iunlock ip s = Ret () (s\<lparr>icache := (icache s)(ip := (icache s ip)\<lparr>i_busy := False\<rparr>)\<rparr>)"
  by (simp add: iunlock_def call_def inode_get_def gets_def inode_set_def modify_def)

lemma iput_keep:
  assumes "\<not> (i_ref (icache s ip) = 1 \<and> i_valid (icache s ip) \<and> i_nlink (icache s ip) = 0)"
  shows "iput E ip s = Ret () (s\<lparr>icache := (icache s)(ip := (icache s ip)\<lparr>i_ref := i_ref (icache s ip) - 1\<rparr>)\<rparr>)"
  using assms by (auto simp: iput_def steps_def call_def inode_get_def gets_def inode_set_def modify_def provided_def ret_def)

text \<open>The entry of a locked inode: what \<open>ilock\<close> makes of it, with the inode \<open>di\<close> on the disk.\<close>

definition locked :: "dinode \<Rightarrow> inode \<Rightarrow> inode" where
  "locked di i = (if i_valid i then i\<lparr>i_busy := True\<rparr> else (load_dinode di (i\<lparr>i_busy := True\<rparr>))\<lparr>i_valid := True\<rparr>)"

definition inode_at :: "(nat \<Rightarrow> bytes) \<Rightarrow> nat \<Rightarrow> dinode" where
  "inode_at V inum = get_dinode (V (IBLOCK inum)) (inum mod IPB)"

context snapshot_disk
begin

lemma tx_ilock:
  assumes s: "in_txn up s A" and i: "icache s ip = i" "1 \<le> i_ref i" "\<not> i_busy i" "i_dev i = ROOTDEV"
    and blk: "IBLOCK (i_inum i) < N_LAS" "IBLOCK (i_inum i) \<notin> ran (a_held A)" "nheld A \<le> 90"
    and type: "\<not> i_valid i \<Longrightarrow> d_type (inode_at (a_view A) (i_inum i)) \<noteq> 0"
    and Q: "\<And>t. in_txn up t A \<Longrightarrow> same_vars (s\<lparr>icache := (icache s)(ip := locked (inode_at (a_view A) (i_inum i)) i)\<rparr>) t \<Longrightarrow> Q () t"
  shows "wpm (ilock (sclog ops) ip) Q C s"
proof -
  let ?i = "i\<lparr>i_busy := True\<rparr>" and ?di = "inode_at (a_view A) (i_inum i)" and ?sec = "IBLOCK (i_inum i)"
  let ?s = "s\<lparr>icache := (icache s)(ip := ?i)\<rparr>"
  let ?load = "\<lambda>bp. call (buf_get bp b_data) (\<lambda>d. after [
          inode_set ip (load_dinode (get_dinode d (i_inum ?i mod IPB))),
          brelse bp,
          inode_set ip (\<lambda>i. i\<lparr>i_valid := True\<rparr>),
          call (inode_get ip i_type) (\<lambda>type. if type = 0 then panicp ''ilock: no type'' else ret ())] (ret ()))"
  have "wpm (provided (\<not> i_valid ?i) (call (bread ops (i_dev ?i) (IBLOCK (i_inum ?i))) ?load)) Q C ?s"
  proof (cases "i_valid i")
    case True
    then show ?thesis using s by (simp add: wpm_simps Q locked_def)
  next
    case False
    have "wpm (call (bread ops ROOTDEV ?sec) ?load) Q C ?s"
    proof (rule tx_bread)
      fix b t assume b: "a_held A b = None" and t: "in_txn up t (A\<lparr>a_held := (a_held A)(b := Some ?sec)\<rparr>)" "same_vars ?s t"
      let ?t = "t\<lparr>icache := (icache t)(ip := load_dinode ?di (icache t ip))\<rparr>"
      have it: "icache t = (icache s)(ip := ?i)" using t(2) by (simp add: same_vars_def)
      have "wpm (call (brelse b) (\<lambda>_. after [inode_set ip (\<lambda>i. i\<lparr>i_valid := True\<rparr>),
          call (inode_get ip i_type) (\<lambda>type. if type = 0 then panicp ''ilock: no type'' else ret ())] (ret ()))) Q C ?t"
        by (rule tx_brelse [where sec = ?sec and A = "A\<lparr>a_held := (a_held A)(b := Some ?sec)\<rparr>" and up = up])
           (use s t b it False type fresh_view(1) [OF s blk(1,2)] in \<open>auto simp: wpm_simps locked_def load_dinode_def fun_upd_idem same_vars_def intro!: Q\<close>)
      then have "wpm (call (inode_set ip (load_dinode ?di)) (\<lambda>_. call (brelse b) (\<lambda>_. after [inode_set ip (\<lambda>i. i\<lparr>i_valid := True\<rparr>),
          call (inode_get ip i_type) (\<lambda>type. if type = 0 then panicp ''ilock: no type'' else ret ())] (ret ())))) Q C t"
        by (simp add: wpm_simps)
      then show "wpm (?load b) Q C t"
        by (intro tx_get [OF t(1), where sec = ?sec]) (simp_all add: inode_at_def)
    qed (use s blk in auto)
    then show ?thesis using False i(4) by (simp add: wpm_simps)
  qed
  then show ?thesis
    using i by (simp add: ilock_def wpm_simps wpm_loop_unfold steps_def)
qed

section \<open>Writing an inode\<close>

lemma tx_iupdate:
  assumes s: "in_txn up s A" and i: "icache s ip = i" "i_dev i = ROOTDEV"
    and blk: "IBLOCK (i_inum i) < N_LAS" "IBLOCK (i_inum i) \<notin> ran (a_held A)" "nheld A \<le> 90" "fits A {IBLOCK (i_inum i)}"
    and Q: "\<And>t. in_txn up t (put_blk A (IBLOCK (i_inum i)) (put_dinode (i_inum i mod IPB) (dinode_of i) (NDIRECT + 1) (a_view A (IBLOCK (i_inum i))))) \<Longrightarrow>
      same_vars s t \<Longrightarrow> Q () t"
  shows "wpm (iupdate (sclog ops) ip) Q C s"
proof -
  have "is_blk (put_dinode (i_inum i mod IPB) (dinode_of i) (NDIRECT + 1) (a_view A (IBLOCK (i_inum i))))"
    using fresh_view(2) [OF s blk(1,2)] by simp
  then have "wpm (call (bread ops ROOTDEV (IBLOCK (i_inum i))) (\<lambda>bp. after [
      buf_set bp (\<lambda>bf. bf\<lparr>b_data := put_dinode (i_inum i mod IPB) (dinode_of i) (NDIRECT + 1) (b_data bf)\<rparr>), sc_log_write bp, brelse bp] (ret ()))) Q C s"
    by (intro tx_update [OF s blk(1,2)]) (use blk Q in \<open>auto simp: wpm_simps\<close>)
  then show ?thesis using i by (simp add: iupdate_def wpm_simps steps_def)
qed

end

text \<open>An inode that was written and is loaded again has the same fields.\<close>

definition same_inode :: "inode \<Rightarrow> inode \<Rightarrow> bool" where
  "same_inode i j \<longleftrightarrow> i_type i = i_type j \<and> i_major i = i_major j \<and> i_minor i = i_minor j \<and> i_nlink i = i_nlink j \<and> i_size i = i_size j
     \<and> i_ctime i = i_ctime j \<and> i_atime i = i_atime j \<and> i_mtime i = i_mtime j \<and> (\<forall>k < NDIRECT + 1. i_addrs i k = i_addrs j k)"

lemma load_stored:
  assumes "dinode_ok (dinode_of i)"
  shows "same_inode (load_dinode (get_dinode (put_dinode k (dinode_of i) (NDIRECT + 1) d) k) j) i"
proof -
  have n: "NDIRECT + 1 \<le> NDIRECT + 2" by simp
  note g = get_put_dinode [OF assms n, where k = k and d = d]
  show ?thesis using g(1-8) g(9) [of _] by (simp add: same_inode_def load_dinode_def) (simp add: dinode_of_def)
qed

section \<open>The blocks of a file\<close>

definition fblk :: "(nat \<Rightarrow> bytes) \<Rightarrow> inode \<Rightarrow> nat \<Rightarrow> nat" where
  "fblk V i bn = (if bn < NDIRECT then i_addrs i bn
     else if i_addrs i NDIRECT = 0 then 0 else get32 (V (i_addrs i NDIRECT)) (4 * (bn - NDIRECT)))"

lemma bmap_addr_mapped:
  "k < NDIRECT + 1 \<Longrightarrow> i_addrs (icache s ip) k \<noteq> 0 \<Longrightarrow> wpm (bmap_addr E ip k) Q C s = Q (i_addrs (icache s ip) k) s"
  by (simp add: bmap_addr_def wpm_simps)

text \<open>Whether the block can be looked up: an indirect block has to be on the disk, and not held.\<close>

definition mapped :: "acache \<Rightarrow> inode \<Rightarrow> nat \<Rightarrow> bool" where
  "mapped A i bn \<longleftrightarrow> bn < NDIRECT + NINDIRECT \<and> fblk (a_view A) i bn \<noteq> 0
     \<and> (NDIRECT \<le> bn \<longrightarrow> i_addrs i NDIRECT < N_LAS \<and> i_addrs i NDIRECT \<notin> ran (a_held A))"

context snapshot_disk
begin

lemma tx_bmap:
  assumes s: "in_txn up s A" and i: "icache s ip = i" "i_dev i = ROOTDEV" and m: "mapped A i bn" and n: "nheld A \<le> 90"
    and Q: "\<And>t. in_txn up t A \<Longrightarrow> same_vars s t \<Longrightarrow> Q (fblk (a_view A) i bn) t"
  shows "wpm (bmap (sclog ops) ip bn) Q C s"
proof (cases "bn < NDIRECT")
  case True
  then show ?thesis using m i Q [OF s] by (simp add: bmap_def mapped_def fblk_def bmap_addr_mapped)
next
  case False
  let ?a = "i_addrs i NDIRECT" and ?k = "bn - NDIRECT"
  have a: "?a \<noteq> 0" "get32 (a_view A ?a) (4 * ?k) \<noteq> 0" "?k < NINDIRECT" "?a < N_LAS" "?a \<notin> ran (a_held A)"
    using m False by (auto simp: mapped_def fblk_def split: if_splits)
  have "wpm (call (bread ops ROOTDEV ?a) (\<lambda>bp. call (buf_get bp b_data) (\<lambda>d.
     if get32 d (4 * ?k) = 0
     then call (balloc (sclog ops) ROOTDEV) (\<lambda>addr. after [
       buf_set bp (\<lambda>bf. bf\<lparr>b_data := put32 (4 * ?k) addr (b_data bf)\<rparr>),
       sc_log_write bp,
       brelse bp] (ret addr))
     else after [brelse bp] (ret (get32 d (4 * ?k)))))) Q C s"
  proof (rule tx_bread [OF s a(4,5)])
    fix b t assume b: "a_held A b = None" and t: "in_txn up t (A\<lparr>a_held := (a_held A)(b := Some ?a)\<rparr>)" "same_vars s t"
    have "wpm (call (brelse b) (\<lambda>_. ret (get32 (a_view A ?a) (4 * ?k)))) Q C t"
      by (rule tx_brelse [OF t(1)])
         (use b t a False Q fresh_view(1) [OF s a(4,5)] in \<open>auto simp: wpm_simps fun_upd_idem fblk_def intro: same_vars_trans\<close>)
    then show "wpm (call (buf_get b b_data) (\<lambda>d.
     if get32 d (4 * ?k) = 0
     then call (balloc (sclog ops) ROOTDEV) (\<lambda>addr. after [
       buf_set b (\<lambda>bf. bf\<lparr>b_data := put32 (4 * ?k) addr (b_data bf)\<rparr>),
       sc_log_write b,
       brelse b] (ret addr))
     else after [brelse b] (ret (get32 d (4 * ?k))))) Q C t"
      by (intro tx_get [OF t(1), where sec = ?a]) (use a(2) in simp_all)
  qed (use n in simp)
  then have "wpm (bmap_entry (sclog ops) ip ?a ?k) Q C s"
    unfolding bmap_entry_def wpm_call wpm_inode sclog_ops i .
  then show ?thesis using False a i by (simp add: bmap_def wpm_simps Let_def bmap_addr_mapped)
qed

end

end
