(* ===== verification/FsFiles.thy ===== *)
theory FsFiles
  imports FsInodes
begin

text \<open>
  The contents of files: \<open>readi\<close> returns the bytes of the file, and \<open>writei\<close> changes exactly the
  bytes written, for files whose blocks are allocated.
\<close>

section \<open>Reading\<close>

definition fbyte :: "(nat \<Rightarrow> bytes) \<Rightarrow> inode \<Rightarrow> nat \<Rightarrow> nat" where
  "fbyte V i p = V (fblk V i (p div BSIZE)) (p mod BSIZE)"

text \<open>The blocks of the bytes from \<open>off\<close> to \<open>off + n\<close> can be read.\<close>

definition readable :: "acache \<Rightarrow> inode \<Rightarrow> nat \<Rightarrow> nat \<Rightarrow> bool" where
  "readable A i off n \<longleftrightarrow> (\<forall>p. off \<le> p \<longrightarrow> p < off + n \<longrightarrow> mapped A i (p div BSIZE)
     \<and> fblk (a_view A) i (p div BSIZE) < N_LAS \<and> fblk (a_view A) i (p div BSIZE) \<notin> ran (a_held A))"

lemma chunk:
  assumes "tot < n"
  shows "0 < min (n - tot) (BSIZE - off mod BSIZE)" "tot + min (n - tot) (BSIZE - off mod BSIZE) \<le> n"
    "j < min (n - tot) (BSIZE - off mod BSIZE) \<Longrightarrow> (off + j) div BSIZE = off div BSIZE \<and> (off + j) mod BSIZE = off mod BSIZE + j"
proof -
  have lt: "off mod BSIZE < BSIZE" by (simp add: macros)
  then show "0 < min (n - tot) (BSIZE - off mod BSIZE)" "tot + min (n - tot) (BSIZE - off mod BSIZE) \<le> n" using assms by auto
  assume "j < min (n - tot) (BSIZE - off mod BSIZE)"
  then have j: "off mod BSIZE + j < BSIZE" using lt by linarith
  have "off + j = off div BSIZE * BSIZE + (off mod BSIZE + j)" by (simp add: macros)
  then show "(off + j) div BSIZE = off div BSIZE \<and> (off + j) mod BSIZE = off mod BSIZE + j"
    using j lt by (metis add.right_neutral div_less div_mult_self3 mod_less mod_mult_self3 add.commute gr_implies_not0)
qed

lemma read_chunk:
  fixes off tot n :: nat and dst :: bytes and V :: "nat \<Rightarrow> bytes" and i :: inode
  defines "o' \<equiv> off + tot" and "D \<equiv> \<lambda>t j. if j < t then fbyte V i (off + j) else dst j"
  defines "m \<equiv> min (n - tot) (BSIZE - o' mod BSIZE)" and "b \<equiv> fblk V i (o' div BSIZE)"
  assumes "is_blk (V b)" "tot < n"
  shows "move_bytes tot (V b) (o' mod BSIZE) m (D tot) = D (tot + m)"
proof
  fix j
  note c = chunk [OF assms(6), where off = o']
  have "(o' + (j - tot)) div BSIZE = o' div BSIZE \<and> (o' + (j - tot)) mod BSIZE = o' mod BSIZE + (j - tot)" if "tot \<le> j" "j < tot + m"
    by (rule c(3)) (use that in \<open>simp add: m_def; linarith\<close>)
  then have "fbyte V i (off + j) = V b (o' mod BSIZE + (j - tot))" if "tot \<le> j" "j < tot + m"
    using that by (simp add: fbyte_def b_def o'_def)
  moreover have "V b k < 256" for k using assms(5) by (rule is_blkD)
  ultimately show "move_bytes tot (V b) (o' mod BSIZE) m (D tot) j = D (tot + m) j"
    by (auto simp: move_bytes_apply u8_def D_def)
qed

context snapshot_disk
begin

lemma tx_readi:
  fixes n' :: nat
  assumes s: "in_txn up s A" and i: "icache s ip = i" "i_dev i = ROOTDEV" "i_type i \<noteq> T_DEV" "i_size i < 4294967296"
    and off: "off \<le> i_size i" "off + n < 4294967296" and n': "n' = min n (i_size i - off)"
    and r: "readable A i off n'" and nh: "nheld A \<le> 80"
    and Q: "\<And>t. in_txn up t A \<Longrightarrow> same_vars s t \<Longrightarrow> Q (s32 n', \<lambda>j. if j < n' then fbyte (a_view A) i (off + j) else dst j) t"
  shows "wpm (readi (sclog ops) ip dst off n) Q C s"
proof -
  let ?body = "\<lambda>(tot, off, dst).
         if tot < n' then
           call (bmap (sclog ops) ip (off div BSIZE)) (\<lambda>addr. call (bread ops ROOTDEV addr) (\<lambda>bp.
           let m = min (n' - tot) (BSIZE - off mod BSIZE) in
           call (buf_get bp b_data) (\<lambda>d. after [brelse bp]
             (ret (Inl (u32 (tot + m), u32 (off + m), move_bytes tot d (off mod BSIZE) m dst))))))
         else ret (Inr dst)"
  let ?dst = "\<lambda>tot j. if j < tot then fbyte (a_view A) i (off + j) else dst j"
  let ?I = "\<lambda>(tot, o', d) t. tot \<le> n' \<and> o' = off + tot \<and> d = ?dst tot \<and> in_txn up t A \<and> same_vars s t"
  have step: "wpm (?body v) (\<lambda>x u. case x of Inl w \<Rightarrow> ?I w u \<and> n' - fst w < n' - fst v | Inr d \<Rightarrow> in_txn up u A \<and> same_vars s u \<and> d = ?dst n') C t" if I: "?I v t" for v t
  proof -
    obtain tot where v: "v = (tot, off + tot, ?dst tot)" and t: "tot \<le> n'" "in_txn up t A" "same_vars s t" using I by (cases v) auto
    let ?o = "off + tot"
    let ?m = "min (n' - tot) (BSIZE - ?o mod BSIZE)" and ?b = "fblk (a_view A) i (?o div BSIZE)"
    show ?thesis
    proof (cases "tot < n'")
      case False
      then show ?thesis using t v by (simp add: wpm_simps)
    next
      case True
      have b: "mapped A i (?o div BSIZE)" "?b < N_LAS" "?b \<notin> ran (a_held A)" using r True by (auto simp: readable_def)
      note c = chunk [OF True, where off = ?o]
      have small: "u32 (tot + ?m) = tot + ?m" "u32 (?o + ?m) = off + (tot + ?m)" using c(2) n' off i(4) by (auto simp: u32_def)
      have new: "move_bytes tot (a_view A ?b) (?o mod BSIZE) ?m (?dst tot) = ?dst (tot + ?m)"
        using fresh_view(2) [OF t(2) b(2,3)] True by (rule read_chunk)
      have it: "icache u ip = i" if "same_vars t u" for u using that t(3) i(1) by (simp add: same_vars_def)
      let ?Q = "\<lambda>x u. case x of Inl w \<Rightarrow> ?I w u \<and> n' - fst w < n' - fst v | Inr d \<Rightarrow> in_txn up u A \<and> same_vars s u \<and> d = ?dst n'"
      have "wpm (call (bread ops ROOTDEV ?b) (\<lambda>bp. call (buf_get bp b_data) (\<lambda>d. after [brelse bp]
             (ret (Inl (u32 (tot + ?m), u32 (?o + ?m), move_bytes tot d (?o mod BSIZE) ?m (?dst tot))))))) ?Q C u" if u: "in_txn up u A" "same_vars t u" for u
        by (rule tx_peek [OF u(1) b(2,3)])
           (use nh t u c(1,2) True v in \<open>auto simp: wpm_simps new small same_vars_def\<close>)
      then have "wpm (bmap (sclog ops) ip (?o div BSIZE)) (\<lambda>addr. wpm (call (bread ops ROOTDEV addr) (\<lambda>bp. call (buf_get bp b_data) (\<lambda>d. after [brelse bp]
             (ret (Inl (u32 (tot + ?m), u32 (?o + ?m), move_bytes tot d (?o mod BSIZE) ?m (?dst tot))))))) ?Q C) C t"
        by (intro tx_bmap [OF t(2) _ i(2) b(1)]) (use it nh in auto)
      then show ?thesis using True unfolding v prod.case wpm_if wpm_call Let_def by simp
    qed
  qed
  have "wpm (loop ?body (0, off, dst)) (\<lambda>d t. in_txn up t A \<and> same_vars s t \<and> d = ?dst n') C s"
    by (rule wpm_loop [where I = ?I and m = "\<lambda>v _. n' - fst v"]) (use s in simp, rule step)
  then have "wpm (loop ?body (0, off, dst)) (\<lambda>d. wpm (ret (s32 n', d)) Q C) C s"
    by (rule wpm_mono) (auto simp: wpm_simps intro: Q)
  then have "wpm (call (loop ?body (0, off, dst)) (\<lambda>d. ret (s32 n', d))) Q C s" by (simp only: wpm_call)
  moreover have c: "(if u32 (off + n) > i_size i then i_size i - off else n) = n'" "\<not> (off > i_size i \<or> u32 (off + n) < off)"
    using off n' by (auto simp: u32_def)
  moreover have "call (inode_get ip id) F s = F i s" for F :: "inode \<Rightarrow> ('s xv6, int \<times> bytes) prog"
    using i(1) by (simp add: call_def inode_get_def gets_def)
  ultimately show ?thesis
    by (simp only: wpm_def readi_def if_not_P [OF i(3)] if_not_P [OF c(2)] Let_def c(1) i(2) sclog_ops if_False)
qed

end

section \<open>Files\<close>

text \<open>A file whose blocks are allocated, each once.\<close>

definition fblocks :: "inode \<Rightarrow> nat set" where
  "fblocks i = {bn. bn * BSIZE < i_size i}"

definition file_ok :: "acache \<Rightarrow> inode \<Rightarrow> bool" where
  "file_ok A i \<longleftrightarrow> i_dev i = ROOTDEV \<and> i_type i \<noteq> T_DEV \<and> i_size i < 4294967296 \<and> inj_on (fblk (a_view A) i) (fblocks i)
     \<and> (\<forall>bn \<in> fblocks i. mapped A i bn \<and> fblk (a_view A) i bn < N_LAS \<and> fblk (a_view A) i bn \<notin> ran (a_held A)
          \<and> fblk (a_view A) i bn \<noteq> i_addrs i NDIRECT)"

lemma fblocks_pos: "p < i_size i \<Longrightarrow> p div BSIZE \<in> fblocks i"
  unfolding fblocks_def using le_less_trans [OF div_times_less_eq_dividend] by blast

lemma file_ok_readable: "file_ok A i \<Longrightarrow> off + n \<le> i_size i \<Longrightarrow> readable A i off n"
  using fblocks_pos [of _ i] by (auto simp: file_ok_def readable_def)

section \<open>Writing\<close>

text \<open>The blocks \<open>W\<close> after the first \<open>tot\<close> bytes of \<open>src\<close> have been written at \<open>off\<close>.\<close>

definition written :: "(nat \<Rightarrow> bytes) \<Rightarrow> inode \<Rightarrow> bytes \<Rightarrow> nat \<Rightarrow> nat \<Rightarrow> (nat \<Rightarrow> bytes) \<Rightarrow> bool" where
  "written V i src off tot W \<longleftrightarrow>
     (\<forall>sec. sec \<notin> fblk V i ` (\<lambda>p. p div BSIZE) ` {off..<off + tot} \<longrightarrow> W sec = V sec)
   \<and> (\<forall>bn \<in> fblocks i. \<forall>o' < BSIZE. W (fblk V i bn) o' =
        (if off \<le> bn * BSIZE + o' \<and> bn * BSIZE + o' < off + tot then u8 (src (bn * BSIZE + o' - off)) else V (fblk V i bn) o'))"

lemma written_0: "written V i src off 0 V"
  by (auto simp: written_def)

lemma written_step:
  assumes w: "written V i src off tot W" and inj: "inj_on (fblk V i) (fblocks i)" and n: "tot < n" "off + n \<le> i_size i"
  defines "o1 \<equiv> off + tot"
  defines "m \<equiv> min (n - tot) (BSIZE - o1 mod BSIZE)" and "b \<equiv> fblk V i (o1 div BSIZE)"
  shows "written V i src off (tot + m) (W(b := move_bytes (o1 mod BSIZE) src tot m (W b)))" (is "written V i src off (tot + m) ?W")
proof -
  let ?k = "o1 div BSIZE"
  have k: "?k \<in> fblocks i" using n by (intro fblocks_pos) (simp add: o1_def)
  note c = chunk [OF n(1), where off = o1, folded m_def]
  have o1: "?k * BSIZE + o1 mod BSIZE = o1" by (rule div_mult_mod_eq)
  have "b \<in> fblk V i ` (\<lambda>p. p div BSIZE) ` {off..<off + (tot + m)}"
    unfolding b_def using c(1) by (intro imageI) (simp add: o1_def)
  moreover have "fblk V i ` (\<lambda>p. p div BSIZE) ` {off..<off + tot} \<subseteq> fblk V i ` (\<lambda>p. p div BSIZE) ` {off..<off + (tot + m)}"
    by (intro image_mono) auto
  ultimately have "\<forall>sec. sec \<notin> fblk V i ` (\<lambda>p. p div BSIZE) ` {off..<off + (tot + m)} \<longrightarrow> ?W sec = V sec"
    using w unfolding written_def by (metis fun_upd_other subsetD)
  moreover have "?W (fblk V i bn) o' = (if off \<le> bn * BSIZE + o' \<and> bn * BSIZE + o' < off + (tot + m) then u8 (src (bn * BSIZE + o' - off)) else V (fblk V i bn) o')"
    if bn: "bn \<in> fblocks i" "o' < BSIZE" for bn o'
  proof -
    have W: "W (fblk V i bn) o' = (if off \<le> bn * BSIZE + o' \<and> bn * BSIZE + o' < off + tot then u8 (src (bn * BSIZE + o' - off)) else V (fblk V i bn) o')"
      using w bn unfolding written_def by blast
    show ?thesis
    proof (cases "bn = ?k")
      case True
      have q: "(o1 mod BSIZE \<le> o' \<and> o' < o1 mod BSIZE + m) = (off + tot \<le> ?k * BSIZE + o' \<and> ?k * BSIZE + o' < off + (tot + m))"
        "o1 mod BSIZE \<le> o' \<Longrightarrow> tot + (o' - o1 mod BSIZE) = ?k * BSIZE + o' - off" using o1 unfolding o1_def by linarith+
      show ?thesis
        using W q by (cases "o1 mod BSIZE \<le> o' \<and> o' < o1 mod BSIZE + m") (auto simp: True b_def [symmetric] move_bytes_apply)
    next
      case False
      then have "fblk V i bn \<noteq> b" using inj k bn(1) unfolding b_def by (auto dest: inj_onD)
      moreover have "bn * BSIZE + o' < off + tot" if "off \<le> bn * BSIZE + o'" "bn * BSIZE + o' < off + (tot + m)"
      proof (rule ccontr)
        assume "\<not> bn * BSIZE + o' < off + tot"
        then have "bn * BSIZE + o' - o1 < m" "o1 + (bn * BSIZE + o' - o1) = bn * BSIZE + o'" using that by (auto simp: o1_def)
        then have "(bn * BSIZE + o') div BSIZE = ?k" using c(3) by metis
        then show False using False bn(2) by simp
      qed
      ultimately show ?thesis using W by auto
    qed
  qed
  ultimately show ?thesis unfolding written_def by blast
qed

text \<open>What is read after the write.\<close>

lemma fblk_written:
  assumes ok: "file_ok A i" and w: "written (a_view A) i src off n W" and n: "off + n \<le> i_size i" and bn: "bn \<in> fblocks i"
  shows "fblk W i bn = fblk (a_view A) i bn"
proof -
  have "i_addrs i NDIRECT \<notin> fblk (a_view A) i ` (\<lambda>p. p div BSIZE) ` {off..<off + n}"
    using ok n fblocks_pos [of _ i] unfolding file_ok_def by fastforce
  then have "W (i_addrs i NDIRECT) = a_view A (i_addrs i NDIRECT)" using w unfolding written_def by blast
  then show ?thesis by (simp add: fblk_def)
qed

lemma fbyte_written:
  assumes ok: "file_ok A i" and w: "written (a_view A) i src off n W" and n: "off + n \<le> i_size i" and p: "p < i_size i"
  shows "fbyte W i p = (if off \<le> p \<and> p < off + n then u8 (src (p - off)) else fbyte (a_view A) i p)"
proof -
  have bn: "p div BSIZE \<in> fblocks i" using p by (rule fblocks_pos)
  have o': "p mod BSIZE < BSIZE" by (simp add: macros)
  have "W (fblk (a_view A) i (p div BSIZE)) (p mod BSIZE) =
      (if off \<le> p div BSIZE * BSIZE + p mod BSIZE \<and> p div BSIZE * BSIZE + p mod BSIZE < off + n
       then u8 (src (p div BSIZE * BSIZE + p mod BSIZE - off)) else a_view A (fblk (a_view A) i (p div BSIZE)) (p mod BSIZE))"
    using w bn o' unfolding written_def by blast
  then show ?thesis by (simp add: fbyte_def fblk_written [OF ok w n bn])
qed

lemma dirty_grow: "D \<subseteq> X \<union> S1 \<Longrightarrow> b \<in> S2 \<Longrightarrow> S1 \<subseteq> S2 \<Longrightarrow> S2 \<subseteq> S3 \<Longrightarrow> D \<union> {b} \<subseteq> X \<union> S3"
  by blast

context snapshot_disk
begin

text \<open>A transaction in which the blocks \<open>S\<close> of a file have been changed.\<close>

lemma tx_writei_step:
  assumes t: "in_txn up t A'" and A': "A' = A\<lparr>a_view := W, a_dirty := D\<rparr>" and ok: "file_ok A i" and i: "icache t ip = i"
    and w: "written (a_view A) i src off tot W" and n: "tot < n" "off + n \<le> i_size i"
    and D: "D \<subseteq> a_dirty A \<union> fblk (a_view A) i ` (\<lambda>p. p div BSIZE) ` {off..<off + tot}"
    and fit: "fits A (fblk (a_view A) i ` (\<lambda>p. p div BSIZE) ` {off..<off + n})" and fin: "finite (a_dirty A)" and nh: "nheld A \<le> 80"
  defines "o1 \<equiv> off + tot" and "m \<equiv> min (n - tot) (BSIZE - (off + tot) mod BSIZE)"
  assumes Q: "\<And>u W' D'. in_txn up u (A\<lparr>a_view := W', a_dirty := D'\<rparr>) \<Longrightarrow> written (a_view A) i src off (tot + m) W' \<Longrightarrow>
      D' \<subseteq> a_dirty A \<union> fblk (a_view A) i ` (\<lambda>p. p div BSIZE) ` {off..<off + (tot + m)} \<Longrightarrow> same_vars t u \<Longrightarrow> wpm k Q C u"
  shows "wpm (call (bmap (sclog ops) ip (o1 div BSIZE)) (\<lambda>addr. call (bread ops ROOTDEV addr) (\<lambda>bp. after [
             buf_set bp (\<lambda>bf. bf\<lparr>b_data := move_bytes (o1 mod BSIZE) src tot m (b_data bf)\<rparr>),
             sc_log_write bp,
             brelse bp] k))) Q C t"
proof -
  let ?b = "fblk (a_view A) i (o1 div BSIZE)" and ?S = "\<lambda>n. fblk (a_view A) i ` (\<lambda>p. p div BSIZE) ` {off..<off + n}"
  have bn: "o1 div BSIZE \<in> fblocks i" using n by (intro fblocks_pos) (simp add: o1_def)
  have n': "off + tot \<le> i_size i" using n by simp
  note c = chunk [OF n(1), where off = o1, folded o1_def m_def [unfolded o1_def [symmetric]]]
  have fb: "fblk W i (o1 div BSIZE) = ?b" by (rule fblk_written [OF ok w n' bn])
  have b: "mapped A' i (o1 div BSIZE)" "?b < N_LAS" "?b \<notin> ran (a_held A')" "i_dev i = ROOTDEV"
    using ok bn fb by (auto simp: A' file_ok_def mapped_def)
  have bS: "?b \<in> ?S (tot + m)" "?S tot \<subseteq> ?S (tot + m)" "?S (tot + m) \<subseteq> ?S n"
  proof -
    show "?b \<in> ?S (tot + m)" using c(1) by (intro imageI) (simp add: o1_def)
    show "?S tot \<subseteq> ?S (tot + m)" by (intro image_mono) auto
    show "?S (tot + m) \<subseteq> ?S n" using c(2) by (intro image_mono) auto
  qed
  have "a_dirty A' \<union> {?b} \<subseteq> a_dirty A \<union> ?S n" using dirty_grow [OF D bS] by (simp add: A')
  then have "card (a_dirty A' \<union> {?b}) \<le> card (a_dirty A \<union> ?S n)" using fin by (intro card_mono) simp_all
  then have fit': "fits A' {?b}" using fit by (simp add: fits_def)
  have "o1 mod BSIZE + m \<le> BSIZE" by (simp add: m_def o1_def macros)
  then have blkm: "is_blk (move_bytes (o1 mod BSIZE) src tot m (a_view A' ?b))" using fresh_view(2) [OF t b(2,3)] by simp
  have "wpm (call (bread ops ROOTDEV ?b) (\<lambda>bp. after [buf_set bp (\<lambda>bf. bf\<lparr>b_data := move_bytes (o1 mod BSIZE) src tot m (b_data bf)\<rparr>),
       sc_log_write bp, brelse bp] k)) Q C u" if u: "in_txn up u A'" "same_vars t u" for u
  proof (rule tx_update [where g = "move_bytes (o1 mod BSIZE) src tot m", OF u(1) b(2,3) _ blkm fit'])
    fix v assume v: "in_txn up v (put_blk A' ?b (move_bytes (o1 mod BSIZE) src tot m (a_view A' ?b)))" "same_vars u v"
    have "put_blk A' ?b (move_bytes (o1 mod BSIZE) src tot m (a_view A' ?b)) =
      A\<lparr>a_view := W(?b := move_bytes (o1 mod BSIZE) src tot m (W ?b)), a_dirty := insert ?b D\<rparr>" by (simp add: A' put_blk_def)
    moreover have "written (a_view A) i src off (tot + m) (W(?b := move_bytes (o1 mod BSIZE) src tot m (W ?b)))"
      using written_step [OF w _ n] ok by (simp add: file_ok_def o1_def m_def)
    ultimately show "wpm k Q C v" using v D bS same_vars_trans [OF u(2) v(2)] by (intro Q) auto
  qed (use nh in \<open>simp add: A' nheld_def\<close>)
  then have "wpm (bmap (sclog ops) ip (o1 div BSIZE)) (\<lambda>addr. wpm (call (bread ops ROOTDEV addr) (\<lambda>bp. after [
       buf_set bp (\<lambda>bf. bf\<lparr>b_data := move_bytes (o1 mod BSIZE) src tot m (b_data bf)\<rparr>), sc_log_write bp, brelse bp] k)) Q C) C t"
    by (intro tx_bmap [OF t i b(4,1)]) (use nh fb in \<open>simp_all add: A' nheld_def\<close>)
  then show ?thesis by (simp only: wpm_call)
qed

lemma tx_writei:
  assumes s: "in_txn up s A" and i: "icache s ip = i" and ok: "file_ok A i" and n: "off + n \<le> i_size i"
    and fit: "fits A (fblk (a_view A) i ` (\<lambda>p. p div BSIZE) ` {off..<off + n})" and nh: "nheld A \<le> 80"
    and Q: "\<And>t W D. in_txn up t (A\<lparr>a_view := W, a_dirty := D\<rparr>) \<Longrightarrow> written (a_view A) i src off n W \<Longrightarrow> same_vars s t \<Longrightarrow> Q (s32 n) t"
  shows "wpm (writei (sclog ops) ip src off n) Q C s"
proof -
  let ?S = "\<lambda>n. fblk (a_view A) i ` (\<lambda>p. p div BSIZE) ` {off..<off + n}"
  let ?body = "\<lambda>(tot, off). if tot < n then
           call (bmap (sclog ops) ip (off div BSIZE)) (\<lambda>addr. call (bread ops ROOTDEV addr) (\<lambda>bp.
           let m = min (n - tot) (BSIZE - off mod BSIZE) in after [
             buf_set bp (\<lambda>bf. bf\<lparr>b_data := move_bytes (off mod BSIZE) src tot m (b_data bf)\<rparr>),
             sc_log_write bp,
             brelse bp]
             (ret (Inl (u32 (tot + m), u32 (off + m))))))
         else ret (Inr off)"
  let ?A = "\<lambda>tot t. \<exists>W D. in_txn up t (A\<lparr>a_view := W, a_dirty := D\<rparr>) \<and> written (a_view A) i src off tot W \<and> D \<subseteq> a_dirty A \<union> ?S tot \<and> same_vars s t"
  let ?I = "\<lambda>(tot, o') t. tot \<le> n \<and> o' = off + tot \<and> ?A tot t"
  have fin: "finite (a_dirty A)" using s log_ok_card [of s A] by (simp add: in_txn_def)
  have sz: "i_size i < 4294967296" "i_dev i = ROOTDEV" "i_type i \<noteq> T_DEV" using ok by (simp_all add: file_ok_def)
  have step: "wpm (?body v) (\<lambda>x u. case x of Inl w \<Rightarrow> ?I w u \<and> n - fst w < n - fst v | Inr o' \<Rightarrow> o' = off + n \<and> ?A n u) C t" (is "wpm _ ?R C t")
    if I: "?I v t" for v t
  proof -
    obtain tot W D where v: "v = (tot, off + tot)" and t: "tot \<le> n" "in_txn up t (A\<lparr>a_view := W, a_dirty := D\<rparr>)" "written (a_view A) i src off tot W"
        "D \<subseteq> a_dirty A \<union> ?S tot" "same_vars s t" using I by (cases v) auto
    let ?m = "min (n - tot) (BSIZE - (off + tot) mod BSIZE)"
    have it: "icache t ip = i" using t(5) i by (simp add: same_vars_def)
    show ?thesis
    proof (cases "tot < n")
      case False
      then show ?thesis using t v by (auto simp: wpm_simps)
    next
      case True
      note c = chunk [OF True, where off = "off + tot"]
      have small: "u32 (tot + ?m) = tot + ?m" "u32 (off + tot + ?m) = off + (tot + ?m)" using c(2) n sz(1) by (auto simp: u32_def)
      have "wpm (ret (Inl (u32 (tot + ?m), u32 (off + tot + ?m)))) ?R C u"
        if "in_txn up u (A\<lparr>a_view := W', a_dirty := D'\<rparr>)" "written (a_view A) i src off (tot + ?m) W'" "D' \<subseteq> a_dirty A \<union> ?S (tot + ?m)" "same_vars t u" for u W' D'
      proof -
        have "?A (tot + ?m) u" using that(1-3) same_vars_trans [OF t(5) that(4)] by blast
        moreover have "n - (tot + ?m) < n - tot" using c(1) True by linarith
        ultimately show ?thesis using c(2) unfolding small v wpm_ret sum.case prod.case fst_conv by blast
      qed
      from tx_writei_step [OF t(2) refl ok it t(3) True n t(4) fit fin nh this]
      show ?thesis using True by (simp add: v Let_def)
    qed
  qed
  have start: "?I (0, off) s" using s written_0 by (auto intro!: exI [of _ "a_view A"] exI [of _ "a_dirty A"])
  have "wpm (loop ?body (0, off)) (\<lambda>o' t. o' = off + n \<and> ?A n t) C s"
    by (rule wpm_loop [where I = ?I and m = "\<lambda>v _. n - fst v"]) (rule start, rule step)
  then have "wpm (loop ?body (0, off)) (\<lambda>off. wpm (call (inode_get ip i_size) (\<lambda>size. after [
         provided (n > 0 \<and> off > size) (steps [
           inode_set ip (\<lambda>i. i\<lparr>i_size := off\<rparr>),
           call unix_time (\<lambda>t. inode_set ip (\<lambda>i. i\<lparr>i_mtime := t\<rparr>)),
           iupdate (sclog ops) ip])]
         (ret (s32 n)))) Q C) C s"
  proof (rule wpm_mono)
    fix o' t assume t: "o' = off + n \<and> ?A n t"
    then have "Q (s32 n) t" using Q by blast
    moreover have "icache t ip = i" using t i by (auto simp: same_vars_def)
    ultimately show "wpm (call (inode_get ip i_size) (\<lambda>size. after [
         provided (n > 0 \<and> o' > size) (steps [
           inode_set ip (\<lambda>i. i\<lparr>i_size := o'\<rparr>),
           call unix_time (\<lambda>t. inode_set ip (\<lambda>i. i\<lparr>i_mtime := t\<rparr>)),
           iupdate (sclog ops) ip])] (ret (s32 n)))) Q C t" using t n by (simp add: wpm_simps)
  qed
  moreover have c: "\<not> (off > i_size i \<or> u32 (off + n) < off)" "\<not> u32 (off + n) > MAXFILE * BSIZE"
    using n sz(1) by (auto simp: u32_def macros)
  moreover have "call (inode_get ip id) F s = F i s" for F :: "inode \<Rightarrow> ('s xv6, int) prog"
    using i by (simp add: call_def inode_get_def gets_def)
  ultimately show ?thesis
    unfolding wpm_call [symmetric]
    by (simp only: wpm_def writei_def if_not_P [OF sz(3)] if_not_P [OF c(1)] if_not_P [OF c(2)] sz(2) sclog_ops if_False)
qed

end

end
