(* ===== verification/FsDirs.thy ===== *)
theory FsDirs
  imports FsFiles FsStart
begin

text \<open>
  Directories: \<open>dirlookup\<close> finds the first entry with the name, and path names of one component in the
  root directory of a new file system.
\<close>

section \<open>dirlookup\<close>

lemma wpm_call_inode: "wpm (call (inode_get ip id) F) Q C s = wpm (F (icache s ip)) Q C s"
  by (simp add: wpm_simps)

definition dent :: "(nat \<Rightarrow> bytes) \<Rightarrow> inode \<Rightarrow> nat \<Rightarrow> bytes" where
  "dent V i off = (\<lambda>j. if j < DIRENT_SIZE then fbyte V i (off + j) else 0)"

definition dmatch :: "(nat \<Rightarrow> bytes) \<Rightarrow> inode \<Rightarrow> bytes \<Rightarrow> nat \<Rightarrow> bool" where
  "dmatch V i name off \<longleftrightarrow> de_inum (dent V i off) \<noteq> 0 \<and> namecmp name (de_name (dent V i off)) = 0"

lemma dir_offs_less:
  assumes "off \<in> set (dir_offs 0 sz)" "sz mod DIRENT_SIZE = 0"
  shows "off + DIRENT_SIZE \<le> sz"
  using assms by (auto simp: dir_offs_def macros)

context snapshot_disk
begin

lemma tx_dirlookup:
  assumes s: "in_txn up s A" and i: "icache s dp = i" and ok: "file_ok A i" "i_type i = T_DIR" "i_size i mod DIRENT_SIZE = 0" and nh: "nheld A \<le> 80"
    and none: "\<And>t. find (dmatch (a_view A) i name) (dir_offs 0 (i_size i)) = None \<Longrightarrow> in_txn up t A \<Longrightarrow> same_vars s t \<Longrightarrow> Q None t"
    and some: "\<And>off t. find (dmatch (a_view A) i name) (dir_offs 0 (i_size i)) = Some off \<Longrightarrow> in_txn up t A \<Longrightarrow> same_vars s t \<Longrightarrow>
      wpm (iget ROOTDEV (de_inum (dent (a_view A) i off))) (\<lambda>ip. Q (Some (ip, off))) C t"
  shows "wpm (dirlookup (sclog ops) dp name) Q C s"
proof -
  have sz: "i_dev i = ROOTDEV" "i_type i \<noteq> T_DEV" "i_size i < 4294967296" using ok by (simp_all add: file_ok_def)
  let ?body = "\<lambda>off. call (readi (sclog ops) dp (\<lambda>_. 0) off DIRENT_SIZE) (\<lambda>(r, de).
       if r \<noteq> int DIRENT_SIZE then panicp ''dirlink read''
       else if de_inum de = 0 then ret None
       else if namecmp name (de_name de) = 0
       then call (iget (i_dev i) (de_inum de)) (\<lambda>ip. ret (Some (ip, off)))
       else ret None)"
  have rd: "wpm (?body off) R C t" if off: "off \<in> set (dir_offs 0 (i_size i))" and t: "in_txn up t A" "same_vars s t"
    and R: "\<And>u. in_txn up u A \<Longrightarrow> same_vars s u \<Longrightarrow> (if dmatch (a_view A) i name off
        then wpm (iget ROOTDEV (de_inum (dent (a_view A) i off))) (\<lambda>ip. R (Some (ip, off))) C u else R None u)" for off t R
  proof -
    have o': "off + DIRENT_SIZE \<le> i_size i" using dir_offs_less [OF off ok(3)] .
    have it: "icache t dp = i" using t(2) i by (simp add: same_vars_def)
    have n: "DIRENT_SIZE = min DIRENT_SIZE (i_size i - off)" "s32 DIRENT_SIZE = int DIRENT_SIZE" using o' by (auto simp: s32_def macros)
    have "wpm (readi (sclog ops) dp (\<lambda>_. 0) off DIRENT_SIZE) (\<lambda>x. wpm (case x of (r, de) \<Rightarrow>
       if r \<noteq> int DIRENT_SIZE then panicp ''dirlink read''
       else if de_inum de = 0 then ret None
       else if namecmp name (de_name de) = 0
       then call (iget (i_dev i) (de_inum de)) (\<lambda>ip. ret (Some (ip, off)))
       else ret None) R C) C t"
    proof (rule tx_readi [OF t(1) it sz(1,2,3) _ _ n(1) file_ok_readable [OF ok(1) o']])
      fix u assume u: "in_txn up u A" "same_vars t u"
      show "wpm (case (s32 DIRENT_SIZE, \<lambda>j. if j < DIRENT_SIZE then fbyte (a_view A) i (off + j) else 0) of (r, de) \<Rightarrow>
       if r \<noteq> int DIRENT_SIZE then panicp ''dirlink read''
       else if de_inum de = 0 then ret None
       else if namecmp name (de_name de) = 0
       then call (iget (i_dev i) (de_inum de)) (\<lambda>ip. ret (Some (ip, off)))
       else ret None) R C u"
        using R [OF u(1) same_vars_trans [OF t(2) u(2)]]
        by (simp add: wpm_simps n(2) dent_def [symmetric] dmatch_def sz(1) split: if_splits)
    qed (use o' sz(3) nh in auto)
    then show ?thesis by (simp only: wpm_call)
  qed
  have "wpm (for_each (dir_offs 0 (i_size i)) ?body) Q C s"
  proof (rule wpm_for_each_find [where P = "dmatch (a_view A) i name" and I = "\<lambda>t. in_txn up t A \<and> same_vars s t"])
    fix off t assume t: "in_txn up t A \<and> same_vars s t" and f: "find (dmatch (a_view A) i name) (dir_offs 0 (i_size i)) = Some off"
    have m: "off \<in> set (dir_offs 0 (i_size i))" "dmatch (a_view A) i name off" using f by (auto simp: find_Some_iff)
    show "wpm (?body off) (\<lambda>r u. r \<noteq> None \<and> Q r u) C t" by (rule rd) (use t m f some in auto)
  qed (use s none in \<open>auto intro!: rd\<close>)
  then show ?thesis unfolding dirlookup_def wpm_call_inode i using ok(2) by simp
qed

end

section \<open>Names\<close>

lemma strncmp_cong: "(\<And>k. i \<le> k \<Longrightarrow> k < i + n \<Longrightarrow> t k = u k) \<Longrightarrow> strncmp s t i n = strncmp s u i n"
proof (induction n arbitrary: i)
  case (Suc n)
  have "t i = u i" "strncmp s t (Suc i) n = strncmp s u (Suc i) n" using Suc by auto
  then show ?case by simp
qed simp

text \<open>Names that compare equal are interchangeable.\<close>

lemma strncmp_trans: "strncmp a b i n = 0 \<Longrightarrow> strncmp x b i n = 0 \<longleftrightarrow> strncmp x a i n = 0"
proof (induction n arbitrary: i)
  case (Suc n)
  then show ?case by (auto split: if_splits)
qed simp

lemma namecmp_trans: "namecmp a b = 0 \<Longrightarrow> namecmp x b = 0 \<longleftrightarrow> namecmp x a = 0"
  unfolding namecmp_def by (rule strncmp_trans)

text \<open>A path of one component.\<close>

lemma skipelem_one:
  assumes "x \<noteq> []" "CHR ''/'' \<notin> set x" "length x < DIRSIZ"
  shows "skipelem (CHR ''/'' # x) nm = Some ([], (copy_str x nm)(length x := 0))"
proof -
  have 1: "dropWhile (\<lambda>c. c = CHR ''/'') (CHR ''/'' # x) = x" using assms by (cases x) auto
  have 2: "takeWhile (\<lambda>c. c \<noteq> CHR ''/'') x = x" "dropWhile (\<lambda>c. c \<noteq> CHR ''/'') x = []"
    using assms(2) by (auto simp: takeWhile_eq_all_conv dropWhile_eq_Nil_conv)
  show ?thesis unfolding skipelem_def Let_def 1 2 using assms(1,3) by simp
qed

section \<open>The root directory of a new file system\<close>

lemma fresh_txn: "fresh_fs up s A \<Longrightarrow> 1 \<le> outstanding s \<Longrightarrow> in_txn up s A"
  by (simp add: fresh_fs_def in_txn_def)

lemma fresh_same:
  assumes "fresh_fs up s A" "in_txn up t A" "same_vars (s\<lparr>icache := I\<rparr>) t" "\<And>i. i < NINODE \<Longrightarrow> i_ref (I i) = 0"
  shows "fresh_fs up t A"
  using assms by (auto simp: fresh_fs_def in_txn_def same_vars_def)

text \<open>The entry of the root inode while it is locked.\<close>

definition root_entry_of :: "(nat \<Rightarrow> bytes) \<Rightarrow> inode \<Rightarrow> inode" where
  "root_entry_of V x = locked (inode_at V ROOTINO) (new_inode ROOTDEV ROOTINO x)"

lemma root_fields:
  assumes "mkfs_image V"
  shows "i_ref (root_entry_of V x) = 1" "i_busy (root_entry_of V x)" "i_valid (root_entry_of V x)" "i_dev (root_entry_of V x) = ROOTDEV"
    "i_inum (root_entry_of V x) = ROOTINO" "i_type (root_entry_of V x) = T_DIR" "i_nlink (root_entry_of V x) = 1" "i_size (root_entry_of V x) = BSIZE"
    "i_addrs (root_entry_of V x) 0 = nmeta" "i_addrs (root_entry_of V x) NDIRECT = 0"
  using assms by (auto simp: mkfs_image_def Let_def root_entry_of_def locked_def new_inode_def load_dinode_def inode_at_def macros)

lemma root_ok:
  assumes "mkfs_image (a_view A)" "a_held A = Map.empty"
  shows "file_ok A (root_entry_of (a_view A) x)"
proof -
  note r = root_fields [OF assms(1), of x]
  have "fblocks (root_entry_of (a_view A) x) = {0}" using r(8) by (auto simp: fblocks_def macros)
  moreover have "fblk (a_view A) (root_entry_of (a_view A) x) 0 = nmeta" using r(9) by (simp add: fblk_def macros)
  ultimately show ?thesis using r assms(2) by (auto simp: file_ok_def mapped_def macros)
qed

lemma root_miss:
  assumes img: "mkfs_image V" and nm: "namecmp name (cstr ''.'') \<noteq> 0" "namecmp name (cstr ''..'') \<noteq> 0"
  shows "find (dmatch V (root_entry_of V x) name) (dir_offs 0 BSIZE) = None"
proof -
  let ?r = "root_entry_of V x" and ?e = "root_entry (V nmeta)"
  note r = root_fields [OF img, of x]
  have fb: "fbyte V ?r p = V nmeta p" if "p < BSIZE" for p using that r(9) by (simp add: fbyte_def fblk_def macros)
  have de: "dent V ?r (k * DIRENT_SIZE) j = ?e k j" if "k < 64" "j < DIRENT_SIZE" for k j
    using that by (simp add: dent_def root_entry_def fb macros)
  have inum: "de_inum (dent V ?r (k * DIRENT_SIZE)) = de_inum (?e k)" if "k < 64" for k
    using de [OF that, of 0] de [OF that, of 1] by (simp add: de_inum_def get16_def macros)
  have name: "namecmp name (de_name (dent V ?r (k * DIRENT_SIZE))) = namecmp name (de_name (?e k))" if "k < 64" for k
    unfolding namecmp_def by (rule strncmp_cong) (use de [OF that] in \<open>simp add: de_name_def macros\<close>)
  have "\<not> dmatch V ?r name (k * DIRENT_SIZE)" if k: "k < 64" for k
  proof -
    consider "k = 0" | "k = 1" | "2 \<le> k" by linarith
    then show ?thesis
    proof cases
      case 1
      then show ?thesis using img nm(1) name [of 0] namecmp_trans [of "cstr ''.''" "de_name (?e 0)" name]
        by (simp add: dmatch_def mkfs_image_def Let_def cstr_def)
    next
      case 2
      then show ?thesis using img nm(2) name [of 1] namecmp_trans [of "cstr ''..''" "de_name (?e 1)" name]
        by (simp add: dmatch_def mkfs_image_def Let_def cstr_def)
    next
      case 3
      then show ?thesis using img inum [OF k] k by (simp add: dmatch_def mkfs_image_def Let_def macros)
    qed
  qed
  then show ?thesis by (auto simp: find_None_iff dir_offs_def macros)
qed

section \<open>Path names\<close>

context snapshot_disk
begin

lemma root_iget:
  assumes "\<forall>i < NINODE. i_ref (icache s i) = 0"
  shows "iget ROOTDEV ROOTINO s = Ret 0 (s\<lparr>icache := (icache s)(0 := new_inode ROOTDEV ROOTINO (icache s 0))\<rparr>)"
proof -
  have n: "0 < NINODE" by (simp add: macros)
  have "find (\<lambda>i. cached ROOTDEV ROOTINO (icache s i)) [0..<NINODE] = None"
    using assms by (auto simp: find_None_iff cached_def)
  moreover have "find (\<lambda>i. i_ref (icache s i) = 0) [0..<NINODE] = Some 0"
    using assms n by (simp add: upt_conv_Cons)
  ultimately show ?thesis by (simp add: iget_eq)
qed

lemma root_lock:
  assumes s: "fresh_fs up s A" "1 \<le> outstanding s" and i: "x = new_inode ROOTDEV ROOTINO y \<or> x = (root_entry_of (a_view A) y)\<lparr>i_busy := False\<rparr>"
    and Q: "\<And>u. in_txn up u A \<Longrightarrow> same_vars (s\<lparr>icache := (icache s)(0 := root_entry_of (a_view A) y)\<rparr>) u \<Longrightarrow> Q () u"
    and t: "in_txn up t A" "same_vars (s\<lparr>icache := (icache s)(0 := x)\<rparr>) t"
  shows "wpm (ilock (sclog ops) 0) Q C t"
proof -
  have img: "mkfs_image (a_view A)" and h: "a_held A = Map.empty" using s by (simp_all add: fresh_fs_def)
  note r = root_fields [OF img, of y]
  have it: "icache t = (icache s)(0 := x)" using t(2) by (simp add: same_vars_def)
  have lock: "locked (inode_at (a_view A) ROOTINO) x = root_entry_of (a_view A) y"
    using i r(2,3) by (auto simp: root_entry_of_def) (auto simp: locked_def root_entry_of_def new_inode_def)
  have x: "i_inum x = ROOTINO" "1 \<le> i_ref x" "\<not> i_busy x" "i_dev x = ROOTDEV" using i r by (auto simp: new_inode_def)
  show ?thesis
  proof (rule tx_ilock [OF t(1)])
    fix u assume "in_txn up u A" "same_vars (t\<lparr>icache := (icache t)(0 := locked (inode_at (a_view A) (i_inum x)) x)\<rparr>) u"
    then show "Q () u" using t(2) it lock x(1) by (intro Q) (auto simp: same_vars_def)
  qed (use it x h img in \<open>auto simp: IBLOCK_def nheld_def mkfs_image_def inode_at_def Let_def macros\<close>)
qed

lemma wp_root_iget:
  assumes "\<forall>i < NINODE. i_ref (icache s i) = 0"
  shows "wpm (iget ROOTDEV ROOTINO) Q C s = Q 0 (s\<lparr>icache := (icache s)(0 := new_inode ROOTDEV ROOTINO (icache s 0))\<rparr>)"
  using root_iget [OF assms] by (simp add: wpm_def)

text \<open>The first step of \<open>namex\<close> on a path of one component: the root inode is locked.\<close>

lemma namex_root:
  assumes s: "fresh_fs up s A" "1 \<le> outstanding s" and x: "x \<noteq> []" "CHR ''/'' \<notin> set x" "length x < DIRSIZ"
    and Q: "\<And>u. in_txn up u A \<Longrightarrow> same_vars (s\<lparr>icache := (icache s)(0 := root_entry_of (a_view A) (icache s 0))\<rparr>) u \<Longrightarrow>
      wpm (if np then after [iunlock 0] (ret (Inr (Some 0, (copy_str x nm)(length x := 0))))
           else call (dirlookup (sclog ops) 0 ((copy_str x nm)(length x := 0))) (\<lambda>r. case r of
             None \<Rightarrow> after [iunlockput (sclog ops) 0] (ret (Inr (None, (copy_str x nm)(length x := 0))))
           | Some (next_ip, _) \<Rightarrow> after [iunlockput (sclog ops) 0] (ret (Inl ([] :: string, (copy_str x nm)(length x := 0), next_ip)))))
        (\<lambda>y. case y of Inl w \<Rightarrow> (\<lambda>_. False) | Inr r \<Rightarrow> Q r) C u"
  shows "wpm (namex (sclog ops) (CHR ''/'' # x) np nm) Q C s"
proof -
  let ?s = "s\<lparr>icache := (icache s)(0 := new_inode ROOTDEV ROOTINO (icache s 0))\<rparr>"
  have ref: "\<forall>i < NINODE. i_ref (icache s i) = 0" and img: "mkfs_image (a_view A)" using s by (simp_all add: fresh_fs_def)
  have t: "in_txn up ?s A" "same_vars ?s ?s" using fresh_txn [OF s] by simp_all
  let ?nm = "(copy_str x nm)(length x := 0)"
  let ?R = "\<lambda>y. case y of Inl w \<Rightarrow> (\<lambda>_. False) | Inr r \<Rightarrow> Q r"
  let ?body = "\<lambda>(path, name, ip). case skipelem path name of
       None \<Rightarrow> if np then after [iput (sclog ops) ip] (ret (Inr (None, name))) else ret (Inr (Some ip, name))
     | Some (path, name) \<Rightarrow> after [ilock (sclog ops) ip] (call (inode_get ip i_type) (\<lambda>type.
         if type \<noteq> T_DIR then after [iunlockput (sclog ops) ip] (ret (Inr (None, name)))
         else if np \<and> path = [] then after [iunlock ip] (ret (Inr (Some ip, name)))
         else call (dirlookup (sclog ops) ip name) (\<lambda>r. case r of
           None \<Rightarrow> after [iunlockput (sclog ops) ip] (ret (Inr (None, name)))
         | Some (next_ip, _) \<Rightarrow> after [iunlockput (sclog ops) ip] (ret (Inl (path, name, next_ip))))))"
  let ?rest = "call (inode_get 0 i_type) (\<lambda>type.
         if type \<noteq> T_DIR then after [iunlockput (sclog ops) 0] (ret (Inr (None, ?nm)))
         else if np then after [iunlock 0] (ret (Inr (Some (0 :: nat), ?nm)))
         else call (dirlookup (sclog ops) 0 ?nm) (\<lambda>r. case r of
           None \<Rightarrow> after [iunlockput (sclog ops) 0] (ret (Inr (None, ?nm)))
         | Some (next_ip, _) \<Rightarrow> after [iunlockput (sclog ops) 0] (ret (Inl ([] :: string, ?nm, next_ip)))))"
  have "wpm ?rest ?R C u" if u: "in_txn up u A" "same_vars (s\<lparr>icache := (icache s)(0 := root_entry_of (a_view A) (icache s 0))\<rparr>) u" for u
    using Q [OF u] root_fields(6) [OF img] u(2) by (cases np) (simp_all add: wpm_simps same_vars_def)
  then have "wpm (ilock (sclog ops) 0) (\<lambda>_. wpm ?rest ?R C) C ?s"
    by (intro root_lock [OF s disjI1 [OF refl] _ t])
  moreover have "?body (CHR ''/'' # x, nm, 0) = call (ilock (sclog ops) 0) (\<lambda>_. ?rest)" by (simp add: skipelem_one [OF x])
  ultimately have "wpm (?body (CHR ''/'' # x, nm, 0)) ?R C ?s" by (simp only: wpm_call)
  then have "wpm (loop ?body (CHR ''/'' # x, nm, 0)) Q C ?s"
    by (subst wpm_loop_unfold, rule wpm_mono) (auto split: sum.splits)
  then show ?thesis by (simp add: namex_def wpm_simps wp_root_iget [OF ref])
qed

lemma root_release:
  assumes s: "fresh_fs up s A" and u: "in_txn up u A" "same_vars (s\<lparr>icache := (icache s)(0 := root_entry_of (a_view A) y)\<rparr>) u"
    and Q: "\<And>t. fresh_fs up t A \<Longrightarrow> same_vars (s\<lparr>icache := icache t\<rparr>) t \<Longrightarrow> Q () t"
  shows "wpm (iunlockput (sclog ops) 0) Q C u"
proof -
  have img: "mkfs_image (a_view A)" and ref: "\<And>i. i < NINODE \<Longrightarrow> i_ref (icache s i) = 0" using s by (simp_all add: fresh_fs_def)
  note r = root_fields [OF img, of y]
  let ?r = "root_entry_of (a_view A) y"
  have iu: "icache u = (icache s)(0 := ?r)" using u(2) by (simp add: same_vars_def)
  let ?v = "u\<lparr>icache := (icache u)(0 := ?r\<lparr>i_busy := False\<rparr>)\<rparr>" and ?I = "(icache s)(0 := ?r\<lparr>i_busy := False, i_ref := 0\<rparr>)"
  have 1: "iunlock 0 u = Ret () ?v" using iunlock_eq [of u 0] iu r by simp
  have 2: "iput (sclog ops) 0 ?v = Ret () (u\<lparr>icache := ?I\<rparr>)"
    using r by (subst iput_keep) (simp_all add: iu)
  have "fresh_fs up (u\<lparr>icache := ?I\<rparr>) A"
    by (rule fresh_same [OF s, where I = ?I]) (use u ref in \<open>auto simp: same_vars_def\<close>)
  then have "Q () (u\<lparr>icache := ?I\<rparr>)" using u(2) by (intro Q) (auto simp: same_vars_def)
  then show ?thesis by (simp add: iunlockput_def steps_def wpm_def call_def 1 2 ret_def)
qed

text \<open>A name that is not in the root directory.\<close>

definition absent :: "string \<Rightarrow> bytes \<Rightarrow> bool" where
  "absent x nm \<longleftrightarrow> x \<noteq> [] \<and> CHR ''/'' \<notin> set x \<and> length x < DIRSIZ
     \<and> namecmp ((copy_str x nm)(length x := 0)) (cstr ''.'') \<noteq> 0 \<and> namecmp ((copy_str x nm)(length x := 0)) (cstr ''..'') \<noteq> 0"

lemma root_lookup:
  assumes s: "fresh_fs up s A" and u: "in_txn up u A" "same_vars (s\<lparr>icache := (icache s)(0 := root_entry_of (a_view A) y)\<rparr>) u"
    and nm: "namecmp name (cstr ''.'') \<noteq> 0" "namecmp name (cstr ''..'') \<noteq> 0"
    and Q: "\<And>t. in_txn up t A \<Longrightarrow> same_vars (s\<lparr>icache := (icache s)(0 := root_entry_of (a_view A) y)\<rparr>) t \<Longrightarrow> Q None t"
  shows "wpm (dirlookup (sclog ops) 0 name) Q C u"
proof -
  have img: "mkfs_image (a_view A)" and h: "a_held A = Map.empty" using s by (simp_all add: fresh_fs_def)
  note r = root_fields [OF img, of y]
  have iu: "icache u 0 = root_entry_of (a_view A) y" using u(2) by (simp add: same_vars_def)
  note miss = root_miss [OF img nm, of y]
  show ?thesis
    by (rule tx_dirlookup [OF u(1) iu root_ok [OF img h]])
       (use r miss Q same_vars_trans [OF u(2)] h in \<open>auto simp: nheld_def macros\<close>)
qed

lemma namei_missing:
  assumes s: "fresh_fs up s A" "1 \<le> outstanding s" and x: "absent x (\<lambda>_. 0)"
    and Q: "\<And>t. fresh_fs up t A \<Longrightarrow> same_vars (s\<lparr>icache := icache t\<rparr>) t \<Longrightarrow> Q None t"
  shows "wpm (namei (sclog ops) (CHR ''/'' # x)) Q C s"
proof -
  let ?nm = "(copy_str x (\<lambda>_. 0))(length x := 0)"
  have "wpm (namex (sclog ops) (CHR ''/'' # x) False (\<lambda>_. 0)) (\<lambda>r. wpm (case r of (ip, _) \<Rightarrow> ret ip) Q C) C s"
  proof (rule namex_root [OF s])
    fix u assume u: "in_txn up u A" "same_vars (s\<lparr>icache := (icache s)(0 := root_entry_of (a_view A) (icache s 0))\<rparr>) u"
    let ?R = "\<lambda>y. case y of Inl w \<Rightarrow> (\<lambda>_. False) | Inr r \<Rightarrow> wpm (case r of (ip, _) \<Rightarrow> ret ip) Q C"
    have "wpm (call (iunlockput (sclog ops) 0) (\<lambda>_. ret (Inr (None, ?nm)))) ?R C v"
      if v: "in_txn up v A" "same_vars (s\<lparr>icache := (icache s)(0 := root_entry_of (a_view A) (icache s 0))\<rparr>) v" for v
      unfolding wpm_call by (rule root_release [OF s(1) v]) (use Q in \<open>auto simp: wpm_simps\<close>)
    then have "wpm (dirlookup (sclog ops) 0 ?nm) (\<lambda>r. wpm (case r of
             None \<Rightarrow> after [iunlockput (sclog ops) 0] (ret (Inr (None, ?nm)))
           | Some (next_ip, _) \<Rightarrow> after [iunlockput (sclog ops) 0] (ret (Inl ([] :: string, ?nm, next_ip)))) ?R C) C u"
      by (intro root_lookup [OF s(1) u]) (use x in \<open>auto simp: absent_def\<close>)
    then show "wpm (if False then after [iunlock 0] (ret (Inr (Some 0, ?nm)))
           else call (dirlookup (sclog ops) 0 ?nm) (\<lambda>r. case r of
             None \<Rightarrow> after [iunlockput (sclog ops) 0] (ret (Inr (None, ?nm)))
           | Some (next_ip, _) \<Rightarrow> after [iunlockput (sclog ops) 0] (ret (Inl ([] :: string, ?nm, next_ip))))) ?R C u"
      by (simp only: wpm_call if_False)
  qed (use x in \<open>auto simp: absent_def\<close>)
  then show ?thesis unfolding namei_def wpm_call .
qed

lemma dounlink_missing:
  assumes s: "fresh_fs up s A" "1 \<le> outstanding s" and x: "absent x local_name"
    and Q: "\<And>t. fresh_fs up t A \<Longrightarrow> same_vars (s\<lparr>icache := icache t\<rparr>) t \<Longrightarrow> Q ENOENT t"
  shows "wpm (sys_dounlink (sclog ops) (CHR ''/'' # x)) Q C s"
proof -
  let ?nm = "(copy_str x local_name)(length x := 0)" and ?y = "icache s 0"
  have img: "mkfs_image (a_view A)" using s by (simp add: fresh_fs_def)
  note r = root_fields [OF img, of ?y]
  have nm: "namecmp ?nm (cstr ''.'') \<noteq> 0" "namecmp ?nm (cstr ''..'') \<noteq> 0" using x by (auto simp: absent_def)
  let ?at = "\<lambda>y t. in_txn up t A \<and> same_vars (s\<lparr>icache := (icache s)(0 := y)\<rparr>) t"
  let ?found = "\<lambda>ip off. after [ilock (sclog ops) ip] (call (inode_get ip id) (\<lambda>i.
           if i_nlink i < 1 then panicp ''unlink: nlink < 1''
           else call (if i_type i = T_DIR then isdirempty (sclog ops) ip else ret True) (\<lambda>ok.
             if \<not> ok then after [iunlockput (sclog ops) ip, iunlockput (sclog ops) 0] (ret (-1))
             else unlink_entry (sclog ops) 0 ip off)))"
  let ?L = "call (dirlookup (sclog ops) 0 ?nm) (\<lambda>r. case r of
         None \<Rightarrow> after [iunlockput (sclog ops) 0] (ret ENOENT) | Some (ip, off) \<Rightarrow> ?found ip off)"
  have rel: "wpm (call (iunlockput (sclog ops) 0) (\<lambda>_. ret ENOENT)) Q C v" if "?at (root_entry_of (a_view A) ?y) v" for v
    unfolding wpm_call by (rule root_release [OF s(1) conjunct1 [OF that] conjunct2 [OF that]]) (use Q in \<open>auto simp: wpm_simps\<close>)
  have look: "wpm ?L Q C u" if u: "?at (root_entry_of (a_view A) ?y) u" for u
    unfolding wpm_call by (rule root_lookup [OF s(1) conjunct1 [OF u] conjunct2 [OF u] nm]) (use rel in simp)
  have lk: "wpm (call (ilock (sclog ops) 0) (\<lambda>_. ?L)) Q C v" if v: "?at ((root_entry_of (a_view A) ?y)\<lparr>i_busy := False\<rparr>) v" for v
    unfolding wpm_call by (rule root_lock [OF s disjI2 [OF refl] _ conjunct1 [OF v] conjunct2 [OF v]]) (use look in \<open>simp only: wpm_call\<close>)
  have nm': "\<not> (namecmp ?nm (cstr ''.'') = 0 \<or> namecmp ?nm (cstr ''..'') = 0)" using nm by simp
  have lock: "wpm (after [ilock (sclog ops) 0] (
       if namecmp ?nm (cstr ''.'') = 0 \<or> namecmp ?nm (cstr ''..'') = 0
       then after [iunlockput (sclog ops) 0] (ret (-1)) else ?L)) Q C v" if "?at ((root_entry_of (a_view A) ?y)\<lparr>i_busy := False\<rparr>) v" for v
    unfolding if_not_P [OF nm'] using lk [OF that] by (simp only: after.simps)
  have "wpm (namex (sclog ops) (CHR ''/'' # x) True local_name) (\<lambda>y. wpm (case y of (dp, name) \<Rightarrow> (case dp of
     None \<Rightarrow> ret (-1)
   | Some dp \<Rightarrow> after [ilock (sclog ops) dp] (
       if namecmp name (cstr ''.'') = 0 \<or> namecmp name (cstr ''..'') = 0
       then after [iunlockput (sclog ops) dp] (ret (-1))
       else call (dirlookup (sclog ops) dp name) (\<lambda>r. case r of
         None \<Rightarrow> after [iunlockput (sclog ops) dp] (ret ENOENT)
       | Some (ip, off) \<Rightarrow> after [ilock (sclog ops) ip] (call (inode_get ip id) (\<lambda>i.
           if i_nlink i < 1 then panicp ''unlink: nlink < 1''
           else call (if i_type i = T_DIR then isdirempty (sclog ops) ip else ret True) (\<lambda>ok.
             if \<not> ok then after [iunlockput (sclog ops) ip, iunlockput (sclog ops) dp] (ret (-1))
             else unlink_entry (sclog ops) dp ip off))))))) Q C) C s" (is "wpm _ ?P C s")
  proof (rule namex_root [OF s])
    fix u assume u: "in_txn up u A" "same_vars (s\<lparr>icache := (icache s)(0 := root_entry_of (a_view A) ?y)\<rparr>) u"
    let ?v = "u\<lparr>icache := (icache u)(0 := (root_entry_of (a_view A) ?y)\<lparr>i_busy := False\<rparr>)\<rparr>"
    have iu: "icache u = (icache s)(0 := root_entry_of (a_view A) ?y)" using u(2) by (simp add: same_vars_def)
    have "iunlock 0 u = Ret () ?v" using iunlock_eq [of u 0] iu r by simp
    moreover have "?at ((root_entry_of (a_view A) ?y)\<lparr>i_busy := False\<rparr>) ?v" using u by (simp add: same_vars_def)
    ultimately have "wpm (after [iunlock 0] (ret (Inr (Some 0, ?nm)))) (\<lambda>y. case y of Inl (w :: string \<times> bytes \<times> nat) \<Rightarrow> (\<lambda>_. False) | Inr r \<Rightarrow> ?P r) C u"
      using lock by (simp add: wpm_def call_def ret_def)
    then show "wpm (if True then after [iunlock 0] (ret (Inr (Some 0, ?nm)))
           else call (dirlookup (sclog ops) 0 ?nm) (\<lambda>r. case r of
             None \<Rightarrow> after [iunlockput (sclog ops) 0] (ret (Inr (None, ?nm)))
           | Some (next_ip, _) \<Rightarrow> after [iunlockput (sclog ops) 0] (ret (Inl ([] :: string, ?nm, next_ip)))))
        (\<lambda>y. case y of Inl w \<Rightarrow> (\<lambda>_. False) | Inr r \<Rightarrow> ?P r) C u" by simp
  qed (use x in \<open>auto simp: absent_def\<close>)
  then show ?thesis unfolding sys_dounlink_def nameiparent_def wpm_call .
qed

text \<open>
  Renaming a file that does not exist: \<open>sys_dolink\<close> ends the transaction and so does
  \<open>sys_rename\<close>, so that one operation less than none is counted.
\<close>

lemma rename_missing:
  assumes s: "fresh_fs up s A" "outstanding s = 0" and x: "absent a (\<lambda>_. 0)" "absent b local_name"
  shows "wpm (sys_rename (sclog ops) (CHR ''/'' # a) (CHR ''/'' # b)) (\<lambda>r t. r = -1 \<and> outstanding t = -1 \<and> \<not> committing t)
    (\<lambda>t. \<exists>st. down (dsk t) st) s" (is "wpm _ ?Q ?C s")
proof -
  let ?E = "sclog ops" and ?p = "CHR ''/'' # a" and ?q = "CHR ''/'' # b"
  have second: "wpm (call (sc_end_op ops) (\<lambda>_. ret (-1))) ?Q ?C t" if t: "idle up t A'" "outstanding t = 0" for t A'
    unfolding wpm_call by (rule wp_sc_end_op [OF t(1)]) (use t(2) in \<open>auto simp: wpm_simps idle_def fs_inv_def\<close>)
  have first: "wpm (call (sc_end_op ops) (\<lambda>_. ret (-1))) (\<lambda>r. wpm (call (if r = 0 then sys_dounlink ?E ?p else ret r) (\<lambda>r. after [sc_end_op ops] (ret r))) ?Q ?C) ?C t"
    if t: "fresh_fs up t A" "outstanding t = 1" for t
    unfolding wpm_call by (rule wp_sc_end_op [OF fresh_fs_idle [OF t(1)]]) (use t(2) second in \<open>auto simp: wpm_simps wpm_call_eta\<close>)
  have link: "wpm (sys_dolink ?E ?p ?q) (\<lambda>r. wpm (call (if r = 0 then sys_dounlink ?E ?p else ret r) (\<lambda>r. after [sc_end_op ops] (ret r))) ?Q ?C) ?C t"
    if t: "fresh_fs up t A" "outstanding t = 1" for t
    unfolding sys_dolink_def wpm_call sclog_ops
    by (rule namei_missing [OF t(1) _ x(1)]) (use t(2) first in \<open>auto simp: same_vars_def wpm_call_eta\<close>)
  let ?s = "s\<lparr>outstanding := 1\<rparr>"
  have "lh_n s = 0" using s log_ok_card [of s A] by (auto simp: fresh_fs_def log_ok_def)
  then have b: "begin_op s = Ret () ?s" using s by (simp add: begin_op_eq fresh_fs_def macros)
  have s': "fresh_fs up ?s A" using s by (auto simp: fresh_fs_def cache_inv_def log_ok_def log_list_def)
  have "wpm (sys_dounlink ?E ?q) (\<lambda>r. wpm (call (if r = 0 \<or> r = ENOENT
           then call (sys_dolink ?E ?p ?q) (\<lambda>r. if r = 0 then sys_dounlink ?E ?p else ret r)
           else ret r) (\<lambda>r. after [sc_end_op ops] (ret r))) ?Q ?C) ?C ?s"
  proof (rule dounlink_missing [OF s' _ x(2)])
    fix t assume t: "fresh_fs up t A" "same_vars (?s\<lparr>icache := icache t\<rparr>) t"
    then have "outstanding t = 1" by (simp add: same_vars_def)
    from link [OF t(1) this] show "wpm (call (if ENOENT = 0 \<or> ENOENT = ENOENT
           then call (sys_dolink ?E ?p ?q) (\<lambda>r. if r = 0 then sys_dounlink ?E ?p else ret r)
           else ret ENOENT) (\<lambda>r. after [sc_end_op ops] (ret r))) ?Q ?C t" by (simp add: wpm_call_eta)
  qed simp
  moreover have "wpm begin_op R ?C s = R () ?s" for R by (simp add: wpm_def b)
  ultimately show ?thesis by (simp add: sys_rename_def wpm_call_eta)
qed

end

end
