(* ===== verification/Spec2Isabelle.thy ===== *)
theory Spec2Isabelle
  imports FtlProps FsProps FsDirs
begin

text \<open>
  HEADER
\<close>

section \<open>Snapshot consistency\<close>

text \<open>
  C1: snapshot consistency. Start from a flash that holds the snapshot \<open>st\<close> and run any sequence of
  writes, reads, flushes and recoveries of the disk layer in which the power fails at any moment, inside
  an operation or between two, with the memory lost each time. What the host observes is a run of the
  specification, and the state at the end represents the one the specification reaches.
\<close>

theorem snapshot_consistency:
  assumes "crash_inv s st" "runs (impl_step scftl_disk) (Down s) es c"
  shows "\<exists>a. runs spec_step (SDown st) es a
    \<and> ((\<exists>t vol st' n. c = Up t \<and> a = SUp vol st' n \<and> disk_inv t vol st' \<and> wcnt t = n)
       \<or> (\<exists>t st'. c = Down t \<and> a = SDown st' \<and> crash_inv t st'))"
proof -
  obtain a where a: "runs spec_step (SDown st) es a" "scftl.represents c a"
    using scftl.refinement [OF assms(2), of "SDown st"] assms(1) by auto
  from a(2) show ?thesis
    using a(1) by (cases rule: scftl.represents_cases) (auto simp: disk_up_def)
qed

theorem snapshot_consistency_witness:
  "\<exists>t. runs (impl_step scftl_disk) (Down formatted0) [Recovered, Wrote 7 (\<lambda>_. 5), PowerCut] (Down t)
    \<and> runs spec_step (SDown blank) [Recovered, Wrote 7 (\<lambda>_. 5), PowerCut] (SDown blank)"
proof -
  let ?es = "[Recovered, Wrote 7 (\<lambda>_. 5), PowerCut]"
  obtain t where t: "disk_write 7 (\<lambda>_. 5) disk0 = Done t"
    using steady_wp [OF steady_disk(2) wp_disk_write [OF disk0(2), of 7 "\<lambda>_. 5"] disk0(4)] disk0(3) by (auto simp: macros)
  have "op_recover scftl_disk formatted0 = Done disk0" "op_write scftl_disk 7 (\<lambda>_. 5) disk0 = Done t" "op_reboot scftl_disk t t"
    using disk0(1) t by (simp_all add: scftl_disk_def)
  then have r: "runs (impl_step scftl_disk) (Down formatted0) ?es (Down t)"
    by (blast intro: runs.intros impl_step.recovered impl_step.wrote impl_step.power_cut)
  obtain a where "runs spec_step (SDown blank) ?es a"
    using snapshot_consistency [OF formatted0(2) r] by blast
  moreover from this have "a = SDown blank" by (auto elim!: runs.cases spec_step.cases)
  ultimately show ?thesis using r by blast
qed

text \<open>
  C3: in no state that such a run reaches does an operation fault: there is no access out of the
  bounds of an array or of the flash, no failed assertion, no division by zero and no endless loop.
\<close>

theorem operations_never_fault:
  assumes "crash_inv s st" "runs (impl_step scftl_disk) (Down s) es c"
  shows "(\<forall>t. c = Up t \<longrightarrow> (\<forall>la d x. disk_write la d t \<noteq> Fault x) \<and> (\<forall>la x. la < N_LAS \<longrightarrow> disk_read la t \<noteq> Fault x)
      \<and> (\<forall>x. disk_flush t \<noteq> Fault x)) \<and> (\<forall>t x. c = Down t \<longrightarrow> disk_recovery t \<noteq> Fault x)"
  using scftl.no_fault [OF assms(2), of "SDown st"] assms(1) by (simp add: scftl_disk_def)

theorem operations_never_fault_witness:
  "disk_flush disk0 \<noteq> Fault Diverges \<and> disk_write 12 (\<lambda>_. 34) disk0 \<noteq> Fault OutOfBounds"
proof -
  have "op_recover scftl_disk formatted0 = Done disk0" using disk0(1) by (simp add: scftl_disk_def)
  then have "runs (impl_step scftl_disk) (Down formatted0) [Recovered] (Up disk0)"
    by (blast intro: runs.intros impl_step.recovered)
  from operations_never_fault [OF formatted0(2) this] show ?thesis by blast
qed

text \<open>
  C2: the crash test never fails. On the image that \<open>mkftl\<close> makes, for any sequence of the values
  of \<open>rand\<close>, any ratios and any number of rounds of writes, flushes, power losses and recoveries,
  every comparison of the disk with the test's model agrees.
\<close>

theorem crash_test_passes:
  assumes "flash_init img (fl s) = Done f" "env_ok (fl s)" "\<not> crash_sim (fl s)"
    and "disciplined (fl (dev t))" "\<not> crash_sim (fl (dev t))" "crash \<noteq> 0" "wrr \<noteq> 0" "cmp \<noteq> 0"
  shows "\<exists>u. crash_test (mkftl img s) crash wrr cmp rounds t = Done u"
proof -
  obtain v where "mkftl img s = flash_fini True (fl v)" "crash_inv v blank"
    using mkftl_image [OF assms(1-3)] by blast
  then have "wp (crash_test (mkftl img s) crash wrr cmp rounds) test_inv (\<lambda>_. False) t"
    using assms by (intro wp_crash_test) simp_all
  then show ?thesis by (rule wp_cases) blast+
qed

definition ctest0 :: ctest where
  "ctest0 = \<lparr>vlt = \<lambda>_. 0, stb = \<lambda>_. 0, spec_wcnt = 0, buf = \<lambda>_. 0, lsa_wr = 0, data_wr = 0, n_write = 0, n_flush = 0,
     n_recovery = 0, n_cmp = 0, wr_ratio = 0, cmp_ratio = 0, lsa = 0, diff = 0, was_crashed = 0, op = 0, ret_p = 0, dev = ftl0\<rparr>"

theorem crash_test_passes_witness: "\<exists>u. crash_test (mkftl None ftl0) 1000 8 10 50 ctest0 = Done u"
proof -
  obtain f where "flash_init None (fl ftl0) = Done f" by simp
  then show ?thesis by (rule crash_test_passes) (simp_all add: ctest0_def)
qed

end
